(* ===== verification/Prelude.thy ===== *)
theory Prelude
  imports Main "HOL-Library.Word" "HOL-Library.Monad_Syntax"
begin

text \<open>
  Shared vocabulary of the development: the C types the model uses, the string functions of the
  standard library the program calls (\<open>strcasecmp\<close>, \<open>strncasecmp\<close>, \<open>strchr\<close>,
  \<open>isgraph\<close>, \<open>isspace\<close>), the allocator state every operation threads through, the two
  list surgeries behind \<open>TAILQ_REMOVE\<close> and \<open>TAILQ_FOREACH\<close>, and the generic lemmas the
  component theories rest on.

  Undefined behaviour of the C program (use of freed memory, a double free, a NULL dereference,
  a read past the end of a string) is the value \<open>None\<close> of the \<open>option\<close> type the operations
  return; the \<open>do\<close> blocks propagate it.  \<open>Some (r, h)\<close> is a call that returned \<open>r\<close> and left
  the memory \<open>h\<close>.
\<close>

unbundle bit_operations_syntax

section \<open>C types\<close>

type_synonym addr = nat
type_synonym byte = "8 word"
type_synonym size_t = "64 word"
type_synonym cstring = string

section \<open>Strings of the C library\<close>

text \<open>A C string is the list of its characters, without the terminating NUL.\<close>

definition tolower :: "char \<Rightarrow> char" where
  "tolower c = (let n = of_char c :: nat
     in if 65 \<le> n \<and> n \<le> 90 then char_of (n + 32) else c)"

text \<open>
  POSIX fixes only the sign of \<open>strcasecmp\<close>; the program only tests the result against 0.
\<close>

fun strcasecmp :: "cstring \<Rightarrow> cstring \<Rightarrow> int" where
  "strcasecmp [] [] = 0"
| "strcasecmp [] (d # ds) = -1"
| "strcasecmp (c # cs) [] = 1"
| "strcasecmp (c # cs) (d # ds) =
     (let diff = int (of_char (tolower c)) - int (of_char (tolower d))
      in if diff = 0 then strcasecmp cs ds else diff)"

definition strncasecmp :: "cstring \<Rightarrow> cstring \<Rightarrow> nat \<Rightarrow> int" where
  "strncasecmp s t n = strcasecmp (take n s) (take n t)"

definition isspace :: "char \<Rightarrow> bool" where
  "isspace c \<longleftrightarrow> (let n = of_char c :: nat in n = 32 \<or> (9 \<le> n \<and> n \<le> 13))"

definition isgraph :: "char \<Rightarrow> bool" where
  "isgraph c \<longleftrightarrow> (let n = of_char c :: nat in 33 \<le> n \<and> n \<le> 126)"

text \<open>\<open>strchr\<close> as the text before and after the first occurrence.\<close>

fun split_at :: "char \<Rightarrow> cstring \<Rightarrow> (cstring \<times> cstring) option" where
  "split_at c [] = None"
| "split_at c (x # xs) =
     (if x = c then Some ([], xs)
      else (case split_at c xs of None \<Rightarrow> None | Some (a, b) \<Rightarrow> Some (x # a, b)))"

lemma of_char_eq_nat: "(of_char c :: nat) = of_char d \<longleftrightarrow> c = d"
  by simp

lemma strcasecmp_eq_0: "strcasecmp s t = 0 \<longleftrightarrow> map tolower s = map tolower t"
  by (induction s t rule: strcasecmp.induct) (auto simp: Let_def)

lemma strcasecmp_refl [simp]: "strcasecmp s s = 0"
  by (simp add: strcasecmp_eq_0)

lemma strcasecmp_commute: "strcasecmp s t = 0 \<longleftrightarrow> strcasecmp t s = 0"
  by (auto simp: strcasecmp_eq_0)

lemma strcasecmp_trans: "strcasecmp s t = 0 \<Longrightarrow> strcasecmp t u = 0 \<Longrightarrow> strcasecmp s u = 0"
  by (simp add: strcasecmp_eq_0)

lemma strcasecmp_length: "strcasecmp s t = 0 \<Longrightarrow> length s = length t"
  by (auto simp: strcasecmp_eq_0 dest: map_eq_imp_length_eq)

lemma of_char_char_of_small: "n < 256 \<Longrightarrow> (of_char (char_of n) :: nat) = n"
  by simp

lemma of_char_less [simp]: "(of_char c :: nat) < 256"
  by (metis nat_of_char_less_256)

lemma tolower_idem [simp]: "tolower (tolower c) = tolower c"
  by (auto simp: tolower_def Let_def)

lemma split_at_SomeD: "split_at c s = Some (a, b) \<Longrightarrow> s = a @ c # b \<and> c \<notin> set a"
  by (induction c s arbitrary: a rule: split_at.induct) (auto split: option.splits if_splits)

lemma split_at_append: "c \<notin> set a \<Longrightarrow> split_at c (a @ c # b) = Some (a, b)"
  by (induction a) auto

lemma split_at_Some: "split_at c s = Some (a, b) \<longleftrightarrow> s = a @ c # b \<and> c \<notin> set a"
  by (auto dest: split_at_SomeD simp: split_at_append)

lemma split_at_None: "split_at c s = None \<longleftrightarrow> c \<notin> set s"
  by (induction c s rule: split_at.induct) (auto split: option.splits)

section \<open>The allocator\<close>

text \<open>
  \<open>calloc\<close> hands out addresses in increasing order and never an address it has handed out
  before, so a stale address stays recognisable as freed.  A call fails when the environment
  says so (\<open>alloc_ok\<close>, an arbitrary predicate on the number of the request) or when the
  64-bit address space is used up.  \<open>strdup\<close> is a request too; the copy belongs to the
  structure that stores it, so it is kept there by value.
\<close>

record mem =
  next_addr :: addr
  alloc_ok :: "nat \<Rightarrow> bool"
  alloc_count :: nat

definition alloc_limit :: nat where
  "alloc_limit = 2 ^ 64"

definition calloc :: "'z mem_scheme \<Rightarrow> addr option \<times> 'z mem_scheme" where
  "calloc h = (let h' = h\<lparr>alloc_count := Suc (alloc_count h)\<rparr>
     in if alloc_ok h (alloc_count h) \<and> next_addr h < alloc_limit
        then (Some (next_addr h), h'\<lparr>next_addr := Suc (next_addr h)\<rparr>)
        else (None, h'))"

definition strdup :: "cstring \<Rightarrow> 'z mem_scheme \<Rightarrow> cstring option \<times> 'z mem_scheme" where
  "strdup s h = (if alloc_ok h (alloc_count h) then Some s else None,
                 h\<lparr>alloc_count := Suc (alloc_count h)\<rparr>)"

text \<open>The C string at the start of a buffer.\<close>

definition c_string :: "char list \<Rightarrow> cstring" where
  "c_string bs = takeWhile (\<lambda>c. c \<noteq> CHR 0x00) bs"

text \<open>An allocation whose block is used by value.\<close>

definition alloc_block :: "'z mem_scheme \<Rightarrow> bool \<times> 'z mem_scheme" where
  "alloc_block h = (alloc_ok h (alloc_count h), h\<lparr>alloc_count := Suc (alloc_count h)\<rparr>)"

text \<open>Every request for memory by value is granted.\<close>

definition granted :: "'z mem_scheme \<Rightarrow> bool" where
  "granted h \<longleftrightarrow> (\<forall>k. alloc_ok h k)"

lemma alloc_block_granted:
  assumes "granted h"
  obtains h' where "alloc_block h = (True, h')" "granted h'"
  using assms by (auto simp: alloc_block_def granted_def)

lemma strdup_granted:
  assumes "granted h"
  obtains h' where "strdup s h = (Some s, h')" "granted h'"
  using assms by (auto simp: strdup_def granted_def)

lemma c_string_text: "CHR 0x00 \<notin> set s \<Longrightarrow> c_string s = s"
  by (auto simp: c_string_def takeWhile_eq_all_conv)

section \<open>Linked lists by the addresses they link\<close>

text \<open>
  A \<open>TAILQ\<close> is the list of the addresses it links.  Removing an address that the list does
  not link writes through dangling link pointers: undefined.
\<close>

definition tailq_remove :: "addr \<Rightarrow> addr list \<Rightarrow> addr list option" where
  "tailq_remove a xs = (if a \<in> set xs then Some (remove1 a xs) else None)"

definition tailq_insert_tail :: "addr \<Rightarrow> addr list \<Rightarrow> addr list" where
  "tailq_insert_tail a xs = xs @ [a]"

lemma tailq_remove_Some [simp]: "a \<in> set xs \<Longrightarrow> tailq_remove a xs = Some (remove1 a xs)"
  by (simp add: tailq_remove_def)

section \<open>Generic lemmas\<close>

lemma byte_less [simp]: "unat (b :: byte) < 256"
proof -
  have "unat b < 2 ^ 8" by (rule order_less_le_trans [OF unsigned_less]) simp
  then show ?thesis by simp
qed

lemma map_cong_notin: "a \<notin> set xs \<Longrightarrow> map (f(a := v)) xs = map f xs"
  by (induction xs) auto

text \<open>The number of distinct addresses below a bound.\<close>

lemma distinct_bounded_length:
  assumes "distinct xs" and "\<forall>a \<in> set xs. 0 < a \<and> a < (n::nat)"
  shows "length xs < n \<or> xs = []"
proof (cases xs)
  case (Cons x ys)
  from assms(2) have "set xs \<subseteq> {0<..<n}" by auto
  then have "card (set xs) \<le> card {0<..<n}" by (intro card_mono) auto
  with assms Cons show ?thesis by (auto simp: distinct_card)
qed simp

lemma of_nat_size_t_inj:
  "m < alloc_limit \<Longrightarrow> n < alloc_limit \<Longrightarrow> (of_nat m :: size_t) = of_nat n \<longleftrightarrow> m = n"
  by (simp add: alloc_limit_def word_of_nat_eq_iff take_bit_nat_eq_self)

lemma of_nat_size_t_eq_0:
  "n < alloc_limit \<Longrightarrow> (of_nat n :: size_t) = 0 \<longleftrightarrow> n = 0"
  using of_nat_size_t_inj [of n 0] by (simp add: alloc_limit_def)

lemma of_nat_size_t_gt_0:
  "n < alloc_limit \<Longrightarrow> 0 < (of_nat n :: size_t) \<longleftrightarrow> 0 < n"
  by (simp add: word_greater_zero_iff of_nat_size_t_eq_0)

section \<open>Systems that keep an invariant\<close>

text \<open>
  A system of operations: the states it may start in, the steps it may take, and an invariant
  every step keeps.  The components instantiate it with their operations.
\<close>

locale invariant_system =
  fixes init :: "'s \<Rightarrow> bool" and step :: "'s \<Rightarrow> 's \<Rightarrow> bool" and inv :: "'s \<Rightarrow> bool"
  assumes init_law: "init s \<Longrightarrow> inv s"
    and step_law: "inv s \<Longrightarrow> step s s' \<Longrightarrow> inv s'"
begin

lemma steps_inv: "rtranclp step s s' \<Longrightarrow> inv s \<Longrightarrow> inv s'"
  by (induction rule: rtranclp_induct) (auto intro: step_law)

lemma reachable_inv: "init s \<Longrightarrow> rtranclp step s s' \<Longrightarrow> inv s'"
  by (rule steps_inv) (auto intro: init_law)

end

end
