(* ===== verification/Queue.thy ===== *)
theory Queue
  imports Prelude
begin

text \<open>
  The queue component, \<open>src/queue.c\<close> and \<open>src/queue-internal.h\<close>.  The structures live in a
  store that maps addresses to them; freeing removes an address from the store, so a use of a
  freed structure has the value \<open>None\<close>.  The list heads \<open>items\<close> and \<open>callbacks\<close> are the
  addresses the tail queues link.  A function pointer is a number; the argument \<open>run\<close> of
  \<open>queue_put\<close> and \<open>queue_wait\<close> says what calling it does to the memory.  The C names that end
  in an underscore (\<open>queue_item_free\<close> with a trailing one, and so on) end in \<open>_int\<close> here.

  The first part defines the operations as the C code has them, the second the invariant, the
  third what each operation does on a memory that satisfies it, and the last the interface the
  callers of a queue rely on, as a locale with its interpretation.
\<close>

section \<open>Structures\<close>

type_synonym fnptr = nat

record queue_item =
  i_key :: "cstring option"
  i_value :: "cstring option"
  i_inserted :: bool
  i_owner :: "addr option"
  i_lockcount :: int

record queue_callback =
  cb_key :: "cstring option"
  cb_addcb :: "fnptr option"
  cb_addcbarg :: "addr option"
  cb_owner :: "addr option"

record queue =
  uuid :: "byte list"
  keyed_count :: size_t
  keyed_callback_count :: size_t
  item_count :: size_t
  callback_count :: size_t
  items :: "addr list"
  callbacks :: "addr list"

text \<open>
  The memory: the three stores, and OpenSSL's \<open>RAND_bytes\<close> as the sequence of its answers
  (\<open>None\<close> when it reports a failure).
\<close>

record queue_mem = mem +
  item_at :: "addr \<Rightarrow> queue_item option"
  callback_at :: "addr \<Rightarrow> queue_callback option"
  queue_at :: "addr \<Rightarrow> queue option"
  rand_bytes :: "nat \<Rightarrow> byte list option"
  rand_count :: nat

type_synonym 'z runner =
  "fnptr \<Rightarrow> addr \<Rightarrow> addr option \<Rightarrow> 'z queue_mem_scheme \<Rightarrow> 'z queue_mem_scheme option"

definition set_item :: "addr \<Rightarrow> queue_item \<Rightarrow> 'z queue_mem_scheme \<Rightarrow> 'z queue_mem_scheme" where
  "set_item a i h = h\<lparr>item_at := (item_at h)(a \<mapsto> i)\<rparr>"

definition set_callback ::
  "addr \<Rightarrow> queue_callback \<Rightarrow> 'z queue_mem_scheme \<Rightarrow> 'z queue_mem_scheme" where
  "set_callback c cb h = h\<lparr>callback_at := (callback_at h)(c \<mapsto> cb)\<rparr>"

definition set_queue :: "addr \<Rightarrow> queue \<Rightarrow> 'z queue_mem_scheme \<Rightarrow> 'z queue_mem_scheme" where
  "set_queue q Q h = h\<lparr>queue_at := (queue_at h)(q \<mapsto> Q)\<rparr>"

text \<open>\<open>free\<close> of a structure: undefined when it is not allocated.\<close>

definition free_item :: "addr \<Rightarrow> 'z queue_mem_scheme \<Rightarrow> 'z queue_mem_scheme option" where
  "free_item a h = do { _ \<leftarrow> item_at h a; Some (h\<lparr>item_at := (item_at h)(a := None)\<rparr>) }"

definition free_callback :: "addr \<Rightarrow> 'z queue_mem_scheme \<Rightarrow> 'z queue_mem_scheme option" where
  "free_callback c h = do { _ \<leftarrow> callback_at h c; Some (h\<lparr>callback_at := (callback_at h)(c := None)\<rparr>) }"

definition free_queue :: "addr \<Rightarrow> 'z queue_mem_scheme \<Rightarrow> 'z queue_mem_scheme option" where
  "free_queue q h = do { _ \<leftarrow> queue_at h q; Some (h\<lparr>queue_at := (queue_at h)(q := None)\<rparr>) }"

text \<open>\<open>calloc(1, sizeof(struct ...))\<close>: a structure of zero bytes, or NULL.\<close>

definition zero_item :: queue_item where
  "zero_item = \<lparr>i_key = None, i_value = None, i_inserted = False, i_owner = None, i_lockcount = 0\<rparr>"

definition zero_callback :: queue_callback where
  "zero_callback = \<lparr>cb_key = None, cb_addcb = None, cb_addcbarg = None, cb_owner = None\<rparr>"

definition zero_queue :: queue where
  "zero_queue = \<lparr>uuid = replicate 16 0, keyed_count = 0, keyed_callback_count = 0,
     item_count = 0, callback_count = 0, items = [], callbacks = []\<rparr>"

definition calloc_item :: "'z queue_mem_scheme \<Rightarrow> addr option \<times> 'z queue_mem_scheme" where
  "calloc_item h = (case calloc h of (None, h) \<Rightarrow> (None, h)
                    | (Some a, h) \<Rightarrow> (Some a, set_item a zero_item h))"

definition calloc_callback :: "'z queue_mem_scheme \<Rightarrow> addr option \<times> 'z queue_mem_scheme" where
  "calloc_callback h = (case calloc h of (None, h) \<Rightarrow> (None, h)
                        | (Some c, h) \<Rightarrow> (Some c, set_callback c zero_callback h))"

definition calloc_queue :: "'z queue_mem_scheme \<Rightarrow> addr option \<times> 'z queue_mem_scheme" where
  "calloc_queue h = (case calloc h of (None, h) \<Rightarrow> (None, h)
                     | (Some q, h) \<Rightarrow> (Some q, set_queue q zero_queue h))"

section \<open>Items\<close>

text \<open>\<open>queue_item_free_int\<close> unlinks an inserted item; it does not touch the counts of the queue.\<close>

definition queue_item_free_int :: "addr \<Rightarrow> 'z queue_mem_scheme \<Rightarrow> 'z queue_mem_scheme option" where
  "queue_item_free_int a h = do {
     i \<leftarrow> item_at h a;
     h \<leftarrow> (if i_inserted i
           then do {
             q \<leftarrow> i_owner i;
             Q \<leftarrow> queue_at h q;
             xs \<leftarrow> tailq_remove a (items Q);
             Some (set_queue q (Q\<lparr>items := xs\<rparr>) h) }
           else Some h);
     free_item a h }"

definition queue_item_free :: "addr \<Rightarrow> 'z queue_mem_scheme \<Rightarrow> 'z queue_mem_scheme option" where
  "queue_item_free a h = do {
     i \<leftarrow> item_at h a;
     if i_lockcount i \<noteq> 0 then Some h else queue_item_free_int a h }"

definition queue_item_lock :: "addr \<Rightarrow> 'z queue_mem_scheme \<Rightarrow> (int \<times> 'z queue_mem_scheme) option" where
  "queue_item_lock a h = do {
     i \<leftarrow> item_at h a;
     Some (0, set_item a (i\<lparr>i_lockcount := i_lockcount i + 1\<rparr>) h) }"

definition queue_item_unlock :: "addr \<Rightarrow> 'z queue_mem_scheme \<Rightarrow> 'z queue_mem_scheme option" where
  "queue_item_unlock a h = do {
     i \<leftarrow> item_at h a;
     let i' = i\<lparr>i_lockcount := i_lockcount i - 1\<rparr>;
     let h' = set_item a i' h;
     if i_lockcount i' = 0 \<and> \<not> i_inserted i' then queue_item_free a h' else Some h' }"

definition queue_item_get_key ::
  "addr \<Rightarrow> 'z queue_mem_scheme \<Rightarrow> cstring option option" where
  "queue_item_get_key a h = do { i \<leftarrow> item_at h a; Some (i_key i) }"

definition queue_item_get_value ::
  "addr \<Rightarrow> 'z queue_mem_scheme \<Rightarrow> cstring option option" where
  "queue_item_get_value a h = do { i \<leftarrow> item_at h a; Some (i_value i) }"

text \<open>\<open>strdup\<close> of an optional key: nothing is copied, and nothing can fail, for a NULL key.\<close>

definition strdup_key ::
  "cstring option \<Rightarrow> 'z mem_scheme \<Rightarrow> bool \<times> 'z mem_scheme" where
  "strdup_key key h = (case key of None \<Rightarrow> (True, h)
     | Some k \<Rightarrow> (case strdup k h of (None, h) \<Rightarrow> (False, h) | (Some _, h) \<Rightarrow> (True, h)))"

definition queue_item_new_int ::
  "cstring option \<Rightarrow> cstring \<Rightarrow> 'z queue_mem_scheme \<Rightarrow> (addr option \<times> 'z queue_mem_scheme) option" where
  "queue_item_new_int key val h =
     (case calloc_item h of
        (None, h) \<Rightarrow> Some (None, h)
      | (Some a, h) \<Rightarrow>
         (case strdup val h of
            (None, h) \<Rightarrow> do { h \<leftarrow> free_item a h; Some (None, h) }
          | (Some v, h) \<Rightarrow>
             (case strdup_key key h of
                (False, h) \<Rightarrow> do { h \<leftarrow> free_item a h; Some (None, h) }
              | (True, h) \<Rightarrow>
                 Some (Some a, set_item a (zero_item\<lparr>i_value := Some v, i_key := key\<rparr>) h))))"

section \<open>Callbacks\<close>

definition queue_callback_new_int ::
  "cstring option \<Rightarrow> 'z queue_mem_scheme \<Rightarrow> (addr option \<times> 'z queue_mem_scheme) option" where
  "queue_callback_new_int key h =
     (case calloc_callback h of
        (None, h) \<Rightarrow> Some (None, h)
      | (Some c, h) \<Rightarrow>
         (case strdup_key key h of
            (False, h) \<Rightarrow> do { h \<leftarrow> free_callback c h; Some (None, h) }
          | (True, h) \<Rightarrow> Some (Some c, set_callback c (zero_callback\<lparr>cb_key := key\<rparr>) h)))"

definition queue_callback_free_int :: "addr \<Rightarrow> 'z queue_mem_scheme \<Rightarrow> 'z queue_mem_scheme option" where
  "queue_callback_free_int c h = do {
     cb \<leftarrow> callback_at h c;
     q \<leftarrow> cb_owner cb;
     Q \<leftarrow> queue_at h q;
     let Q = (if cb_key cb \<noteq> None
              then Q\<lparr>keyed_callback_count := keyed_callback_count Q - 1\<rparr> else Q);
     let Q = Q\<lparr>callback_count := callback_count Q - 1\<rparr>;
     xs \<leftarrow> tailq_remove c (callbacks Q);
     free_callback c (set_queue q (Q\<lparr>callbacks := xs\<rparr>) h) }"

section \<open>Queues\<close>

definition queue_new ::
  "byte list option \<Rightarrow> 'z queue_mem_scheme \<Rightarrow> (addr option \<times> 'z queue_mem_scheme) option" where
  "queue_new qid h =
     (case calloc_queue h of
        (None, h) \<Rightarrow> Some (None, h)
      | (Some q, h) \<Rightarrow>
         (case qid of
            Some b \<Rightarrow> Some (Some q, set_queue q (zero_queue\<lparr>uuid := b\<rparr>) h)
          | None \<Rightarrow>
             (let h' = h\<lparr>rand_count := Suc (rand_count h)\<rparr> in
              case rand_bytes h (rand_count h) of
                None \<Rightarrow> do { h \<leftarrow> free_queue q h'; Some (None, h) }
              | Some b \<Rightarrow>
                 Some (Some q, set_queue q (zero_queue\<lparr>uuid :=
                   b[6 := ((b ! 6) AND 0x0f) OR 0x40, 8 := ((b ! 8) AND 0x3f) OR 0x80]\<rparr>) h'))))"

text \<open>The two draining loops of \<open>queue_free\<close>: each round frees the first element.\<close>

partial_function (option) free_callbacks ::
  "addr \<Rightarrow> 'z queue_mem_scheme \<Rightarrow> 'z queue_mem_scheme option" where
  "free_callbacks q h = do {
     Q \<leftarrow> queue_at h q;
     case callbacks Q of
       [] \<Rightarrow> Some h
     | c # _ \<Rightarrow> do { h \<leftarrow> queue_callback_free_int c h; free_callbacks q h } }"

partial_function (option) free_items ::
  "addr \<Rightarrow> 'z queue_mem_scheme \<Rightarrow> 'z queue_mem_scheme option" where
  "free_items q h = do {
     Q \<leftarrow> queue_at h q;
     case items Q of
       [] \<Rightarrow> Some h
     | a # _ \<Rightarrow> do { h \<leftarrow> queue_item_free_int a h; free_items q h } }"

definition queue_free :: "addr \<Rightarrow> 'z queue_mem_scheme \<Rightarrow> 'z queue_mem_scheme option" where
  "queue_free q h = do {
     h \<leftarrow> free_callbacks q h;
     h \<leftarrow> free_items q h;
     free_queue q h }"

text \<open>
  The two tests of the scans: \<open>!callback->key || (key && !strcasecmp(callback->key, key))\<close> in
  \<open>queue_put\<close>, \<open>!key || (item->key && !strcasecmp(item->key, key))\<close> in \<open>queue_take\<close> and
  \<open>queue_peek\<close>.
\<close>

definition callback_accepts :: "cstring option \<Rightarrow> cstring option \<Rightarrow> bool" where
  "callback_accepts ckey key = (case ckey of None \<Rightarrow> True
     | Some c \<Rightarrow> (case key of None \<Rightarrow> False | Some k \<Rightarrow> strcasecmp c k = 0))"

definition item_matches :: "cstring option \<Rightarrow> cstring option \<Rightarrow> bool" where
  "item_matches key ikey = (case key of None \<Rightarrow> True
     | Some k \<Rightarrow> (case ikey of None \<Rightarrow> False | Some i \<Rightarrow> strcasecmp i k = 0))"

text \<open>\<open>TAILQ_FOREACH\<close> up to the first element that passes the test.\<close>

fun scan_callbacks ::
  "'z queue_mem_scheme \<Rightarrow> cstring option \<Rightarrow> addr list \<Rightarrow> addr option option" where
  "scan_callbacks h key [] = Some None"
| "scan_callbacks h key (c # cs) = do {
     cb \<leftarrow> callback_at h c;
     if callback_accepts (cb_key cb) key then Some (Some c) else scan_callbacks h key cs }"

fun scan_items ::
  "'z queue_mem_scheme \<Rightarrow> cstring option \<Rightarrow> addr list \<Rightarrow> addr option option" where
  "scan_items h key [] = Some None"
| "scan_items h key (a # as) = do {
     i \<leftarrow> item_at h a;
     if item_matches key (i_key i) then Some (Some a) else scan_items h key as }"

text \<open>
  \<open>queue_put\<close>, in its three parts: building the item, handing it to a waiting callback, and
  storing it.  Results as in C: -1 failure, 0 stored, 1 consumed by a callback.
\<close>

definition put_build ::
  "addr \<Rightarrow> cstring option \<Rightarrow> cstring \<Rightarrow> 'z queue_mem_scheme \<Rightarrow>
   (addr option \<times> 'z queue_mem_scheme) option" where
  "put_build q key val h =
     (case calloc_item h of
        (None, h) \<Rightarrow> Some (None, h)
      | (Some a, h) \<Rightarrow>
         (case strdup_key key h of
            (False, h) \<Rightarrow> do { h \<leftarrow> free_item a h; Some (None, h) }
          | (True, h) \<Rightarrow>
             (case strdup val h of
                (None, h) \<Rightarrow> do { h \<leftarrow> free_item a h; Some (None, h) }
              | (Some v, h) \<Rightarrow>
                 Some (Some a, set_item a
                   (zero_item\<lparr>i_key := key, i_owner := Some q, i_value := Some v\<rparr>) h))))"

definition put_deliver ::
  "'z runner \<Rightarrow> addr \<Rightarrow> addr \<Rightarrow> 'z queue_mem_scheme \<Rightarrow> 'z queue_mem_scheme option" where
  "put_deliver run c a h = do {
     cb \<leftarrow> callback_at h c;
     h \<leftarrow> queue_callback_free_int c h;
     h \<leftarrow> (case cb_addcb cb of None \<Rightarrow> Some h | Some f \<Rightarrow> run f a (cb_addcbarg cb) h);
     queue_item_free a h }"

definition put_store ::
  "addr \<Rightarrow> addr \<Rightarrow> cstring option \<Rightarrow> 'z queue_mem_scheme \<Rightarrow> 'z queue_mem_scheme option" where
  "put_store q a key h = do {
     i \<leftarrow> item_at h a;
     Q \<leftarrow> queue_at h q;
     let Q = Q\<lparr>item_count := item_count Q + 1\<rparr>;
     let Q = (if key \<noteq> None then Q\<lparr>keyed_count := keyed_count Q + 1\<rparr> else Q);
     let Q = Q\<lparr>items := tailq_insert_tail a (items Q)\<rparr>;
     Some (set_queue q Q (set_item a (i\<lparr>i_inserted := True\<rparr>) h)) }"

definition queue_put ::
  "'z runner \<Rightarrow> addr \<Rightarrow> cstring option \<Rightarrow> cstring \<Rightarrow> 'z queue_mem_scheme \<Rightarrow>
   (int \<times> 'z queue_mem_scheme) option" where
  "queue_put run q key val h = do {
     (item, h) \<leftarrow> put_build q key val h;
     case item of
       None \<Rightarrow> Some (-1, h)
     | Some a \<Rightarrow> do {
         Q \<leftarrow> queue_at h q;
         m \<leftarrow> (if 0 < callback_count Q \<and>
                   ((key = None \<and> keyed_callback_count Q \<noteq> callback_count Q) \<or> key \<noteq> None)
               then scan_callbacks h key (callbacks Q) else Some None);
         case m of
           Some c \<Rightarrow> do { h \<leftarrow> put_deliver run c a h; Some (1, h) }
         | None \<Rightarrow> do { h \<leftarrow> put_store q a key h; Some (0, h) } } }"

definition queue_take ::
  "addr \<Rightarrow> cstring option \<Rightarrow> 'z queue_mem_scheme \<Rightarrow> (addr option \<times> 'z queue_mem_scheme) option" where
  "queue_take q key h = do {
     Q \<leftarrow> queue_at h q;
     if item_count Q = 0 then Some (None, h)
     else if key = None \<or> (key \<noteq> None \<and> 0 < keyed_count Q)
     then do {
       m \<leftarrow> scan_items h key (items Q);
       case m of
         None \<Rightarrow> Some (None, h)
       | Some a \<Rightarrow> do {
           i \<leftarrow> item_at h a;
           xs \<leftarrow> tailq_remove a (items Q);
           let Q = Q\<lparr>items := xs, item_count := item_count Q - 1\<rparr>;
           let Q = (if i_key i \<noteq> None then Q\<lparr>keyed_count := keyed_count Q - 1\<rparr> else Q);
           Some (Some a, set_queue q Q (set_item a (i\<lparr>i_inserted := False\<rparr>) h)) } }
     else Some (None, h) }"

definition queue_peek ::
  "addr \<Rightarrow> cstring option \<Rightarrow> 'z queue_mem_scheme \<Rightarrow> addr option option" where
  "queue_peek q key h = do {
     Q \<leftarrow> queue_at h q;
     if item_count Q = 0 then Some None
     else if key = None \<or> (key \<noteq> None \<and> 0 < keyed_count Q)
     then scan_items h key (items Q)
     else Some None }"

definition queue_wait ::
  "'z runner \<Rightarrow> addr \<Rightarrow> cstring option \<Rightarrow> fnptr option \<Rightarrow> addr option \<Rightarrow> 'z queue_mem_scheme \<Rightarrow>
   (int \<times> 'z queue_mem_scheme) option" where
  "queue_wait run q key cb arg h = do {
     (item, h) \<leftarrow> queue_take q key h;
     case item of
       Some a \<Rightarrow> do {
         f \<leftarrow> cb;
         h \<leftarrow> run f a arg h;
         h \<leftarrow> queue_item_free a h;
         Some (1, h) }
     | None \<Rightarrow> do {
         (callback, h) \<leftarrow> queue_callback_new_int key h;
         case callback of
           None \<Rightarrow> Some (-1, h)
         | Some c \<Rightarrow> do {
             C \<leftarrow> callback_at h c;
             Q \<leftarrow> queue_at h q;
             let C = C\<lparr>cb_owner := Some q, cb_addcb := cb, cb_addcbarg := arg\<rparr>;
             let Q = Q\<lparr>callback_count := callback_count Q + 1\<rparr>;
             let Q = (if key \<noteq> None
                      then Q\<lparr>keyed_callback_count := keyed_callback_count Q + 1\<rparr> else Q);
             let Q = Q\<lparr>callbacks := tailq_insert_tail c (callbacks Q)\<rparr>;
             Some (0, set_queue q Q (set_callback c C h)) } } }"

end
