(* ===== verification/Queue_Correct.thy ===== *)
theory Queue_Correct
  imports Queue
begin

text \<open>
  Correctness of the queue component: the invariant of the memory, what each operation of
  \<open>src/queue.c\<close> does on a memory that satisfies it, and the refinement of the queue with waiting
  callbacks to a pair of lists.
\<close>

section \<open>Selectors of an updated memory\<close>

lemma set_item_simps [simp]:
  "item_at (set_item a i h) = (item_at h)(a \<mapsto> i)"
  "callback_at (set_item a i h) = callback_at h"
  "queue_at (set_item a i h) = queue_at h"
  "next_addr (set_item a i h) = next_addr h"
  "alloc_ok (set_item a i h) = alloc_ok h"
  "alloc_count (set_item a i h) = alloc_count h"
  "rand_bytes (set_item a i h) = rand_bytes h"
  by (simp_all add: set_item_def)

lemma set_callback_simps [simp]:
  "item_at (set_callback c cb h) = item_at h"
  "callback_at (set_callback c cb h) = (callback_at h)(c \<mapsto> cb)"
  "queue_at (set_callback c cb h) = queue_at h"
  "next_addr (set_callback c cb h) = next_addr h"
  "alloc_ok (set_callback c cb h) = alloc_ok h"
  "alloc_count (set_callback c cb h) = alloc_count h"
  "rand_bytes (set_callback c cb h) = rand_bytes h"
  by (simp_all add: set_callback_def)

lemma set_queue_simps [simp]:
  "item_at (set_queue q Q h) = item_at h"
  "callback_at (set_queue q Q h) = callback_at h"
  "queue_at (set_queue q Q h) = (queue_at h)(q \<mapsto> Q)"
  "next_addr (set_queue q Q h) = next_addr h"
  "alloc_ok (set_queue q Q h) = alloc_ok h"
  "alloc_count (set_queue q Q h) = alloc_count h"
  "rand_bytes (set_queue q Q h) = rand_bytes h"
  by (simp_all add: set_queue_def)

text \<open>A key wanted and a key offered: the tests of \<open>queue_put\<close> and \<open>queue_take\<close> agree.\<close>

lemma callback_accepts_eq: "callback_accepts w k = item_matches w k"
  by (simp add: callback_accepts_def item_matches_def strcasecmp_commute split: option.splits)

section \<open>The invariant\<close>

definition item_key :: "'z queue_mem_scheme \<Rightarrow> addr \<Rightarrow> cstring option" where
  "item_key h a = (case item_at h a of None \<Rightarrow> None | Some i \<Rightarrow> i_key i)"

definition callback_key :: "'z queue_mem_scheme \<Rightarrow> addr \<Rightarrow> cstring option" where
  "callback_key h c = (case callback_at h c of None \<Rightarrow> None | Some cb \<Rightarrow> cb_key cb)"

definition item_linked :: "'z queue_mem_scheme \<Rightarrow> addr \<Rightarrow> addr \<Rightarrow> bool" where
  "item_linked h q a = (case item_at h a of None \<Rightarrow> False
     | Some i \<Rightarrow> i_inserted i \<and> i_owner i = Some q \<and> i_value i \<noteq> None)"

definition callback_linked :: "'z queue_mem_scheme \<Rightarrow> addr \<Rightarrow> addr \<Rightarrow> bool" where
  "callback_linked h q c = (case callback_at h c of None \<Rightarrow> False
     | Some cb \<Rightarrow> cb_owner cb = Some q \<and> cb_addcb cb \<noteq> None)"

text \<open>
  A queue is in order: its lists link live structures that point back at it, its four counts
  are the lengths they cache, and no stored item would satisfy a waiting callback.
\<close>

definition counts_ok :: "'z queue_mem_scheme \<Rightarrow> queue \<Rightarrow> bool" where
  "counts_ok h Q \<longleftrightarrow>
     item_count Q = of_nat (length (items Q)) \<and>
     keyed_count Q = of_nat (length (filter (\<lambda>a. item_key h a \<noteq> None) (items Q))) \<and>
     callback_count Q = of_nat (length (callbacks Q)) \<and>
     keyed_callback_count Q = of_nat (length (filter (\<lambda>c. callback_key h c \<noteq> None) (callbacks Q)))"

definition quiescent :: "'z queue_mem_scheme \<Rightarrow> queue \<Rightarrow> bool" where
  "quiescent h Q \<longleftrightarrow> (\<forall>c \<in> set (callbacks Q). \<forall>a \<in> set (items Q).
     \<not> callback_accepts (callback_key h c) (item_key h a))"

definition queue_ok :: "'z queue_mem_scheme \<Rightarrow> addr \<Rightarrow> queue \<Rightarrow> bool" where
  "queue_ok h q Q \<longleftrightarrow>
     length (uuid Q) = 16 \<and> distinct (items Q) \<and> distinct (callbacks Q) \<and>
     (\<forall>a \<in> set (items Q). item_linked h q a) \<and>
     (\<forall>c \<in> set (callbacks Q). callback_linked h q c) \<and>
     counts_ok h Q \<and> quiescent h Q"

definition bounded :: "'z queue_mem_scheme \<Rightarrow> bool" where
  "bounded h \<longleftrightarrow> 0 < next_addr h \<and> next_addr h \<le> alloc_limit \<and>
     (\<forall>a \<in> dom (item_at h). 0 < a \<and> a < next_addr h) \<and>
     (\<forall>c \<in> dom (callback_at h). 0 < c \<and> c < next_addr h) \<and>
     (\<forall>q \<in> dom (queue_at h). 0 < q \<and> q < next_addr h)"

definition heap_inv :: "'z queue_mem_scheme \<Rightarrow> bool" where
  "heap_inv h \<longleftrightarrow> bounded h \<and> (\<forall>q Q. queue_at h q = Some Q \<longrightarrow> queue_ok h q Q)"

definition rand_ok :: "'z queue_mem_scheme \<Rightarrow> bool" where
  "rand_ok h \<longleftrightarrow> (\<forall>n b. rand_bytes h n = Some b \<longrightarrow> length b = 16)"

lemma heap_inv_queue: "heap_inv h \<Longrightarrow> queue_at h q = Some Q \<Longrightarrow> queue_ok h q Q"
  by (simp add: heap_inv_def)

lemma heap_inv_bounded: "heap_inv h \<Longrightarrow> bounded h"
  by (simp add: heap_inv_def)

lemma item_linked_owner: "item_linked h q a \<Longrightarrow> item_linked h q' a \<Longrightarrow> q = q'"
  by (auto simp: item_linked_def split: option.splits)

lemma callback_linked_owner: "callback_linked h q c \<Longrightarrow> callback_linked h q' c \<Longrightarrow> q = q'"
  by (auto simp: callback_linked_def split: option.splits)

text \<open>The lists of a queue in order are shorter than the address space, so no count wraps.\<close>

lemma linked_length:
  assumes "bounded h" and "distinct xs" and "\<forall>a \<in> set xs. item_linked h q a"
  shows "length xs < alloc_limit"
proof -
  from assms(3) have "\<forall>a \<in> set xs. a \<in> dom (item_at h)"
    by (auto simp: item_linked_def split: option.splits)
  with assms(1) have b: "\<forall>a \<in> set xs. 0 < a \<and> a < next_addr h" by (auto simp: bounded_def)
  from distinct_bounded_length [OF assms(2) b] assms(1) show ?thesis
    by (auto simp: bounded_def)
qed

lemma waiting_length:
  assumes "bounded h" and "distinct cs" and "\<forall>c \<in> set cs. callback_linked h q c"
  shows "length cs < alloc_limit"
proof -
  from assms(3) have "\<forall>c \<in> set cs. c \<in> dom (callback_at h)"
    by (auto simp: callback_linked_def split: option.splits)
  with assms(1) have b: "\<forall>c \<in> set cs. 0 < c \<and> c < next_addr h" by (auto simp: bounded_def)
  from distinct_bounded_length [OF assms(2) b] assms(1) show ?thesis
    by (auto simp: bounded_def)
qed

text \<open>A queue stays in order when the structures it links are unchanged.\<close>

lemma queue_ok_cong:
  assumes "queue_ok h q Q"
    and "\<And>a. a \<in> set (items Q) \<Longrightarrow> item_at h' a = item_at h a"
    and "\<And>c. c \<in> set (callbacks Q) \<Longrightarrow> callback_at h' c = callback_at h c"
  shows "queue_ok h' q Q"
proof -
  have ik: "item_key h' a = item_key h a" if "a \<in> set (items Q)" for a
    using assms(2) [OF that] by (simp add: item_key_def)
  have ck: "callback_key h' c = callback_key h c" if "c \<in> set (callbacks Q)" for c
    using assms(3) [OF that] by (simp add: callback_key_def)
  have fi: "filter (\<lambda>a. item_key h' a \<noteq> None) (items Q) = filter (\<lambda>a. item_key h a \<noteq> None) (items Q)"
    by (rule filter_cong) (simp_all add: ik)
  have fc: "filter (\<lambda>c. callback_key h' c \<noteq> None) (callbacks Q) =
            filter (\<lambda>c. callback_key h c \<noteq> None) (callbacks Q)"
    by (rule filter_cong) (simp_all add: ck)
  show ?thesis
    using assms(1) unfolding queue_ok_def counts_ok_def quiescent_def fi fc
    by (auto simp: ik ck assms(2,3) item_linked_def callback_linked_def)
qed

text \<open>
  Changing one queue, one item and one callback keeps the other queues in order when the item
  and the callback belong to none of them.
\<close>

lemma heap_inv_update:
  assumes inv: "heap_inv h" and b: "bounded h'"
    and q: "\<And>Q. queue_at h' q = Some Q \<Longrightarrow> queue_ok h' q Q"
    and other: "\<And>p. p \<noteq> q \<Longrightarrow> queue_at h' p = queue_at h p"
    and it: "\<And>a p. p \<noteq> q \<Longrightarrow> item_linked h p a \<Longrightarrow> item_at h' a = item_at h a"
    and cb: "\<And>c p. p \<noteq> q \<Longrightarrow> callback_linked h p c \<Longrightarrow> callback_at h' c = callback_at h c"
  shows "heap_inv h'"
  unfolding heap_inv_def
proof (intro conjI allI impI b)
  fix p P assume p: "queue_at h' p = Some P"
  show "queue_ok h' p P"
  proof (cases "p = q")
    case True with p q show ?thesis by simp
  next
    case False
    with p other have "queue_at h p = Some P" by simp
    with inv have ok: "queue_ok h p P" by (rule heap_inv_queue)
    from ok show ?thesis
    proof (rule queue_ok_cong)
      show "item_at h' a = item_at h a" if "a \<in> set (items P)" for a
        using ok that it [OF False] by (simp add: queue_ok_def)
      show "callback_at h' c = callback_at h c" if "c \<in> set (callbacks P)" for c
        using ok that cb [OF False] by (simp add: queue_ok_def)
    qed
  qed
qed

section \<open>The scans find the first match\<close>

lemma find_split:
  "List.find P xs = Some a \<Longrightarrow> \<exists>ys zs. xs = ys @ a # zs \<and> P a \<and> (\<forall>y \<in> set ys. \<not> P y)"
proof (induction xs)
  case (Cons x xs)
  show ?case
  proof (cases "P x")
    case True with Cons.prems show ?thesis by (intro exI [of _ "[]"] exI [of _ xs]) auto
  next
    case False
    with Cons obtain ys zs where "xs = ys @ a # zs" "P a" "\<forall>y \<in> set ys. \<not> P y" by auto
    with False show ?thesis by (intro exI [of _ "x # ys"] exI [of _ zs]) auto
  qed
qed simp

lemma scan_items_find:
  "\<forall>a \<in> set as. item_at h a \<noteq> None \<Longrightarrow>
   scan_items h key as = Some (List.find (\<lambda>a. item_matches key (item_key h a)) as)"
  by (induction as) (auto simp: item_key_def split: option.splits)

lemma scan_callbacks_find:
  "\<forall>c \<in> set cs. callback_at h c \<noteq> None \<Longrightarrow>
   scan_callbacks h key cs = Some (List.find (\<lambda>c. callback_accepts (callback_key h c) key) cs)"
  by (induction cs) (auto simp: callback_key_def split: option.splits)

section \<open>Contents\<close>

type_synonym entry = "cstring option \<times> cstring option"
type_synonym waiter = "cstring option \<times> fnptr option \<times> addr option"

definition entry_of :: "'z queue_mem_scheme \<Rightarrow> addr \<Rightarrow> entry" where
  "entry_of h a = (case item_at h a of None \<Rightarrow> (None, None) | Some i \<Rightarrow> (i_key i, i_value i))"

definition waiter_of :: "'z queue_mem_scheme \<Rightarrow> addr \<Rightarrow> waiter" where
  "waiter_of h c = (case callback_at h c of None \<Rightarrow> (None, None, None)
     | Some cb \<Rightarrow> (cb_key cb, cb_addcb cb, cb_addcbarg cb))"

definition content :: "'z queue_mem_scheme \<Rightarrow> addr \<Rightarrow> entry list" where
  "content h q = (case queue_at h q of None \<Rightarrow> [] | Some Q \<Rightarrow> map (entry_of h) (items Q))"

definition waiters :: "'z queue_mem_scheme \<Rightarrow> addr \<Rightarrow> waiter list" where
  "waiters h q = (case queue_at h q of None \<Rightarrow> [] | Some Q \<Rightarrow> map (waiter_of h) (callbacks Q))"

lemma fst_entry_of [simp]: "fst (entry_of h a) = item_key h a"
  by (simp add: entry_of_def item_key_def split: option.splits)

lemma fst_waiter_of [simp]: "fst (waiter_of h c) = callback_key h c"
  by (simp add: waiter_of_def callback_key_def split: option.splits)

text \<open>The specification: remove the first element that passes a test.\<close>

fun pick :: "('a \<Rightarrow> bool) \<Rightarrow> 'a list \<Rightarrow> ('a \<times> 'a list) option" where
  "pick P [] = None"
| "pick P (x # xs) = (if P x then Some (x, xs)
     else (case pick P xs of None \<Rightarrow> None | Some (y, ys) \<Rightarrow> Some (y, x # ys)))"

lemma pick_split: "\<forall>x \<in> set xs. \<not> P x \<Longrightarrow> P a \<Longrightarrow> pick P (xs @ a # ys) = Some (a, xs @ ys)"
  by (induction xs) auto

lemma pick_None: "pick P xs = None \<longleftrightarrow> (\<forall>x \<in> set xs. \<not> P x)"
  by (induction xs) (auto split: option.splits)

lemma pick_map: "pick P (map f xs) = map_option (\<lambda>(x, ys). (f x, map f ys)) (pick (\<lambda>x. P (f x)) xs)"
  by (induction xs) (auto split: option.splits)

section \<open>Taking an item\<close>

definition taken :: "addr \<Rightarrow> queue \<Rightarrow> addr \<Rightarrow> queue_item \<Rightarrow> 'z queue_mem_scheme \<Rightarrow> 'z queue_mem_scheme" where
  "taken q Q a i h = set_queue q
     (Q\<lparr>items := remove1 a (items Q), item_count := item_count Q - 1,
        keyed_count := keyed_count Q - (if i_key i = None then 0 else 1)\<rparr>)
     (set_item a (i\<lparr>i_inserted := False\<rparr>) h)"

lemma no_item_matches:
  assumes "heap_inv h" and "queue_at h q = Some Q"
    and "item_count Q = 0 \<or> (key \<noteq> None \<and> keyed_count Q = 0)"
    and "a \<in> set (items Q)"
  shows "\<not> item_matches key (item_key h a)"
proof -
  from assms(1,2) have ok: "queue_ok h q Q" by (rule heap_inv_queue)
  then have len: "length (items Q) < alloc_limit"
    using linked_length [of h "items Q" q] heap_inv_bounded [OF assms(1)]
    by (auto simp: queue_ok_def)
  let ?ks = "filter (\<lambda>a. item_key h a \<noteq> None) (items Q)"
  have "length ?ks < alloc_limit" using len length_filter_le le_less_trans by blast
  with ok len assms(3,4) have "key \<noteq> None" and "?ks = []"
    by (auto simp: queue_ok_def counts_ok_def of_nat_size_t_eq_0)
  with assms(4) show ?thesis
    by (auto simp: item_matches_def filter_empty_conv split: option.splits)
qed

lemma queue_take_cases:
  assumes inv: "heap_inv h" and Q: "queue_at h q = Some Q"
  obtains (none) "queue_take q key h = Some (None, h)" "queue_peek q key h = Some None"
      "\<forall>a \<in> set (items Q). \<not> item_matches key (item_key h a)"
    | (some) xs a ys i where "items Q = xs @ a # ys" "item_at h a = Some i"
      "item_matches key (i_key i)" "\<forall>x \<in> set xs. \<not> item_matches key (item_key h x)"
      "queue_take q key h = Some (Some a, taken q Q a i h)" "queue_peek q key h = Some (Some a)"
proof -
  from inv Q have ok: "queue_ok h q Q" by (rule heap_inv_queue)
  then have live: "\<forall>a \<in> set (items Q). item_at h a \<noteq> None"
    by (auto simp: queue_ok_def item_linked_def split: option.splits)
  note scan = scan_items_find [OF live, of key]
  show ?thesis
  proof (cases "List.find (\<lambda>a. item_matches key (item_key h a)) (items Q)")
    case None
    then have "\<forall>a \<in> set (items Q). \<not> item_matches key (item_key h a)"
      by (simp add: find_None_iff)
    moreover from None scan Q have "queue_take q key h = Some (None, h)" "queue_peek q key h = Some None"
      by (simp_all add: queue_take_def queue_peek_def)
    ultimately show thesis using none by blast
  next
    case (Some a)
    from find_split [OF this] obtain xs ys where it: "items Q = xs @ a # ys"
      and m: "item_matches key (item_key h a)" "\<forall>x \<in> set xs. \<not> item_matches key (item_key h x)"
      by blast
    from live it obtain i where i: "item_at h a = Some i" by auto
    have a: "a \<in> set (items Q)" by (simp add: it)
    from no_item_matches [OF inv Q _ a] m(1)
    have g: "item_count Q \<noteq> 0" "key = None \<or> keyed_count Q \<noteq> 0" by blast+
    from g scan Q i a Some have "queue_take q key h = Some (Some a, taken q Q a i h)"
      and "queue_peek q key h = Some (Some a)"
      by (auto simp: queue_take_def queue_peek_def taken_def word_greater_zero_iff)
    with it i m show thesis using some by (simp add: item_key_def)
  qed
qed

lemma taken_inv:
  assumes inv: "heap_inv h" and Q: "queue_at h q = Some Q" and i: "item_at h a = Some i"
    and a: "a \<in> set (items Q)"
  shows "heap_inv (taken q Q a i h)"
proof (rule heap_inv_update [OF inv, of _ q])
  let ?h = "taken q Q a i h"
  note ok = heap_inv_queue [OF inv Q]
  have link: "item_linked h q a" using ok a by (simp add: queue_ok_def)
  have keys: "item_key ?h = item_key h"
    using i by (auto simp: fun_eq_iff item_key_def taken_def)
  have ckeys: "callback_key ?h = callback_key h"
    by (auto simp: fun_eq_iff callback_key_def taken_def)
  have at: "item_at ?h = (item_at h)(a \<mapsto> i\<lparr>i_inserted := False\<rparr>)" by (simp add: taken_def)
  show "bounded ?h"
    using heap_inv_bounded [OF inv] i Q by (auto simp: bounded_def taken_def dom_def split: if_splits)
  show "queue_ok ?h q P" if P: "queue_at ?h q = Some P" for P
  proof -
    have key: "item_key h a = i_key i" using i by (simp add: item_key_def)
    from a obtain xs ys where it: "items Q = xs @ a # ys" by (auto simp: in_set_conv_decomp)
    from ok it have an: "a \<notin> set xs" "a \<notin> set ys" by (auto simp: queue_ok_def)
    then have r: "remove1 a (items Q) = xs @ ys" by (simp add: it remove1_append)
    from P r have P': "P = Q\<lparr>items := xs @ ys, item_count := item_count Q - 1,
        keyed_count := keyed_count Q - (if i_key i = None then 0 else 1)\<rparr>"
      by (simp add: taken_def)
    show ?thesis
      using ok an it P' key unfolding queue_ok_def counts_ok_def quiescent_def keys ckeys
      by (auto simp: item_linked_def callback_linked_def at taken_def)
  qed
  show "item_at ?h x = item_at h x" if "p \<noteq> q" "item_linked h p x" for x p
    using that link item_linked_owner [of h p x q] by (auto simp: at)
qed (auto simp: taken_def)

lemma entry_of_taken [simp]:
  "item_at h a = Some i \<Longrightarrow> entry_of (taken q Q a i h) = entry_of h"
  by (auto simp: fun_eq_iff entry_of_def taken_def)

lemma waiter_of_taken [simp]: "waiter_of (taken q Q a i h) = waiter_of h"
  by (simp add: fun_eq_iff waiter_of_def taken_def)

lemma taken_simps [simp]:
  "item_at (taken q Q a i h) = (item_at h)(a \<mapsto> i\<lparr>i_inserted := False\<rparr>)"
  "callback_at (taken q Q a i h) = callback_at h"
  "queue_at (taken q Q a i h) = (queue_at h)(q \<mapsto>
     Q\<lparr>items := remove1 a (items Q), item_count := item_count Q - 1,
       keyed_count := keyed_count Q - (if i_key i = None then 0 else 1)\<rparr>)"
  "next_addr (taken q Q a i h) = next_addr h"
  "alloc_ok (taken q Q a i h) = alloc_ok h"
  "rand_bytes (taken q Q a i h) = rand_bytes h"
  by (simp_all add: taken_def)

text \<open>A frame: two memories in which a queue holds the same entries and the same waiters.\<close>

definition same_view :: "addr \<Rightarrow> 'z queue_mem_scheme \<Rightarrow> 'z queue_mem_scheme \<Rightarrow> bool" where
  "same_view q h h' \<longleftrightarrow> content h' q = content h q \<and> waiters h' q = waiters h q"

lemma same_viewI:
  assumes "heap_inv h" and "queue_at h' q = queue_at h q"
    and "\<And>a. item_linked h q a \<Longrightarrow> item_at h' a = item_at h a"
    and "\<And>c. callback_linked h q c \<Longrightarrow> callback_at h' c = callback_at h c"
  shows "same_view q h h'"
proof (cases "queue_at h q")
  case None with assms(2) show ?thesis by (simp add: same_view_def content_def waiters_def)
next
  case (Some Q)
  with assms(1) have "queue_ok h q Q" by (rule heap_inv_queue)
  with Some assms(2-4) show ?thesis
    by (auto simp: same_view_def content_def waiters_def queue_ok_def entry_of_def waiter_of_def)
qed

lemma same_view_refl [simp]: "same_view q h h"
  by (simp add: same_view_def)

lemma same_view_trans: "same_view q h h' \<Longrightarrow> same_view q h' h'' \<Longrightarrow> same_view q h h''"
  by (simp add: same_view_def)

text \<open>An item in the hands of a caller: allocated, not linked, not locked.\<close>

definition loose :: "'z queue_mem_scheme \<Rightarrow> addr \<Rightarrow> bool" where
  "loose h a \<longleftrightarrow> (case item_at h a of None \<Rightarrow> False
     | Some i \<Rightarrow> \<not> i_inserted i \<and> i_lockcount i = 0 \<and> i_value i \<noteq> None)"

lemma loose_not_linked: "loose h a \<Longrightarrow> \<not> item_linked h q a"
  by (auto simp: loose_def item_linked_def split: option.splits)

definition drop_item :: "addr \<Rightarrow> 'z queue_mem_scheme \<Rightarrow> 'z queue_mem_scheme" where
  "drop_item a h = h\<lparr>item_at := (item_at h)(a := None)\<rparr>"

lemma drop_item_simps [simp]:
  "item_at (drop_item a h) = (item_at h)(a := None)"
  "callback_at (drop_item a h) = callback_at h"
  "queue_at (drop_item a h) = queue_at h"
  "next_addr (drop_item a h) = next_addr h"
  "alloc_ok (drop_item a h) = alloc_ok h"
  "rand_bytes (drop_item a h) = rand_bytes h"
  by (simp_all add: drop_item_def)

lemma queue_item_free_loose:
  "loose h a \<Longrightarrow> queue_item_free a h = Some (drop_item a h)"
  by (auto simp: loose_def queue_item_free_def queue_item_free_int_def free_item_def drop_item_def
           split: option.splits)

lemma drop_item_inv:
  assumes inv: "heap_inv h" and l: "loose h a"
  shows "heap_inv (drop_item a h)"
proof -
  have "queue_ok (drop_item a h) q Q" if Q: "queue_at h q = Some Q" for q Q
  proof (rule queue_ok_cong [OF heap_inv_queue [OF inv Q]])
    show "item_at (drop_item a h) x = item_at h x" if "x \<in> set (items Q)" for x
      using that heap_inv_queue [OF inv Q] loose_not_linked [OF l, of q]
      by (auto simp: queue_ok_def)
  qed simp
  with inv show ?thesis by (auto simp: heap_inv_def bounded_def dom_def)
qed

lemma drop_item_view: "heap_inv h \<Longrightarrow> loose h a \<Longrightarrow> same_view q h (drop_item a h)"
  by (rule same_viewI) (use loose_not_linked in auto)

lemma drop_item_twice: "queue_item_free a (drop_item a h) = None"
  by (simp add: queue_item_free_def)

lemma taken_loose:
  assumes "heap_inv h" "queue_at h q = Some Q" "item_at h a = Some i" "a \<in> set (items Q)"
    "i_lockcount i = 0"
  shows "loose (taken q Q a i h) a"
  using heap_inv_queue [OF assms(1,2)] assms(3-5)
  by (auto simp: loose_def taken_def queue_ok_def item_linked_def)

lemma taken_view:
  assumes inv: "heap_inv h" and Q: "queue_at h q = Some Q" and i: "item_at h a = Some i"
    and a: "a \<in> set (items Q)" and p: "p \<noteq> q"
  shows "same_view p h (taken q Q a i h)"
proof (rule same_viewI [OF inv])
  show "item_at (taken q Q a i h) x = item_at h x" if "item_linked h p x" for x
  proof -
    have "item_linked h q a" using heap_inv_queue [OF inv Q] a by (simp add: queue_ok_def)
    with that p item_linked_owner [of h p x q] show ?thesis by (auto simp: taken_def)
  qed
qed (use p in \<open>auto simp: taken_def\<close>)

lemma queue_take_refines_lemma:
  assumes inv: "heap_inv h" and Q: "queue_at h q = Some Q"
  shows "case pick (\<lambda>e. item_matches key (fst e)) (content h q) of
      None \<Rightarrow> queue_take q key h = Some (None, h)
    | Some (e, es) \<Rightarrow> \<exists>a i. a \<in> set (items Q) \<and> item_at h a = Some i \<and>
        queue_take q key h = Some (Some a, taken q Q a i h) \<and> entry_of h a = e \<and>
        content (taken q Q a i h) q = es \<and> waiters (taken q Q a i h) q = waiters h q"
  using inv Q
proof (cases rule: queue_take_cases [where key = key])
  case none
  then have "pick (\<lambda>e. item_matches key (fst e)) (content h q) = None"
    using Q by (simp add: pick_None content_def)
  with none show ?thesis by simp
next
  case (some xs a ys i)
  have key: "item_key h a = i_key i" using some by (simp add: item_key_def)
  have "distinct (items Q)" using heap_inv_queue [OF inv Q] by (simp add: queue_ok_def)
  with some(1) have r: "remove1 a (items Q) = xs @ ys" by (auto simp: remove1_append)
  have "pick (\<lambda>e. item_matches key (fst e)) (content h q) =
        Some (entry_of h a, map (entry_of h) xs @ map (entry_of h) ys)"
    using Q some key by (simp add: content_def pick_split)
  moreover have "content (taken q Q a i h) q = map (entry_of h) xs @ map (entry_of h) ys"
    using some(2) r by (simp add: content_def)
  moreover have "waiters (taken q Q a i h) q = waiters h q"
    using Q by (simp add: waiters_def)
  ultimately show ?thesis using some by auto
qed

section \<open>Allocation\<close>

text \<open>The same structures, up to the state of the allocator.\<close>

definition same_store :: "'z queue_mem_scheme \<Rightarrow> 'z queue_mem_scheme \<Rightarrow> bool" where
  "same_store h h' \<longleftrightarrow> item_at h' = item_at h \<and> callback_at h' = callback_at h \<and>
     queue_at h' = queue_at h \<and> rand_bytes h' = rand_bytes h \<and> alloc_ok h' = alloc_ok h \<and>
     queue_mem.more h' = queue_mem.more h \<and>
     next_addr h \<le> next_addr h' \<and> (next_addr h \<le> alloc_limit \<longrightarrow> next_addr h' \<le> alloc_limit)"

lemma same_store_refl [simp]: "same_store h h"
  by (simp add: same_store_def)

lemma same_store_view: "same_store h h' \<Longrightarrow> same_view q h h'"
  by (auto simp: same_store_def same_view_def content_def waiters_def entry_of_def waiter_of_def
           split: option.splits)

lemma same_store_inv: "heap_inv h \<Longrightarrow> same_store h h' \<Longrightarrow> heap_inv h'"
  unfolding heap_inv_def
proof (intro conjI allI impI; elim conjE)
  assume "bounded h" "same_store h h'"
  then show "bounded h'"
    by (auto simp: bounded_def same_store_def dom_def intro: less_le_trans)
next
  fix q Q
  assume *: "\<forall>q Q. queue_at h q = Some Q \<longrightarrow> queue_ok h q Q" "same_store h h'" "queue_at h' q = Some Q"
  then have "queue_ok h q Q" by (simp add: same_store_def)
  then show "queue_ok h' q Q" by (rule queue_ok_cong) (use *(2) in \<open>simp_all add: same_store_def\<close>)
qed

text \<open>Every request will be granted.\<close>

definition mem_available :: "'z mem_scheme \<Rightarrow> bool" where
  "mem_available h \<longleftrightarrow> (\<forall>n. alloc_ok h n) \<and> next_addr h < alloc_limit"

definition ticks :: "nat \<Rightarrow> nat \<Rightarrow> 'z mem_scheme \<Rightarrow> 'z mem_scheme" where
  "ticks m n h = h\<lparr>next_addr := next_addr h + m, alloc_count := alloc_count h + n\<rparr>"

lemma calloc_eq:
  "calloc h = (if alloc_ok h (alloc_count h) \<and> next_addr h < alloc_limit
               then (Some (next_addr h), ticks 1 1 h) else (None, ticks 0 1 h))"
  by (cases h) (simp add: calloc_def ticks_def Let_def)

lemma strdup_eq: "strdup s h = (if alloc_ok h (alloc_count h) then Some s else None, ticks 0 1 h)"
  by (cases h) (simp add: strdup_def ticks_def)

lemma ticks_simps [simp]:
  "next_addr (ticks m n h) = next_addr h + m" "alloc_ok (ticks m n h) = alloc_ok h"
  "alloc_count (ticks m n h) = alloc_count h + n"
  by (simp_all add: ticks_def)

lemma ticks_queue_simps [simp]:
  "item_at (ticks m n h) = item_at h" "callback_at (ticks m n h) = callback_at h"
  "queue_at (ticks m n h) = queue_at h" "rand_bytes (ticks m n h) = rand_bytes h"
  "queue_mem.more (ticks m n h) = queue_mem.more h"
  by (cases h, simp add: ticks_def)+

lemma more_simps [simp]:
  "queue_mem.more (set_item a i h) = queue_mem.more h"
  "queue_mem.more (set_callback c cb h) = queue_mem.more h"
  "queue_mem.more (set_queue q Q h) = queue_mem.more h"
  "queue_mem.more (drop_item a h) = queue_mem.more h"
  "queue_mem.more (taken q Q a i h) = queue_mem.more h"
  by (cases h, simp add: set_item_def set_callback_def set_queue_def drop_item_def taken_def)+

lemma ticks_0 [simp]: "ticks 0 0 h = h"
  by (simp add: ticks_def)

lemma ticks_ticks [simp]: "ticks m n (ticks i j h) = ticks (i + m) (j + n) h"
  by (simp add: ticks_def)

lemma ticks_set [simp]:
  "ticks m n (set_item a i h) = set_item a i (ticks m n h)"
  "ticks m n (set_callback c cb h) = set_callback c cb (ticks m n h)"
  "ticks m n (set_queue q Q h) = set_queue q Q (ticks m n h)"
  by (simp_all add: ticks_def set_item_def set_callback_def set_queue_def)

lemma set_set [simp]:
  "set_item a i (set_item a j h) = set_item a i h"
  "set_callback a c (set_callback a d h) = set_callback a c h"
  "set_queue a P (set_queue a Q h) = set_queue a P h"
  by (simp_all add: set_item_def set_callback_def set_queue_def)

lemma free_set_item: "item_at h a = None \<Longrightarrow> free_item a (set_item a i h) = Some h"
  by (cases h) (auto simp: free_item_def set_item_def fun_eq_iff)

lemma free_set_callback:
  "callback_at h c = None \<Longrightarrow> free_callback c (set_callback c cb h) = Some h"
  by (cases h) (auto simp: free_callback_def set_callback_def fun_eq_iff)

lemma free_set_queue: "queue_at h q = None \<Longrightarrow> free_queue q (set_queue q Q h) = Some h"
  by (cases h) (auto simp: free_queue_def set_queue_def fun_eq_iff)

definition key_ticks :: "cstring option \<Rightarrow> nat" where
  "key_ticks key = (if key = None then 0 else 1)"

lemma strdup_key_eq:
  "strdup_key key h = (key = None \<or> alloc_ok h (alloc_count h), ticks 0 (key_ticks key) h)"
  by (simp add: strdup_key_def strdup_eq key_ticks_def split: option.splits)

lemma fresh_item: "bounded h \<Longrightarrow> item_at h (next_addr h) = None"
  by (force simp: bounded_def)

lemma fresh_callback: "bounded h \<Longrightarrow> callback_at h (next_addr h) = None"
  by (force simp: bounded_def)

lemma fresh_queue: "bounded h \<Longrightarrow> queue_at h (next_addr h) = None"
  by (force simp: bounded_def)

text \<open>
  What building a structure leaves behind: nothing but the allocator's state on failure, one
  fresh address on success.
\<close>

definition new_item :: "addr \<Rightarrow> cstring option \<Rightarrow> cstring \<Rightarrow> queue_item" where
  "new_item q key val = \<lparr>i_key = key, i_value = Some val, i_inserted = False,
     i_owner = Some q, i_lockcount = 0\<rparr>"

lemma same_store_ticks:
  "m = 0 \<or> next_addr h + m \<le> alloc_limit \<Longrightarrow> same_store h (ticks m n h)"
  by (auto simp: same_store_def)

lemma put_build_eq:
  assumes b: "bounded h"
  shows "\<exists>m n. put_build q key val h =
      (if alloc_ok h (alloc_count h) \<and> next_addr h < alloc_limit \<and>
          (key = None \<or> alloc_ok h (Suc (alloc_count h))) \<and>
          alloc_ok h (Suc (alloc_count h + key_ticks key))
       then Some (Some (next_addr h), set_item (next_addr h) (new_item q key val) (ticks 1 n h))
       else Some (None, ticks m n h)) \<and> (m = 0 \<or> next_addr h + m \<le> alloc_limit)"
proof -
  let ?a = "next_addr h"
  note defs = put_build_def calloc_item_def calloc_eq strdup_eq strdup_key_eq fresh_item [OF b]
    free_set_item new_item_def zero_item_def
  consider "\<not> (alloc_ok h (alloc_count h) \<and> ?a < alloc_limit)"
    | "alloc_ok h (alloc_count h)" "?a < alloc_limit"
      "\<not> (key = None \<or> alloc_ok h (Suc (alloc_count h)))"
    | "alloc_ok h (alloc_count h)" "?a < alloc_limit"
      "key = None \<or> alloc_ok h (Suc (alloc_count h))" by blast
  then show ?thesis
  proof cases
    case 1
    then show ?thesis by (intro exI [of _ 0] exI [of _ 1]) (auto simp: defs)
  next
    case 2
    then show ?thesis
      by (intro exI [of _ 1] exI [of _ "1 + key_ticks key"]) (auto simp: defs)
  next
    case 3
    then show ?thesis
      by (intro exI [of _ 1] exI [of _ "2 + key_ticks key"]) (auto simp: defs)
  qed
qed

lemma put_build_cases:
  assumes b: "bounded h"
  obtains (fail) h' where "put_build q key val h = Some (None, h')" "same_store h h'"
      "\<not> mem_available h"
    | (built) a h0 where "put_build q key val h = Some (Some a, set_item a (new_item q key val) h0)"
      "same_store h h0" "0 < a" "a < next_addr h0" "item_at h a = None"
proof -
  from put_build_eq [OF b, of q key val] obtain m n where eq:
    "put_build q key val h =
      (if alloc_ok h (alloc_count h) \<and> next_addr h < alloc_limit \<and>
          (key = None \<or> alloc_ok h (Suc (alloc_count h))) \<and>
          alloc_ok h (Suc (alloc_count h + key_ticks key))
       then Some (Some (next_addr h), set_item (next_addr h) (new_item q key val) (ticks 1 n h))
       else Some (None, ticks m n h))" and m: "m = 0 \<or> next_addr h + m \<le> alloc_limit"
    by blast
  show thesis
  proof (cases "alloc_ok h (alloc_count h) \<and> next_addr h < alloc_limit \<and>
          (key = None \<or> alloc_ok h (Suc (alloc_count h))) \<and>
          alloc_ok h (Suc (alloc_count h + key_ticks key))")
    case True
    then have s: "same_store h (ticks 1 n h)" by (auto intro: same_store_ticks)
    from True eq show thesis
      by (intro built [OF _ s, of "next_addr h"]) (use b fresh_item [OF b] in \<open>auto simp: bounded_def\<close>)
  next
    case False
    then have "\<not> mem_available h" by (auto simp: mem_available_def)
    with False eq show thesis by (intro fail [OF _ same_store_ticks [OF m]]) auto
  qed
qed

section \<open>Waiting callbacks\<close>

definition unlinked ::
  "addr \<Rightarrow> queue \<Rightarrow> addr \<Rightarrow> queue_callback \<Rightarrow> 'z queue_mem_scheme \<Rightarrow> 'z queue_mem_scheme" where
  "unlinked q Q c cb h = (let h' = set_queue q
     (Q\<lparr>callbacks := remove1 c (callbacks Q), callback_count := callback_count Q - 1,
        keyed_callback_count := keyed_callback_count Q - (if cb_key cb = None then 0 else 1)\<rparr>) h
     in h'\<lparr>callback_at := (callback_at h')(c := None)\<rparr>)"

lemma unlinked_simps [simp]:
  "item_at (unlinked q Q c cb h) = item_at h"
  "callback_at (unlinked q Q c cb h) = (callback_at h)(c := None)"
  "queue_at (unlinked q Q c cb h) = (queue_at h)(q \<mapsto>
     Q\<lparr>callbacks := remove1 c (callbacks Q), callback_count := callback_count Q - 1,
       keyed_callback_count := keyed_callback_count Q - (if cb_key cb = None then 0 else 1)\<rparr>)"
  "next_addr (unlinked q Q c cb h) = next_addr h"
  "alloc_ok (unlinked q Q c cb h) = alloc_ok h"
  "rand_bytes (unlinked q Q c cb h) = rand_bytes h"
  "queue_mem.more (unlinked q Q c cb h) = queue_mem.more h"
  by (cases h, simp add: unlinked_def Let_def set_queue_def)+

lemma queue_callback_free_int_eq:
  "callback_at h c = Some cb \<Longrightarrow> cb_owner cb = Some q \<Longrightarrow> queue_at h q = Some Q \<Longrightarrow>
   c \<in> set (callbacks Q) \<Longrightarrow> queue_callback_free_int c h = Some (unlinked q Q c cb h)"
  by (cases Q) (simp add: queue_callback_free_int_def free_callback_def unlinked_def Let_def)

lemma callback_live:
  assumes "heap_inv h" "queue_at h q = Some Q" "c \<in> set (callbacks Q)"
  obtains cb where "callback_at h c = Some cb" "cb_owner cb = Some q" "cb_addcb cb \<noteq> None"
  using heap_inv_queue [OF assms(1,2)] assms(3)
  by (fastforce simp: queue_ok_def callback_linked_def split: option.splits)

lemma unlinked_inv:
  assumes inv: "heap_inv h" and Q: "queue_at h q = Some Q" and cb: "callback_at h c = Some cb"
    and c: "c \<in> set (callbacks Q)"
  shows "heap_inv (unlinked q Q c cb h)"
proof (rule heap_inv_update [OF inv, of _ q])
  let ?h = "unlinked q Q c cb h"
  note ok = heap_inv_queue [OF inv Q]
  have link: "callback_linked h q c" using ok c by (simp add: queue_ok_def)
  show "bounded ?h"
    using heap_inv_bounded [OF inv] Q by (auto simp: bounded_def dom_def split: if_splits)
  show "queue_ok ?h q P" if P: "queue_at ?h q = Some P" for P
  proof -
    have key: "callback_key h c = cb_key cb" using cb by (simp add: callback_key_def)
    have ik: "item_key ?h = item_key h" by (simp add: fun_eq_iff item_key_def)
    from c obtain xs ys where cs: "callbacks Q = xs @ c # ys" by (auto simp: in_set_conv_decomp)
    from ok cs have cn: "c \<notin> set xs" "c \<notin> set ys" by (auto simp: queue_ok_def)
    then have ck: "callback_key ?h x = callback_key h x" if "x \<in> set xs \<union> set ys" for x
      using that by (auto simp: callback_key_def)
    then have f: "filter (\<lambda>x. callback_key ?h x \<noteq> None) zs = filter (\<lambda>x. callback_key h x \<noteq> None) zs"
      if "zs = xs \<or> zs = ys" for zs using that by (intro filter_cong) auto
    from cn have r: "remove1 c (callbacks Q) = xs @ ys" by (simp add: cs remove1_append)
    from P r have P': "P = Q\<lparr>callbacks := xs @ ys, callback_count := callback_count Q - 1,
        keyed_callback_count := keyed_callback_count Q - (if cb_key cb = None then 0 else 1)\<rparr>"
      by simp
    show ?thesis
      using ok cn cs P' key ck f unfolding queue_ok_def counts_ok_def quiescent_def ik
      by (auto simp: item_linked_def callback_linked_def)
  qed
  show "callback_at ?h x = callback_at h x" if "p \<noteq> q" "callback_linked h p x" for x p
    using that link callback_linked_owner [of h p x q] by auto
qed auto

lemma unlinked_view:
  assumes inv: "heap_inv h" and Q: "queue_at h q = Some Q" and c: "c \<in> set (callbacks Q)"
    and p: "p \<noteq> q"
  shows "same_view p h (unlinked q Q c cb h)"
proof (rule same_viewI [OF inv])
  show "callback_at (unlinked q Q c cb h) x = callback_at h x" if "callback_linked h p x" for x
  proof -
    have "callback_linked h q c" using heap_inv_queue [OF inv Q] c by (simp add: queue_ok_def)
    with that p callback_linked_owner [of h p x q] show ?thesis by auto
  qed
qed (use p in auto)

text \<open>The two guards of \<open>queue_put\<close> skip the scan only when no callback would accept.\<close>

lemma put_scan:
  assumes inv: "heap_inv h" and Q: "queue_at h q = Some Q"
  shows "(if 0 < callback_count Q \<and>
             ((key = None \<and> keyed_callback_count Q \<noteq> callback_count Q) \<or> key \<noteq> None)
          then scan_callbacks h key (callbacks Q) else Some None) =
         Some (List.find (\<lambda>c. callback_accepts (callback_key h c) key) (callbacks Q))"
proof -
  note ok = heap_inv_queue [OF inv Q]
  then have len: "length (callbacks Q) < alloc_limit"
    using waiting_length [of h "callbacks Q" q] heap_inv_bounded [OF inv]
    by (auto simp: queue_ok_def)
  have live: "\<forall>c \<in> set (callbacks Q). callback_at h c \<noteq> None"
    using ok by (auto simp: queue_ok_def callback_linked_def split: option.splits)
  let ?ks = "filter (\<lambda>c. callback_key h c \<noteq> None) (callbacks Q)"
  have klen: "length ?ks < alloc_limit" using len length_filter_le le_less_trans by blast
  have none: "\<forall>c \<in> set (callbacks Q). \<not> callback_accepts (callback_key h c) key"
    if "\<not> (0 < callback_count Q \<and>
             ((key = None \<and> keyed_callback_count Q \<noteq> callback_count Q) \<or> key \<noteq> None))"
  proof -
    from that have "callback_count Q = 0 \<or> (key = None \<and> keyed_callback_count Q = callback_count Q)"
      by (auto simp: word_greater_zero_iff)
    then show ?thesis
    proof
      assume "callback_count Q = 0"
      with ok len show ?thesis by (simp add: queue_ok_def counts_ok_def of_nat_size_t_eq_0)
    next
      assume *: "key = None \<and> keyed_callback_count Q = callback_count Q"
      with ok have "(of_nat (length ?ks) :: size_t) = of_nat (length (callbacks Q))"
        unfolding queue_ok_def counts_ok_def by metis
      then have "length ?ks = length (callbacks Q)"
        by (simp only: of_nat_size_t_inj [OF klen len])
      then have "\<forall>c \<in> set (callbacks Q). callback_key h c \<noteq> None"
        by (metis (mono_tags, lifting) length_filter_less less_irrefl)
      with * show ?thesis by (auto simp: callback_accepts_def)
    qed
  qed
  show ?thesis
    using scan_callbacks_find [OF live, of key] none
    by (auto simp: find_None_iff [THEN iffD2])
qed

section \<open>Storing an item\<close>

definition stored ::
  "addr \<Rightarrow> queue \<Rightarrow> addr \<Rightarrow> cstring option \<Rightarrow> cstring \<Rightarrow> 'z queue_mem_scheme \<Rightarrow> 'z queue_mem_scheme"
where
  "stored q Q a key val h = set_queue q
     (Q\<lparr>item_count := item_count Q + 1, keyed_count := keyed_count Q + (if key = None then 0 else 1),
        items := items Q @ [a]\<rparr>)
     (set_item a ((new_item q key val)\<lparr>i_inserted := True\<rparr>) h)"

lemma stored_simps [simp]:
  "item_at (stored q Q a key val h) = (item_at h)(a \<mapsto> (new_item q key val)\<lparr>i_inserted := True\<rparr>)"
  "callback_at (stored q Q a key val h) = callback_at h"
  "queue_at (stored q Q a key val h) = (queue_at h)(q \<mapsto>
     Q\<lparr>item_count := item_count Q + 1, keyed_count := keyed_count Q + (if key = None then 0 else 1),
       items := items Q @ [a]\<rparr>)"
  "next_addr (stored q Q a key val h) = next_addr h"
  "alloc_ok (stored q Q a key val h) = alloc_ok h"
  "rand_bytes (stored q Q a key val h) = rand_bytes h"
  "queue_mem.more (stored q Q a key val h) = queue_mem.more h"
  by (simp_all add: stored_def)

lemma put_store_eq:
  "queue_at h q = Some Q \<Longrightarrow>
   put_store q a key (set_item a (new_item q key val) h) = Some (stored q Q a key val h)"
  by (cases Q) (simp add: put_store_def stored_def tailq_insert_tail_def Let_def)

lemma fresh_not_linked: "item_at h a = None \<Longrightarrow> \<not> item_linked h q a"
  by (simp add: item_linked_def)

lemma set_fresh_item_inv:
  assumes inv: "heap_inv h" and a: "item_at h a = None" "0 < a" "a < next_addr h"
  shows "heap_inv (set_item a i h)"
proof -
  have "queue_ok (set_item a i h) q Q" if Q: "queue_at h q = Some Q" for q Q
  proof (rule queue_ok_cong [OF heap_inv_queue [OF inv Q]])
    show "item_at (set_item a i h) x = item_at h x" if "x \<in> set (items Q)" for x
      using that heap_inv_queue [OF inv Q] fresh_not_linked [OF a(1), of q]
      by (auto simp: queue_ok_def)
  qed simp
  with inv a show ?thesis by (auto simp: heap_inv_def bounded_def dom_def)
qed

lemma set_fresh_item_view:
  "heap_inv h \<Longrightarrow> item_at h a = None \<Longrightarrow> same_view q h (set_item a i h)"
  by (rule same_viewI) (use fresh_not_linked in auto)

lemma stored_inv:
  assumes inv: "heap_inv h" and Q: "queue_at h q = Some Q"
    and a: "item_at h a = None" "0 < a" "a < next_addr h"
    and acc: "\<forall>c \<in> set (callbacks Q). \<not> callback_accepts (callback_key h c) key"
  shows "heap_inv (stored q Q a key val h)"
proof (rule heap_inv_update [OF inv, of _ q])
  let ?h = "stored q Q a key val h"
  note ok = heap_inv_queue [OF inv Q]
  have an: "a \<notin> set (items Q)" using ok fresh_not_linked [OF a(1), of q] by (auto simp: queue_ok_def)
  have ka: "item_key ?h a = key" by (simp add: item_key_def new_item_def)
  have ik: "item_key ?h x = item_key h x" if "x \<in> set (items Q)" for x
    using that an by (auto simp: item_key_def)
  then have f: "filter (\<lambda>x. item_key ?h x \<noteq> None) (items Q) = filter (\<lambda>x. item_key h x \<noteq> None) (items Q)"
    by (intro filter_cong) auto
  have ck: "callback_key ?h = callback_key h" by (simp add: fun_eq_iff callback_key_def)
  show "bounded ?h"
    using heap_inv_bounded [OF inv] a Q by (auto simp: bounded_def dom_def split: if_splits)
  show "queue_ok ?h q P" if P: "queue_at ?h q = Some P" for P
    using ok an P ka ik f acc a unfolding queue_ok_def counts_ok_def quiescent_def ck
    by (auto simp: item_linked_def callback_linked_def new_item_def)
  show "item_at ?h x = item_at h x" if "p \<noteq> q" "item_linked h p x" for x p
    using that fresh_not_linked [OF a(1), of p] by auto
qed auto

lemma stored_view:
  "heap_inv h \<Longrightarrow> item_at h a = None \<Longrightarrow> p \<noteq> q \<Longrightarrow> same_view p h (stored q Q a key val h)"
  by (rule same_viewI) (use fresh_not_linked in auto)

lemma stored_content:
  assumes "heap_inv h" "queue_at h q = Some Q" "item_at h a = None"
  shows "content (stored q Q a key val h) q = content h q @ [(key, Some val)]"
    and "waiters (stored q Q a key val h) q = waiters h q"
proof -
  have "a \<notin> set (items Q)"
    using heap_inv_queue [OF assms(1,2)] fresh_not_linked [OF assms(3), of q]
    by (auto simp: queue_ok_def)
  with assms(2) show "content (stored q Q a key val h) q = content h q @ [(key, Some val)]"
    by (auto simp: content_def entry_of_def new_item_def)
  show "waiters (stored q Q a key val h) q = waiters h q"
    using assms(2) by (simp add: waiters_def waiter_of_def)
qed

section \<open>Putting an item\<close>

lemma same_store_queue: "same_store h h' \<Longrightarrow> queue_at h' q = queue_at h q"
  by (simp add: same_store_def)

lemma same_store_item: "same_store h h' \<Longrightarrow> item_at h' a = item_at h a"
  by (simp add: same_store_def)

lemma same_store_waiter_of: "same_store h h' \<Longrightarrow> waiter_of h' = waiter_of h"
  by (simp add: same_store_def waiter_of_def fun_eq_iff)

lemma same_store_callback_key: "same_store h h' \<Longrightarrow> callback_key h' = callback_key h"
  by (simp add: same_store_def callback_key_def fun_eq_iff)

text \<open>The memory a callback is called with: its record is gone, the new item is loose.\<close>

definition handed ::
  "addr \<Rightarrow> queue \<Rightarrow> addr \<Rightarrow> queue_callback \<Rightarrow> addr \<Rightarrow> cstring option \<Rightarrow> cstring \<Rightarrow>
   'z queue_mem_scheme \<Rightarrow> 'z queue_mem_scheme" where
  "handed q Q c cb a key val h = unlinked q Q c cb (set_item a (new_item q key val) h)"

lemma handed_facts:
  assumes inv: "heap_inv h" and Q: "queue_at h q = Some Q" and cb: "callback_at h c = Some cb"
    and c: "c \<in> set (callbacks Q)" and a: "item_at h a = None" "0 < a" "a < next_addr h"
  shows "heap_inv (handed q Q c cb a key val h)"
    and "loose (handed q Q c cb a key val h) a"
    and "entry_of (handed q Q c cb a key val h) a = (key, Some val)"
    and "content (handed q Q c cb a key val h) q = content h q"
    and "p \<noteq> q \<Longrightarrow> same_view p h (handed q Q c cb a key val h)"
proof -
  let ?h1 = "set_item a (new_item q key val) h"
  have inv1: "heap_inv ?h1" by (rule set_fresh_item_inv [OF inv a])
  have Q1: "queue_at ?h1 q = Some Q" and cb1: "callback_at ?h1 c = Some cb" using Q cb by simp_all
  show "heap_inv (handed q Q c cb a key val h)"
    unfolding handed_def by (rule unlinked_inv [OF inv1 Q1 cb1 c])
  show "loose (handed q Q c cb a key val h) a"
    by (simp add: handed_def loose_def new_item_def)
  show "entry_of (handed q Q c cb a key val h) a = (key, Some val)"
    by (simp add: handed_def entry_of_def new_item_def)
  have "a \<notin> set (items Q)"
    using heap_inv_queue [OF inv Q] fresh_not_linked [OF a(1), of q] by (auto simp: queue_ok_def)
  with Q show "content (handed q Q c cb a key val h) q = content h q"
    by (auto simp: content_def handed_def entry_of_def)
  show "same_view p h (handed q Q c cb a key val h)" if "p \<noteq> q"
    unfolding handed_def
    by (rule same_view_trans [OF set_fresh_item_view [OF inv a(1)] unlinked_view [OF inv1 Q1 c that]])
qed

lemma handed_waiters:
  assumes Q: "queue_at h q = Some Q" and d: "distinct (callbacks Q)"
    and cs: "callbacks Q = xs @ c # ys"
  shows "waiters (handed q Q c cb a key val h) q = map (waiter_of h) (xs @ ys)"
proof -
  from d cs have "c \<notin> set xs" "c \<notin> set ys" by auto
  then show ?thesis
    by (auto simp: waiters_def handed_def cs remove1_append waiter_of_def)
qed

lemma queue_put_cases:
  assumes inv: "heap_inv h" and Q: "queue_at h q = Some Q"
  obtains (fail) h' where "queue_put run q key val h = Some (-1, h')" "same_store h h'"
      "\<not> mem_available h"
    | (store) a h0 where "same_store h h0" "item_at h0 a = None" "0 < a" "a < next_addr h0"
      "queue_put run q key val h = Some (0, stored q Q a key val h0)"
      "\<forall>c \<in> set (callbacks Q). \<not> callback_accepts (callback_key h c) key"
    | (deliver) a h0 xs c ys cb f where "same_store h h0" "item_at h0 a = None" "0 < a" "a < next_addr h0"
      "callbacks Q = xs @ c # ys" "callback_at h0 c = Some cb" "cb_addcb cb = Some f"
      "callback_accepts (callback_key h c) key"
      "\<forall>x \<in> set xs. \<not> callback_accepts (callback_key h x) key"
      "queue_put run q key val h = do {
         h \<leftarrow> run f a (cb_addcbarg cb) (handed q Q c cb a key val h0);
         h \<leftarrow> queue_item_free a h;
         Some (1, h) }"
  using heap_inv_bounded [OF inv]
proof (cases rule: put_build_cases [where q = q and key = key and val = val])
  case (fail h')
  then show thesis using that(1) by (simp add: queue_put_def)
next
  case (built a h0)
  let ?h1 = "set_item a (new_item q key val) h0"
  have inv0: "heap_inv h0" using same_store_inv [OF inv built(2)] .
  have fa: "item_at h0 a = None" using built by (simp add: same_store_def)
  have inv1: "heap_inv ?h1" by (rule set_fresh_item_inv [OF inv0 fa built(3,4)])
  have Q0: "queue_at h0 q = Some Q" using built(2) Q by (simp add: same_store_def)
  then have Q1: "queue_at ?h1 q = Some Q" by simp
  have ck: "callback_key ?h1 = callback_key h"
    using built(2) by (simp add: fun_eq_iff callback_key_def same_store_def)
  note scan = put_scan [OF inv1 Q1, of key, unfolded ck]
  show thesis
  proof (cases "List.find (\<lambda>c. callback_accepts (callback_key h c) key) (callbacks Q)")
    case None
    with scan built(1) Q1 have "queue_put run q key val h = Some (0, stored q Q a key val h0)"
      by (simp add: queue_put_def put_store_eq [OF Q0])
    with None built fa show thesis using that(2) by (simp add: find_None_iff)
  next
    case (Some c)
    from find_split [OF this] obtain xs ys where cs: "callbacks Q = xs @ c # ys"
      and acc: "callback_accepts (callback_key h c) key"
        "\<forall>x \<in> set xs. \<not> callback_accepts (callback_key h x) key" by blast
    have c: "c \<in> set (callbacks Q)" by (simp add: cs)
    from callback_live [OF inv0 Q0 c] obtain cb f where cb: "callback_at h0 c = Some cb"
      "cb_owner cb = Some q" "cb_addcb cb = Some f" by (metis not_None_eq)
    have cb1: "callback_at ?h1 c = Some cb" using cb by simp
    note free = queue_callback_free_int_eq [OF cb1 cb(2) Q1 c]
    have "queue_put run q key val h = do {
         h \<leftarrow> run f a (cb_addcbarg cb) (handed q Q c cb a key val h0);
         h \<leftarrow> queue_item_free a h;
         Some (1, h) }"
      using scan Some built(1) Q1 cb1 cb(3) free by (simp add: queue_put_def put_deliver_def handed_def)
    with built fa cs cb acc show thesis using that(3) by blast
  qed
qed

section \<open>Waiting for an item\<close>

definition waiting ::
  "addr \<Rightarrow> queue \<Rightarrow> addr \<Rightarrow> cstring option \<Rightarrow> fnptr \<Rightarrow> addr option \<Rightarrow> 'z queue_mem_scheme \<Rightarrow>
   'z queue_mem_scheme" where
  "waiting q Q c key f arg h = set_queue q
     (Q\<lparr>callback_count := callback_count Q + 1,
        keyed_callback_count := keyed_callback_count Q + (if key = None then 0 else 1),
        callbacks := callbacks Q @ [c]\<rparr>)
     (set_callback c \<lparr>cb_key = key, cb_addcb = Some f, cb_addcbarg = arg, cb_owner = Some q\<rparr> h)"

lemma waiting_simps [simp]:
  "item_at (waiting q Q c key f arg h) = item_at h"
  "callback_at (waiting q Q c key f arg h) = (callback_at h)(c \<mapsto>
     \<lparr>cb_key = key, cb_addcb = Some f, cb_addcbarg = arg, cb_owner = Some q\<rparr>)"
  "queue_at (waiting q Q c key f arg h) = (queue_at h)(q \<mapsto>
     Q\<lparr>callback_count := callback_count Q + 1,
       keyed_callback_count := keyed_callback_count Q + (if key = None then 0 else 1),
       callbacks := callbacks Q @ [c]\<rparr>)"
  "next_addr (waiting q Q c key f arg h) = next_addr h"
  "alloc_ok (waiting q Q c key f arg h) = alloc_ok h"
  "rand_bytes (waiting q Q c key f arg h) = rand_bytes h"
  "queue_mem.more (waiting q Q c key f arg h) = queue_mem.more h"
  by (simp_all add: waiting_def)

lemma callback_new_cases:
  assumes b: "bounded h"
  obtains (fail) h' where "queue_callback_new_int key h = Some (None, h')" "same_store h h'"
      "\<not> mem_available h"
    | (built) c h0 where
      "queue_callback_new_int key h = Some (Some c, set_callback c (zero_callback\<lparr>cb_key := key\<rparr>) h0)"
      "same_store h h0" "0 < c" "c < next_addr h0" "callback_at h c = None"
proof -
  let ?c = "next_addr h"
  note defs = queue_callback_new_int_def calloc_callback_def calloc_eq strdup_key_eq
    fresh_callback [OF b] free_set_callback
  consider (nomem) "\<not> (alloc_ok h (alloc_count h) \<and> ?c < alloc_limit)"
    | (nokey) "alloc_ok h (alloc_count h)" "?c < alloc_limit"
      "\<not> (key = None \<or> alloc_ok h (Suc (alloc_count h)))"
    | (ok) "alloc_ok h (alloc_count h)" "?c < alloc_limit"
      "key = None \<or> alloc_ok h (Suc (alloc_count h))" by blast
  then show thesis
  proof cases
    case nomem
    then have "queue_callback_new_int key h = Some (None, ticks 0 1 h)" by (auto simp: defs)
    with nomem show thesis
      by (intro fail [OF _ same_store_ticks]) (auto simp: mem_available_def)
  next
    case nokey
    then have "queue_callback_new_int key h = Some (None, ticks 1 (1 + key_ticks key) h)"
      by (auto simp: defs)
    with nokey show thesis
      by (intro fail [OF _ same_store_ticks]) (auto simp: mem_available_def)
  next
    case ok
    then have "queue_callback_new_int key h =
      Some (Some ?c, set_callback ?c (zero_callback\<lparr>cb_key := key\<rparr>) (ticks 1 (1 + key_ticks key) h))"
      by (auto simp: defs)
    with ok b fresh_callback [OF b] show thesis
      by (intro built [OF _ same_store_ticks]) (auto simp: bounded_def)
  qed
qed

lemma waiting_inv:
  assumes inv: "heap_inv h" and Q: "queue_at h q = Some Q"
    and c: "callback_at h c = None" "0 < c" "c < next_addr h"
    and none: "\<forall>a \<in> set (items Q). \<not> item_matches key (item_key h a)"
  shows "heap_inv (waiting q Q c key f arg h)"
proof (rule heap_inv_update [OF inv, of _ q])
  let ?h = "waiting q Q c key f arg h"
  note ok = heap_inv_queue [OF inv Q]
  have nl: "\<not> callback_linked h p c" for p using c(1) by (simp add: callback_linked_def)
  have cn: "c \<notin> set (callbacks Q)" using ok nl by (auto simp: queue_ok_def)
  have kc: "callback_key ?h c = key" by (simp add: callback_key_def)
  have ck: "callback_key ?h x = callback_key h x" if "x \<in> set (callbacks Q)" for x
    using that cn by (auto simp: callback_key_def)
  then have f: "filter (\<lambda>x. callback_key ?h x \<noteq> None) (callbacks Q) =
                filter (\<lambda>x. callback_key h x \<noteq> None) (callbacks Q)"
    by (intro filter_cong) auto
  have ik: "item_key ?h = item_key h" by (simp add: fun_eq_iff item_key_def)
  show "bounded ?h"
    using heap_inv_bounded [OF inv] c Q by (auto simp: bounded_def dom_def split: if_splits)
  show "queue_ok ?h q P" if P: "queue_at ?h q = Some P" for P
    using ok cn P kc ck f none unfolding queue_ok_def counts_ok_def quiescent_def ik
    by (auto simp: item_linked_def callback_linked_def callback_accepts_eq)
  show "callback_at ?h x = callback_at h x" if "p \<noteq> q" "callback_linked h p x" for x p
    using that nl by auto
qed auto

lemma waiting_view:
  assumes "heap_inv h" and "callback_at h c = None" and "p \<noteq> q"
  shows "same_view p h (waiting q Q c key f arg h)"
  by (rule same_viewI [OF assms(1)]) (use assms(2,3) in \<open>auto simp: callback_linked_def\<close>)

lemma waiting_waiters:
  assumes "heap_inv h" "queue_at h q = Some Q" "callback_at h c = None"
  shows "waiters (waiting q Q c key f arg h) q = waiters h q @ [(key, Some f, arg)]"
    and "content (waiting q Q c key f arg h) q = content h q"
proof -
  have "c \<notin> set (callbacks Q)"
    using heap_inv_queue [OF assms(1,2)] assms(3) by (force simp: queue_ok_def callback_linked_def)
  with assms(2) show "waiters (waiting q Q c key f arg h) q = waiters h q @ [(key, Some f, arg)]"
    by (auto simp: waiters_def waiter_of_def)
  show "content (waiting q Q c key f arg h) q = content h q"
    using assms(2) by (simp add: content_def entry_of_def)
qed

lemma queue_wait_cases:
  assumes inv: "heap_inv h" and Q: "queue_at h q = Some Q"
  obtains (deliver) xs a ys i where "items Q = xs @ a # ys" "item_at h a = Some i"
      "item_matches key (i_key i)" "\<forall>x \<in> set xs. \<not> item_matches key (item_key h x)"
      "queue_wait run q key (Some f) arg h = do {
         h \<leftarrow> run f a arg (taken q Q a i h);
         h \<leftarrow> queue_item_free a h;
         Some (1, h) }"
    | (fail) h' where "queue_wait run q key (Some f) arg h = Some (-1, h')" "same_store h h'"
      "\<not> mem_available h" "\<forall>a \<in> set (items Q). \<not> item_matches key (item_key h a)"
    | (wait) c h0 where "same_store h h0" "callback_at h0 c = None" "0 < c" "c < next_addr h0"
      "\<forall>a \<in> set (items Q). \<not> item_matches key (item_key h a)"
      "queue_wait run q key (Some f) arg h = Some (0, waiting q Q c key f arg h0)"
  using inv Q
proof (cases rule: queue_take_cases [where key = key])
  case (some xs a ys i)
  then show thesis using that(1) by (simp add: queue_wait_def)
next
  case none
  from heap_inv_bounded [OF inv] show thesis
  proof (cases rule: callback_new_cases [where key = key])
    case (fail h')
    with none show thesis using that(2) by (simp add: queue_wait_def)
  next
    case (built c h0)
    then have "queue_wait run q key (Some f) arg h = Some (0, waiting q Q c key f arg h0)"
      using none(1) Q by (cases Q) (simp add: queue_wait_def waiting_def zero_callback_def Let_def
        tailq_insert_tail_def same_store_def)
    with none built show thesis using that(3) by (simp add: same_store_def)
  qed
qed

section \<open>Creating and freeing a queue\<close>

text \<open>The memory a queue leaves behind.\<close>

definition released :: "addr \<Rightarrow> queue \<Rightarrow> 'z queue_mem_scheme \<Rightarrow> 'z queue_mem_scheme" where
  "released q Q h = h\<lparr>item_at := item_at h |` (- set (items Q)),
     callback_at := callback_at h |` (- set (callbacks Q)), queue_at := (queue_at h)(q := None)\<rparr>"

lemma released_simps [simp]:
  "item_at (released q Q h) = item_at h |` (- set (items Q))"
  "callback_at (released q Q h) = callback_at h |` (- set (callbacks Q))"
  "queue_at (released q Q h) = (queue_at h)(q := None)"
  "next_addr (released q Q h) = next_addr h"
  "alloc_ok (released q Q h) = alloc_ok h"
  "rand_bytes (released q Q h) = rand_bytes h"
  by (simp_all add: released_def)

lemma released_more [simp]: "queue_mem.more (released q Q h) = queue_mem.more h"
  by (cases h) (simp add: released_def)

lemma restrict_remove: "m(c := None) |` (- A) = m |` (- insert c A)"
  by (auto simp: restrict_map_def fun_eq_iff)

lemma free_callbacks_spec:
  assumes "heap_inv h" "queue_at h q = Some Q"
  shows "\<exists>Q'. free_callbacks q h = Some (set_queue q Q' h\<lparr>callback_at :=
      callback_at h |` (- set (callbacks Q))\<rparr>) \<and> callbacks Q' = [] \<and> items Q' = items Q"
  using assms
proof (induction "callbacks Q" arbitrary: h Q)
  case Nil
  then show ?case
    by (intro exI [of _ Q], cases h) (simp add: free_callbacks.simps set_queue_def fun_upd_idem)
next
  case (Cons c cs)
  have cQ: "callbacks Q = c # cs" using Cons.hyps(2) by simp
  then have c: "c \<in> set (callbacks Q)" by simp
  from callback_live [OF Cons.prems c] obtain cb where cb: "callback_at h c = Some cb" "cb_owner cb = Some q" .
  note f = queue_callback_free_int_eq [OF cb Cons.prems(2) c]
  let ?h = "unlinked q Q c cb h"
  let ?Q = "Q\<lparr>callbacks := remove1 c (callbacks Q), callback_count := callback_count Q - 1,
       keyed_callback_count := keyed_callback_count Q - (if cb_key cb = None then 0 else 1)\<rparr>"
  have cs: "cs = callbacks ?Q" by (simp add: cQ)
  from Cons.hyps(1) [OF cs unlinked_inv [OF Cons.prems cb(1) c]]
  obtain Q' where Q': "free_callbacks q ?h = Some (set_queue q Q' ?h\<lparr>callback_at :=
      callback_at ?h |` (- set (callbacks ?Q))\<rparr>)" "callbacks Q' = []" "items Q' = items ?Q"
    by auto
  have "free_callbacks q h = free_callbacks q ?h"
    using Cons.prems(2) cQ f by (subst free_callbacks.simps) simp
  also have "\<dots> = Some (set_queue q Q' h\<lparr>callback_at := callback_at h |` (- set (callbacks Q))\<rparr>)"
    unfolding Q'(1) by (simp add: cQ Compl_insert unlinked_def set_queue_def Let_def)
  finally show ?case using Q' by auto
qed

lemma free_items_spec:
  assumes "queue_at h q = Some Q" "distinct (items Q)" "\<forall>a \<in> set (items Q). item_linked h q a"
  shows "\<exists>Q'. free_items q h = Some (set_queue q Q' h\<lparr>item_at := item_at h |` (- set (items Q))\<rparr>)"
  using assms
proof (induction "items Q" arbitrary: h Q)
  case Nil
  then show ?case
    by (intro exI [of _ Q], cases h) (simp add: free_items.simps set_queue_def fun_upd_idem)
next
  case (Cons a as)
  have a: "item_linked h q a" and ia: "a \<in> set (items Q)" and na: "a \<notin> set as"
    using Cons.hyps(2) Cons.prems(2,3) by (metis list.set_intros(1), metis list.set_intros(1), metis distinct.simps(2))
  then obtain i where i: "item_at h a = Some i" "i_inserted i" "i_owner i = Some q"
    by (auto simp: item_linked_def split: option.splits)
  let ?Q = "Q\<lparr>items := remove1 a (items Q)\<rparr>"
  let ?h = "drop_item a (set_queue q ?Q h)"
  have f: "queue_item_free_int a h = Some ?h"
    using i ia Cons.prems(1)
    by (simp add: queue_item_free_int_def free_item_def drop_item_def)
  have as: "as = items ?Q" by (simp flip: Cons.hyps(2))
  have "\<forall>x \<in> set (items ?Q). item_linked ?h q x"
    using Cons.prems(3) na by (auto simp: item_linked_def simp flip: Cons.hyps(2))
  with Cons.hyps(1) [OF as, of ?h] Cons.prems(2) obtain Q' where
    Q': "free_items q ?h = Some (set_queue q Q' ?h\<lparr>item_at := item_at ?h |` (- set (items ?Q))\<rparr>)"
    by auto
  have "free_items q h = free_items q ?h"
    using Cons.prems(1) f by (subst free_items.simps) (simp flip: Cons.hyps(2))
  also have "\<dots> = Some (set_queue q Q' h\<lparr>item_at := item_at h |` (- set (items Q))\<rparr>)"
    unfolding Q' using na
    by (simp add: drop_item_def set_queue_def Compl_insert flip: Cons.hyps(2))
  finally show ?case by blast
qed

lemma queue_free_eq:
  assumes inv: "heap_inv h" and Q: "queue_at h q = Some Q"
  shows "queue_free q h = Some (released q Q h)"
proof -
  note ok = heap_inv_queue [OF inv Q]
  from free_callbacks_spec [OF inv Q] obtain Q1 where
    f1: "free_callbacks q h = Some (set_queue q Q1 h\<lparr>callback_at := callback_at h |` (- set (callbacks Q))\<rparr>)"
      (is "_ = Some ?h1") and Q1: "items Q1 = items Q" by blast
  have "\<exists>Q'. free_items q ?h1 = Some (set_queue q Q' ?h1\<lparr>item_at := item_at ?h1 |` (- set (items Q1))\<rparr>)"
    by (rule free_items_spec) (use ok Q1 in \<open>auto simp: queue_ok_def item_linked_def\<close>)
  then obtain Q2 where f2: "free_items q ?h1 =
      Some (set_queue q Q2 ?h1\<lparr>item_at := item_at ?h1 |` (- set (items Q1))\<rparr>)" by blast
  show ?thesis
    using f1 f2 Q1 by (cases h) (simp add: queue_free_def free_queue_def released_def set_queue_def fun_eq_iff)
qed

lemma released_inv:
  assumes inv: "heap_inv h" and Q: "queue_at h q = Some Q"
  shows "heap_inv (released q Q h)"
proof (rule heap_inv_update [OF inv, of _ q])
  note ok = heap_inv_queue [OF inv Q]
  show "bounded (released q Q h)"
    using heap_inv_bounded [OF inv] by (auto simp: bounded_def dom_def restrict_map_def)
  show "item_at (released q Q h) x = item_at h x" if "p \<noteq> q" "item_linked h p x" for x p
    using that ok item_linked_owner [of h p x q] by (auto simp: queue_ok_def restrict_map_def)
  show "callback_at (released q Q h) x = callback_at h x" if "p \<noteq> q" "callback_linked h p x" for x p
    using that ok callback_linked_owner [of h p x q] by (auto simp: queue_ok_def restrict_map_def)
qed auto

lemma released_view:
  assumes inv: "heap_inv h" and Q: "queue_at h q = Some Q" and p: "p \<noteq> q"
  shows "same_view p h (released q Q h)"
proof (rule same_viewI [OF inv])
  note ok = heap_inv_queue [OF inv Q]
  show "item_at (released q Q h) x = item_at h x" if "item_linked h p x" for x
    using that p ok item_linked_owner [of h p x q] by (auto simp: queue_ok_def restrict_map_def)
  show "callback_at (released q Q h) x = callback_at h x" if "callback_linked h p x" for x
    using that p ok callback_linked_owner [of h p x q] by (auto simp: queue_ok_def restrict_map_def)
qed (use p in auto)

definition uuid4 :: "byte list \<Rightarrow> byte list" where
  "uuid4 b = b[6 := ((b ! 6) AND 0x0f) OR 0x40, 8 := ((b ! 8) AND 0x3f) OR 0x80]"

definition fresh_uuid :: "byte list option \<Rightarrow> 'z queue_mem_scheme \<Rightarrow> byte list option" where
  "fresh_uuid qid h = (case qid of Some b \<Rightarrow> Some b
     | None \<Rightarrow> map_option uuid4 (rand_bytes h (rand_count h)))"

definition rand_used :: "byte list option \<Rightarrow> 'z queue_mem_scheme \<Rightarrow> 'z queue_mem_scheme" where
  "rand_used qid h = (if qid = None then h\<lparr>rand_count := Suc (rand_count h)\<rparr> else h)"

lemma rand_used_simps [simp]:
  "item_at (rand_used qid h) = item_at h" "callback_at (rand_used qid h) = callback_at h"
  "queue_at (rand_used qid h) = queue_at h" "rand_bytes (rand_used qid h) = rand_bytes h"
  "next_addr (rand_used qid h) = next_addr h" "alloc_ok (rand_used qid h) = alloc_ok h"
  "queue_mem.more (rand_used qid h) = queue_mem.more h"
  by (cases h, simp add: rand_used_def)+

lemma queue_new_cases:
  assumes inv: "heap_inv h"
  obtains (fail) h' where "queue_new qid h = Some (None, h')" "same_store h h'"
      "\<not> mem_available h \<or> fresh_uuid qid h = None"
    | (new) q h0 b where "queue_new qid h = Some (Some q, set_queue q (zero_queue\<lparr>uuid := b\<rparr>) h0)"
      "fresh_uuid qid h = Some b"
      "same_store h h0" "queue_at h q = None" "0 < q" "q < next_addr h0"
proof -
  let ?q = "next_addr h"
  have b: "bounded h" using heap_inv_bounded [OF inv] .
  have rc: "rand_count (set_queue ?q Q (ticks 1 1 h)) = rand_count h" for Q
    by (cases h) (simp add: set_queue_def ticks_def)
  have rb: "rand_count (ticks 1 1 h) = rand_count h" by (cases h) (simp add: ticks_def)
  have ru: "(set_queue ?q Q g)\<lparr>rand_count := n\<rparr> = set_queue ?q Q (g\<lparr>rand_count := n\<rparr>)"
    for Q n and g :: "'a queue_mem_scheme" by (simp add: set_queue_def)
  have ss: "same_store h (rand_used qid (ticks 1 1 h))" if "?q < alloc_limit"
    using that by (auto simp: same_store_def)
  show thesis
  proof (cases "alloc_ok h (alloc_count h) \<and> ?q < alloc_limit")
    case False
    then have "queue_new qid h = Some (None, ticks 0 1 h)"
      by (auto simp: queue_new_def calloc_queue_def calloc_eq)
    with False show thesis
      by (intro fail [OF _ same_store_ticks]) (auto simp: mem_available_def)
  next
    case True
    show thesis
    proof (cases "fresh_uuid qid h")
      case None
      then have "queue_new qid h = Some (None, rand_used qid (ticks 1 1 h))"
        using True b rc rb by (auto simp: queue_new_def calloc_queue_def calloc_eq fresh_uuid_def ru
            free_set_queue fresh_queue rand_used_def split: option.splits)
      with None True show thesis by (intro fail [OF _ ss]) auto
    next
      case (Some u)
      then have "queue_new qid h =
          Some (Some ?q, set_queue ?q (zero_queue\<lparr>uuid := u\<rparr>) (rand_used qid (ticks 1 1 h)))"
        using True b rc rb by (auto simp: queue_new_def calloc_queue_def calloc_eq fresh_uuid_def ru
            rand_used_def uuid4_def split: option.splits)
      with Some True b fresh_queue [OF b] show thesis
        by (intro new [OF _ Some ss]) (auto simp: bounded_def)
    qed
  qed
qed

lemma new_queue_inv:
  assumes inv: "heap_inv h" and q: "queue_at h q = None" "0 < q" "q < next_addr h"
    and b: "length b = 16"
  shows "heap_inv (set_queue q (zero_queue\<lparr>uuid := b\<rparr>) h)"
proof (rule heap_inv_update [OF inv, of _ q])
  show "bounded (set_queue q (zero_queue\<lparr>uuid := b\<rparr>) h)"
    using heap_inv_bounded [OF inv] q by (auto simp: bounded_def dom_def)
qed (use b in \<open>auto simp: queue_ok_def counts_ok_def quiescent_def zero_queue_def\<close>)

lemma new_queue_view: "p \<noteq> q \<Longrightarrow> same_view p h (set_queue q Q h)"
  by (simp add: same_view_def content_def waiters_def entry_of_def waiter_of_def
           split: option.splits)

lemma new_queue_empty:
  "content (set_queue q (zero_queue\<lparr>uuid := b\<rparr>) h) q = []"
  "waiters (set_queue q (zero_queue\<lparr>uuid := b\<rparr>) h) q = []"
  by (simp_all add: content_def waiters_def zero_queue_def)

end
