(* ===== verification/Queue_Spec.thy ===== *)
theory Queue_Spec
  imports Queue_Correct
begin

text \<open>
  What the callers of a queue rely on.  The locale \<open>queue_service\<close> states the contract of a
  queue nobody waits on as two laws, over a state of any kind; its lemmas follow sequences of
  calls (draining a queue returns its entries in order, draining it by key returns the entries
  of that key and leaves the others).  The interpretation proves the laws for \<open>queue_put\<close> and
  for the take of \<open>connection_http_callback_take\<close>.  The properties of the queue component and
  the memory their witnesses use follow.
\<close>

section \<open>The contract\<close>

definition wanted :: "cstring option \<Rightarrow> entry \<Rightarrow> bool" where
  "wanted key e = item_matches key (fst e)"

lemma wanted_fold: "(\<lambda>e. item_matches key (fst e)) = wanted key"
  by (simp add: wanted_def fun_eq_iff)

text \<open>Calling a take up to \<open>n\<close> times, and putting the elements of a list.\<close>

fun drain :: "('s \<Rightarrow> ('e option \<times> 's) option) \<Rightarrow> nat \<Rightarrow> 's \<Rightarrow> ('e list \<times> 's) option" where
  "drain tk 0 s = Some ([], s)"
| "drain tk (Suc n) s = do {
     (e, s) \<leftarrow> tk s;
     case e of None \<Rightarrow> Some ([], s)
     | Some e \<Rightarrow> do { (es, s) \<leftarrow> drain tk n s; Some (e # es, s) } }"

fun put_all :: "('k \<Rightarrow> 'v \<Rightarrow> 's \<Rightarrow> (int \<times> 's) option) \<Rightarrow> ('k \<times> 'v) list \<Rightarrow> 's \<Rightarrow> (int list \<times> 's) option" where
  "put_all pt [] s = Some ([], s)"
| "put_all pt ((k, v) # xs) s = do {
     (r, s) \<leftarrow> pt k v s;
     (rs, s) \<leftarrow> put_all pt xs s;
     Some (r # rs, s) }"

text \<open>The entries whose put reported success.\<close>

definition accepted :: "(cstring option \<times> cstring) list \<Rightarrow> int list \<Rightarrow> entry list" where
  "accepted xs rs = map (\<lambda>((k, v), _). (k, Some v)) (filter (\<lambda>(_, r). r = 0) (zip xs rs))"

lemma accepted_simps [simp]:
  "accepted [] rs = []"
  "accepted ((k, v) # xs) (r # rs) = (if r = 0 then [(k, Some v)] else []) @ accepted xs rs"
  by (simp_all add: accepted_def)

lemma filter_pick:
  "pick P xs = Some (x, ys) \<Longrightarrow> filter P xs = x # filter P ys \<and>
     filter (\<lambda>y. \<not> P y) xs = filter (\<lambda>y. \<not> P y) ys \<and> length xs = Suc (length ys)"
  by (induction xs arbitrary: x ys) (auto split: if_splits option.splits)

locale queue_service =
  fixes valid :: "'s \<Rightarrow> bool"
    and entries :: "'s \<Rightarrow> entry list"
    and pt :: "cstring option \<Rightarrow> cstring \<Rightarrow> 's \<Rightarrow> (int \<times> 's) option"
    and tk :: "cstring option \<Rightarrow> 's \<Rightarrow> (entry option \<times> 's) option"
  assumes put_law: "valid s \<Longrightarrow> \<exists>r s'. pt key val s = Some (r, s') \<and> valid s' \<and>
      (r = 0 \<and> entries s' = entries s @ [(key, Some val)] \<or> r = -1 \<and> entries s' = entries s)"
    and take_law: "valid s \<Longrightarrow> case pick (wanted key) (entries s) of
        None \<Rightarrow> tk key s = Some (None, s)
      | Some (e, es) \<Rightarrow> \<exists>s'. tk key s = Some (Some e, s') \<and> valid s' \<and> entries s' = es"
begin

lemma drain_key:
  "valid s \<Longrightarrow> length (filter (wanted key) (entries s)) \<le> n \<Longrightarrow>
   \<exists>s'. drain (tk key) n s = Some (filter (wanted key) (entries s), s') \<and> valid s' \<and>
     entries s' = filter (\<lambda>e. \<not> wanted key e) (entries s)"
proof (induction n arbitrary: s)
  case 0
  then show ?case by (simp add: filter_empty_conv)
next
  case (Suc n)
  show ?case
  proof (cases "pick (wanted key) (entries s)")
    case None
    with take_law [OF Suc.prems(1), of key] have "tk key s = Some (None, s)" by simp
    moreover from None have "\<forall>e \<in> set (entries s). \<not> wanted key e" by (simp add: pick_None)
    ultimately show ?thesis using Suc.prems(1) by (simp add: filter_empty_conv)
  next
    case (Some p)
    obtain e es where p: "p = (e, es)" by (cases p)
    with take_law [OF Suc.prems(1), of key] Some obtain s1 where
      s1: "tk key s = Some (Some e, s1)" "valid s1" "entries s1 = es" by auto
    note fp = filter_pick [OF Some [unfolded p]]
    with Suc.IH [OF s1(2)] Suc.prems(2) s1 show ?thesis by auto
  qed
qed

lemma drain_all:
  assumes "valid s"
  shows "\<exists>s'. drain (tk None) (length (entries s)) s = Some (entries s, s') \<and> valid s' \<and> entries s' = []"
  using drain_key [OF assms, of None "length (entries s)"] by (simp add: wanted_def item_matches_def)

lemma put_all_entries:
  "valid s \<Longrightarrow> \<exists>rs s'. put_all pt xs s = Some (rs, s') \<and> length rs = length xs \<and>
     set rs \<subseteq> {0, -1} \<and> valid s' \<and> entries s' = entries s @ accepted xs rs"
proof (induction xs arbitrary: s)
  case (Cons x xs)
  obtain k v where x: "x = (k, v)" by force
  from put_law [OF Cons.prems, of k v] obtain r s1 where s1: "pt k v s = Some (r, s1)" "valid s1"
    "r = 0 \<and> entries s1 = entries s @ [(k, Some v)] \<or> r = -1 \<and> entries s1 = entries s" by blast
  from Cons.IH [OF s1(2)] obtain rs s2 where "put_all pt xs s1 = Some (rs, s2)" "length rs = length xs"
    "set rs \<subseteq> {0, -1}" "valid s2" "entries s2 = entries s1 @ accepted xs rs" by blast
  with x s1 show ?case by (intro exI [of _ "r # rs"] exI [of _ s2]) auto
qed simp

lemma fifo:
  assumes "valid s" and "entries s = []"
  shows "\<exists>rs s' s''. put_all pt xs s = Some (rs, s') \<and> length rs = length xs \<and>
    drain (tk None) (length xs) s' = Some (accepted xs rs, s'') \<and> entries s'' = []"
proof -
  from put_all_entries [OF assms(1), of xs] assms(2) obtain rs s' where
    p: "put_all pt xs s = Some (rs, s')" "length rs = length xs" "valid s'" "entries s' = accepted xs rs"
    by auto
  have "length (accepted xs rs) \<le> length (zip xs rs)" unfolding accepted_def length_map by (rule length_filter_le)
  with p(2) have "length (accepted xs rs) \<le> length xs" by simp
  with drain_key [OF p(3), of None "length xs"] p show ?thesis
    by (auto simp: wanted_def item_matches_def)
qed

end

section \<open>The provider\<close>

text \<open>
  The take of \<open>connection_http_callback_take\<close>: \<open>queue_take\<close>, the two getters, and
  \<open>queue_item_free\<close>.
\<close>

definition take_entry ::
  "addr \<Rightarrow> cstring option \<Rightarrow> 'z queue_mem_scheme \<Rightarrow> (entry option \<times> 'z queue_mem_scheme) option" where
  "take_entry q key h = do {
     (item, h) \<leftarrow> queue_take q key h;
     case item of None \<Rightarrow> Some (None, h)
     | Some a \<Rightarrow> do {
         k \<leftarrow> queue_item_get_key a h;
         v \<leftarrow> queue_item_get_value a h;
         h \<leftarrow> queue_item_free a h;
         Some (Some (k, v), h) } }"

definition unlocked :: "'z queue_mem_scheme \<Rightarrow> queue \<Rightarrow> bool" where
  "unlocked h Q \<longleftrightarrow> (\<forall>a \<in> set (items Q). \<forall>i. item_at h a = Some i \<longrightarrow> i_lockcount i = 0)"

definition serving :: "addr \<Rightarrow> 'z queue_mem_scheme \<Rightarrow> bool" where
  "serving q h \<longleftrightarrow> heap_inv h \<and> (\<exists>Q. queue_at h q = Some Q \<and> callbacks Q = [] \<and> unlocked h Q)"

lemma entry_getters:
  "loose h a \<Longrightarrow> queue_item_get_key a h = Some (fst (entry_of h a)) \<and>
     queue_item_get_value a h = Some (snd (entry_of h a))"
  by (auto simp: loose_def queue_item_get_key_def queue_item_get_value_def entry_of_def item_key_def
           split: option.splits)

lemma serving_put:
  assumes "serving q h"
  shows "\<exists>r h'. queue_put run q key val h = Some (r, h') \<and> serving q h' \<and>
    (r = 0 \<and> content h' q = content h q @ [(key, Some val)] \<or> r = -1 \<and> content h' q = content h q)"
proof -
  from assms obtain Q where inv: "heap_inv h" and Q: "queue_at h q = Some Q"
    and cs: "callbacks Q = []" and ul: "unlocked h Q" by (auto simp: serving_def)
  from inv Q show ?thesis
  proof (cases rule: queue_put_cases [where run = run and key = key and val = val])
    case (fail h')
    with inv Q cs ul show ?thesis
      by (intro exI [of _ "-1"] exI [of _ h'])
         (auto simp: serving_def same_store_inv same_store_queue same_store_item unlocked_def
            same_store_view [unfolded same_view_def])
  next
    case (store a h0)
    have inv0: "heap_inv h0" and Q0: "queue_at h0 q = Some Q"
      using same_store_inv [OF inv store(1)] same_store_queue [OF store(1)] Q by auto
    have ck: "callback_key h0 = callback_key h" by (rule same_store_callback_key [OF store(1)])
    have s: "heap_inv (stored q Q a key val h0)"
      by (rule stored_inv [OF inv0 Q0 store(2-4)]) (use store(6) ck in auto)
    have c: "content (stored q Q a key val h0) q = content h q @ [(key, Some val)]"
      using stored_content [OF inv0 Q0 store(2), of key val] same_store_view [OF store(1), of q]
      by (simp add: same_view_def)
    have "unlocked h0 Q" using ul same_store_item [OF store(1)] by (simp add: unlocked_def)
    then have "serving q (stored q Q a key val h0)"
      using s cs by (auto simp: serving_def unlocked_def new_item_def)
    with store(5) c show ?thesis by blast
  qed (use cs in simp)
qed

lemma serving_take:
  assumes "serving q h"
  shows "case pick (wanted key) (content h q) of
      None \<Rightarrow> take_entry q key h = Some (None, h)
    | Some (e, es) \<Rightarrow> \<exists>h'. take_entry q key h = Some (Some e, h') \<and> serving q h' \<and> content h' q = es"
proof -
  from assms obtain Q where inv: "heap_inv h" and Q: "queue_at h q = Some Q"
    and cs: "callbacks Q = []" and ul: "unlocked h Q" by (auto simp: serving_def)
  note ref = queue_take_refines_lemma [OF inv Q, of key, unfolded wanted_fold]
  show ?thesis
  proof (cases "pick (wanted key) (content h q)")
    case None
    with ref show ?thesis by (simp add: take_entry_def)
  next
    case (Some p)
    obtain e es where p: "p = (e, es)" by (cases p)
    with ref Some obtain a i where a: "a \<in> set (items Q)" "item_at h a = Some i"
      and t: "queue_take q key h = Some (Some a, taken q Q a i h)" "entry_of h a = e"
        "content (taken q Q a i h) q = es" by auto
    let ?h = "taken q Q a i h"
    have l: "loose ?h a" using taken_loose [OF inv Q a(2,1)] ul a by (simp add: unlocked_def)
    have inv1: "heap_inv ?h" by (rule taken_inv [OF inv Q a(2,1)])
    have "take_entry q key h = Some (Some e, drop_item a ?h)"
      using t entry_getters [OF l] queue_item_free_loose [OF l] a(2)
      by (auto simp: take_entry_def simp flip: fst_entry_of)
    moreover have "serving q (drop_item a ?h)"
      using drop_item_inv [OF inv1 l] cs ul set_remove1_subset [of a "items Q"] a(2)
      by (auto simp: serving_def unlocked_def)
    moreover have "content (drop_item a ?h) q = es"
      using drop_item_view [OF inv1 l, of q] t(3) by (simp add: same_view_def)
    ultimately show ?thesis using Some p by auto
  qed
qed

interpretation service: queue_service "serving q" "\<lambda>h. content h q" "queue_put run q" "take_entry q"
  for q run
proof (unfold_locales, goal_cases)
  case (1 s key val)
  then show ?case by (rule serving_put)
next
  case (2 s key)
  then show ?case by (rule serving_take)
qed

section \<open>A memory for the witnesses\<close>

text \<open>
  Queue 8 stores two items and has a callback waiting for the key \<open>a\<close>; queue 5 stores one item
  and nobody waits on it.
\<close>

definition shop :: queue_mem where
  "shop = \<lparr>next_addr = 10, alloc_ok = (\<lambda>n. True), alloc_count = 0,
     item_at = [2 \<mapsto> \<lparr>i_key = Some ''b'', i_value = Some ''x'', i_inserted = True,
                       i_owner = Some 8, i_lockcount = 0\<rparr>,
                3 \<mapsto> \<lparr>i_key = None, i_value = Some ''y'', i_inserted = True,
                       i_owner = Some 8, i_lockcount = 0\<rparr>,
                6 \<mapsto> \<lparr>i_key = None, i_value = Some ''z'', i_inserted = True,
                       i_owner = Some 5, i_lockcount = 0\<rparr>,
                7 \<mapsto> \<lparr>i_key = None, i_value = Some ''w'', i_inserted = False,
                       i_owner = Some 5, i_lockcount = 0\<rparr>],
     callback_at = [4 \<mapsto> \<lparr>cb_key = Some ''a'', cb_addcb = Some 7, cb_addcbarg = Some 9, cb_owner = Some 8\<rparr>],
     queue_at = [8 \<mapsto> \<lparr>uuid = replicate 16 0, keyed_count = 1, keyed_callback_count = 1,
                        item_count = 2, callback_count = 1, items = [2, 3], callbacks = [4]\<rparr>,
                 5 \<mapsto> \<lparr>uuid = replicate 16 1, keyed_count = 0, keyed_callback_count = 0,
                        item_count = 1, callback_count = 0, items = [6], callbacks = []\<rparr>],
     rand_bytes = (\<lambda>n. Some (replicate 16 0)), rand_count = 0\<rparr>"

lemma tolower_ab [simp]:
  "tolower (CHR ''a'') = CHR ''a''" "tolower (CHR ''b'') = CHR ''b''"
  by (simp_all add: tolower_def)

lemma shop_inv: "heap_inv shop"
  by (auto simp: heap_inv_def shop_def bounded_def alloc_limit_def queue_ok_def item_linked_def
      callback_linked_def counts_ok_def quiescent_def item_key_def callback_key_def
      callback_accepts_def split: if_splits)

lemma shop_queue:
  "queue_at shop 8 = Some \<lparr>uuid = replicate 16 0, keyed_count = 1, keyed_callback_count = 1,
     item_count = 2, callback_count = 1, items = [2, 3], callbacks = [4]\<rparr>"
  "\<exists>Q. queue_at shop 8 = Some Q" "\<exists>Q. queue_at shop 5 = Some Q"
  by (simp_all add: shop_def)

lemma shop_content:
  "content shop 8 = [(Some ''b'', Some ''x''), (None, Some ''y'')]"
  "content shop 5 = [(None, Some ''z'')]"
  "waiters shop 8 = [(Some ''a'', Some 7, Some 9)]"
  "waiters shop 5 = []"
  by (simp_all add: shop_def content_def waiters_def entry_of_def waiter_of_def)

lemma shop_serving: "serving 5 shop"
  using shop_inv by (auto simp: serving_def shop_def unlocked_def)

lemma shop_loose: "loose shop 7"
  by (simp add: loose_def shop_def)

lemma shop_available: "mem_available shop"
  by (simp add: mem_available_def shop_def alloc_limit_def)

lemmas shop_facts = shop_inv shop_queue shop_content shop_serving shop_loose

section \<open>Properties\<close>

text \<open>
  C1: with memory available or not, \<open>queue_put\<close> with no waiting callback that accepts the key
  returns, keeps every queue in order, leaves the waiters and every other queue alone, and either
  appends the entry (result 0) or, only when an allocation was refused, leaves every structure
  unchanged and leaks nothing (result -1).
\<close>

theorem queue_put_refines:
  assumes inv: "heap_inv h" and ex: "\<exists>Q. queue_at h q = Some Q"
    and none: "\<forall>w \<in> set (waiters h q). \<not> callback_accepts (fst w) key"
  shows "\<exists>r h'. queue_put run q key val h = Some (r, h') \<and> heap_inv h' \<and>
    waiters h' q = waiters h q \<and> (\<forall>p. p \<noteq> q \<longrightarrow> same_view p h h') \<and>
    (r = 0 \<and> content h' q = content h q @ [(key, Some val)] \<or>
     r = -1 \<and> same_store h h' \<and> \<not> mem_available h)"
proof -
  from ex obtain Q where Q: "queue_at h q = Some Q" by blast
  from inv Q show ?thesis
  proof (cases rule: queue_put_cases [where run = run and key = key and val = val])
    case (fail h')
    then show ?thesis
      using same_store_inv [OF inv fail(2)] same_store_view [OF fail(2)]
      by (intro exI [of _ "-1"] exI [of _ h']) (auto simp: same_view_def)
  next
    case (store a h0)
    have inv0: "heap_inv h0" and Q0: "queue_at h0 q = Some Q"
      using same_store_inv [OF inv store(1)] same_store_queue [OF store(1)] Q by auto
    note v0 = same_store_view [OF store(1)]
    have ck: "callback_key h0 = callback_key h" by (rule same_store_callback_key [OF store(1)])
    have s: "heap_inv (stored q Q a key val h0)"
      by (rule stored_inv [OF inv0 Q0 store(2-4)]) (use store(6) ck in auto)
    have v: "p \<noteq> q \<Longrightarrow> same_view p h (stored q Q a key val h0)" for p
      using same_view_trans [OF v0 stored_view] inv0 store(2) by blast
    show ?thesis
      using store(5) s v v0 [of q] stored_content [OF inv0 Q0 store(2), of key val]
      by (intro exI [of _ 0]) (auto simp: same_view_def)
  next
    case (deliver a h0 xs c ys cb f)
    with none Q have False by (auto simp: waiters_def)
    then show ?thesis ..
  qed
qed

theorem queue_put_refines_witness:
  "\<exists>r h'. queue_put (\<lambda>f a arg h. Some h) 8 (Some ''b'') ''v'' shop = Some (r, h') \<and> heap_inv h' \<and>
    waiters h' 8 = waiters shop 8 \<and> (\<forall>p. p \<noteq> 8 \<longrightarrow> same_view p shop h') \<and>
    (r = 0 \<and> content h' 8 = content shop 8 @ [(Some ''b'', Some ''v'')] \<or>
     r = -1 \<and> same_store shop h' \<and> \<not> mem_available shop)"
  by (rule queue_put_refines [OF shop_inv shop_queue(2)]) (simp add: shop_content callback_accepts_def)

lemma put_hands_over:
  assumes inv: "heap_inv h" and Q: "queue_at h q = Some Q"
    and p: "pick (\<lambda>w. callback_accepts (fst w) key) (waiters h q) = Some ((wkey, Some f, arg), ws)"
  shows "(\<exists>h'. queue_put run q key val h = Some (-1, h') \<and> same_store h h' \<and> \<not> mem_available h) \<or>
    (\<exists>a h1. heap_inv h1 \<and> loose h1 a \<and> entry_of h1 a = (key, Some val) \<and>
       content h1 q = content h q \<and> waiters h1 q = ws \<and> (\<forall>p. p \<noteq> q \<longrightarrow> same_view p h h1) \<and>
       queue_put run q key val h = do {
         h2 \<leftarrow> run f a arg h1;
         h3 \<leftarrow> queue_item_free a h2;
         Some (1, h3) })"
proof -
  note ok = heap_inv_queue [OF inv Q]
  from inv Q show ?thesis
  proof (cases rule: queue_put_cases [where run = run and key = key and val = val])
    case (store a h0)
    then have "pick (\<lambda>w. callback_accepts (fst w) key) (waiters h q) = None"
      using Q by (simp add: waiters_def pick_None)
    with p show ?thesis by simp
  next
    case (deliver a h0 xs c ys cb f')
    have inv0: "heap_inv h0" and Q0: "queue_at h0 q = Some Q"
      using same_store_inv [OF inv deliver(1)] same_store_queue [OF deliver(1)] Q by auto
    have w0: "waiter_of h0 = waiter_of h" by (rule same_store_waiter_of [OF deliver(1)])
    have "waiter_of h0 c = (cb_key cb, Some f', cb_addcbarg cb)"
      using deliver(6,7) by (simp add: waiter_of_def)
    with w0 have "waiter_of h c = (cb_key cb, Some f', cb_addcbarg cb)" by simp
    moreover have "pick (\<lambda>w. callback_accepts (fst w) key) (waiters h q) =
        Some (waiter_of h c, map (waiter_of h) (xs @ ys))"
      using Q deliver(5,8,9) by (simp add: waiters_def pick_split)
    ultimately have f: "f = f'" "arg = cb_addcbarg cb" and ws: "ws = map (waiter_of h) (xs @ ys)"
      using p by simp_all
    have c: "c \<in> set (callbacks Q)" using deliver(5) by simp
    note v0 = same_store_view [OF deliver(1)]
    let ?h1 = "handed q Q c cb a key val h0"
    note hf = handed_facts [OF inv0 Q0 deliver(6) c deliver(2-4), where key = key and val = val]
    have "distinct (callbacks Q)" using ok by (simp add: queue_ok_def)
    from handed_waiters [OF Q0 this deliver(5)] w0 ws have w: "waiters ?h1 q = ws" by simp
    have v: "p \<noteq> q \<Longrightarrow> same_view p h ?h1" for p
      using same_view_trans [OF v0 hf(5)] by blast
    show ?thesis
      using hf w v v0 [of q] deliver(10) f
      by (intro disjI2 exI [of _ a] exI [of _ ?h1]) (auto simp: same_view_def)
  qed blast
qed

text \<open>
  C15: \<open>queue_put\<close> with a waiting callback that accepts the key never stores the item.  Unless an
  allocation is refused, it removes the first accepting callback (in the order of the waits) and
  calls it once with an item that holds the entry, on a memory in order where the item is in
  nobody's list; after the callback it frees the item and returns 1.
\<close>

theorem queue_put_delivers:
  assumes inv: "heap_inv h" and ex: "\<exists>Q. queue_at h q = Some Q"
    and p: "pick (\<lambda>w. callback_accepts (fst w) key) (waiters h q) = Some ((wkey, Some f, arg), ws)"
  shows "(\<exists>h'. queue_put run q key val h = Some (-1, h') \<and> same_store h h' \<and> \<not> mem_available h) \<or>
    (\<exists>a h1. heap_inv h1 \<and> loose h1 a \<and> entry_of h1 a = (key, Some val) \<and>
       content h1 q = content h q \<and> waiters h1 q = ws \<and> (\<forall>p. p \<noteq> q \<longrightarrow> same_view p h h1) \<and>
       queue_put run q key val h = do {
         h2 \<leftarrow> run f a arg h1;
         h3 \<leftarrow> queue_item_free a h2;
         Some (1, h3) })"
proof -
  from ex obtain Q where Q: "queue_at h q = Some Q" by blast
  from put_hands_over [OF inv Q p] show ?thesis .
qed

theorem queue_put_delivers_witness:
  "(\<exists>h'. queue_put (\<lambda>f a arg h. Some h) 8 (Some ''a'') ''v'' shop = Some (-1, h') \<and>
      same_store shop h' \<and> \<not> mem_available shop) \<or>
    (\<exists>a h1. heap_inv h1 \<and> loose h1 a \<and> entry_of h1 a = (Some ''a'', Some ''v'') \<and>
       content h1 8 = content shop 8 \<and> waiters h1 8 = [] \<and> (\<forall>p. p \<noteq> 8 \<longrightarrow> same_view p shop h1) \<and>
       queue_put (\<lambda>f a arg h. Some h) 8 (Some ''a'') ''v'' shop = do {
         h2 \<leftarrow> (\<lambda>f a arg h. Some h) (7::fnptr) a (Some 9 :: addr option) h1;
         h3 \<leftarrow> queue_item_free a h2;
         Some (1, h3) })"
  by (rule queue_put_delivers [OF shop_inv shop_queue(2), where wkey = "Some ''a''"])
     (simp add: shop_content callback_accepts_def)

text \<open>
  C2: \<open>queue_take\<close> refines "remove the first entry the key wants": it returns that entry's item,
  unlinked and otherwise as it was, keeps every queue in order and every other queue and all
  waiters as they were; without such an entry it returns NULL and changes nothing.  \<open>queue_peek\<close>
  returns the very item \<open>queue_take\<close> would.
\<close>

theorem queue_take_refines:
  assumes inv: "heap_inv h" and ex: "\<exists>Q. queue_at h q = Some Q"
  shows "case pick (wanted key) (content h q) of
      None \<Rightarrow> queue_take q key h = Some (None, h) \<and> queue_peek q key h = Some None
    | Some (e, es) \<Rightarrow> \<exists>a h'. queue_take q key h = Some (Some a, h') \<and> queue_peek q key h = Some (Some a) \<and>
        entry_of h' a = e \<and> content h' q = es \<and> waiters h' q = waiters h q \<and> heap_inv h' \<and>
        (\<forall>p. p \<noteq> q \<longrightarrow> same_view p h h')"
proof -
  from ex obtain Q where Q: "queue_at h q = Some Q" by blast
  note ref = queue_take_refines_lemma [OF inv Q, of key, unfolded wanted_fold]
  have pk: "queue_peek q key h = map_option fst (queue_take q key h)"
    using inv Q by (cases rule: queue_take_cases [where key = key]) simp_all
  show ?thesis
  proof (cases "pick (wanted key) (content h q)")
    case None
    with ref pk show ?thesis by simp
  next
    case (Some p)
    obtain e es where p: "p = (e, es)" by (cases p)
    with ref Some obtain a i where a: "a \<in> set (items Q)" "item_at h a = Some i"
      and t: "queue_take q key h = Some (Some a, taken q Q a i h)" "entry_of h a = e"
        "content (taken q Q a i h) q = es" "waiters (taken q Q a i h) q = waiters h q" by auto
    with Some p pk taken_inv [OF inv Q a(2,1)] taken_view [OF inv Q a(2,1)] show ?thesis
      by auto
  qed
qed

theorem queue_take_refines_witness:
  "case pick (wanted None) (content shop 8) of
      None \<Rightarrow> queue_take 8 None shop = Some (None, shop) \<and> queue_peek 8 None shop = Some None
    | Some (e, es) \<Rightarrow> \<exists>a h'. queue_take 8 None shop = Some (Some a, h') \<and> queue_peek 8 None shop = Some (Some a) \<and>
        entry_of h' a = e \<and> content h' 8 = es \<and> waiters h' 8 = waiters shop 8 \<and> heap_inv h' \<and>
        (\<forall>p. p \<noteq> 8 \<longrightarrow> same_view p shop h')"
  by (rule queue_take_refines [OF shop_inv shop_queue(2)])

text \<open>
  C16: \<open>queue_wait\<close> with a callback either finds the first entry the key wants, takes it out and
  calls the callback with it at once (result 1, item freed after the call), or registers the
  callback behind the waiters already there (result 0), or, only when an allocation was refused,
  changes nothing (result -1).
\<close>

theorem queue_wait_refines:
  assumes inv: "heap_inv h" and ex: "\<exists>Q. queue_at h q = Some Q"
  shows "case pick (wanted key) (content h q) of
      None \<Rightarrow> \<exists>r h'. queue_wait run q key (Some f) arg h = Some (r, h') \<and> heap_inv h' \<and>
        content h' q = content h q \<and> (\<forall>p. p \<noteq> q \<longrightarrow> same_view p h h') \<and>
        (r = 0 \<and> waiters h' q = waiters h q @ [(key, Some f, arg)] \<or>
         r = -1 \<and> same_store h h' \<and> \<not> mem_available h)
    | Some (e, es) \<Rightarrow> \<exists>a h1. queue_take q key h = Some (Some a, h1) \<and> entry_of h1 a = e \<and>
        content h1 q = es \<and> heap_inv h1 \<and>
        queue_wait run q key (Some f) arg h = do {
          h2 \<leftarrow> run f a arg h1;
          h3 \<leftarrow> queue_item_free a h2;
          Some (1, h3) }"
proof -
  from ex obtain Q where Q: "queue_at h q = Some Q" by blast
  note ref = queue_take_refines_lemma [OF inv Q, of key, unfolded wanted_fold]
  show ?thesis
  proof (cases "pick (wanted key) (content h q)")
    case None
    with ref have none: "queue_take q key h = Some (None, h)" by simp
    from inv Q show ?thesis
    proof (cases rule: queue_wait_cases [where run = run and key = key and f = f and arg = arg])
      case (deliver xs a ys i)
      with None Q show ?thesis by (auto simp: pick_None content_def wanted_def item_key_def)
    next
      case (fail h')
      with None same_store_inv [OF inv fail(2)] same_store_view [OF fail(2)] show ?thesis
        by (auto simp: same_view_def)
    next
      case (wait c h0)
      have inv0: "heap_inv h0" and Q0: "queue_at h0 q = Some Q"
        using same_store_inv [OF inv wait(1)] same_store_queue [OF wait(1)] Q by auto
      note v0 = same_store_view [OF wait(1)]
      have "item_key h0 = item_key h"
        using same_store_item [OF wait(1)] by (simp add: item_key_def fun_eq_iff)
      with wait(5) have "heap_inv (waiting q Q c key f arg h0)"
        by (intro waiting_inv [OF inv0 Q0 wait(2-4)]) simp
      moreover have "p \<noteq> q \<Longrightarrow> same_view p h (waiting q Q c key f arg h0)" for p
        using same_view_trans [OF v0 waiting_view] inv0 wait(2) by blast
      ultimately show ?thesis
        using None wait(6) v0 [of q] waiting_waiters [OF inv0 Q0 wait(2), of key f arg]
        by (auto simp: same_view_def)
    qed
  next
    case (Some p)
    obtain e es where p: "p = (e, es)" by (cases p)
    with ref Some obtain a i where a: "a \<in> set (items Q)" "item_at h a = Some i"
      and t: "queue_take q key h = Some (Some a, taken q Q a i h)" "entry_of h a = e"
        "content (taken q Q a i h) q = es" by auto
    have "queue_wait run q key (Some f) arg h = do {
        h2 \<leftarrow> run f a arg (taken q Q a i h);
        h3 \<leftarrow> queue_item_free a h2;
        Some (1, h3) }"
      using t(1) by (simp add: queue_wait_def)
    with Some p t a taken_inv [OF inv Q a(2,1)] show ?thesis by auto
  qed
qed

theorem queue_wait_refines_witness:
  "case pick (wanted (Some ''c'')) (content shop 8) of
      None \<Rightarrow> \<exists>r h'. queue_wait (\<lambda>f a arg h. Some h) 8 (Some ''c'') (Some 7) None shop = Some (r, h') \<and> heap_inv h' \<and>
        content h' 8 = content shop 8 \<and> (\<forall>p. p \<noteq> 8 \<longrightarrow> same_view p shop h') \<and>
        (r = 0 \<and> waiters h' 8 = waiters shop 8 @ [(Some ''c'', Some 7, None)] \<or>
         r = -1 \<and> same_store shop h' \<and> \<not> mem_available shop)
    | Some (e, es) \<Rightarrow> \<exists>a h1. queue_take 8 (Some ''c'') shop = Some (Some a, h1) \<and> entry_of h1 a = e \<and>
        content h1 8 = es \<and> heap_inv h1 \<and>
        queue_wait (\<lambda>f a arg h. Some h) 8 (Some ''c'') (Some 7) None shop = do {
          h2 \<leftarrow> (\<lambda>f a arg h. Some h) (7 :: fnptr) a (None :: addr option) h1;
          h3 \<leftarrow> queue_item_free a h2;
          Some (1, h3) }"
  by (rule queue_wait_refines [OF shop_inv shop_queue(2)])

section \<open>Callbacks\<close>

text \<open>What the queue expects of a callback: it returns, and leaves the item to the queue.\<close>

definition callback_contract :: "'z runner \<Rightarrow> bool" where
  "callback_contract run \<longleftrightarrow> (\<forall>f a arg h. heap_inv h \<and> loose h a \<longrightarrow>
     (\<exists>h'. run f a arg h = Some h' \<and> heap_inv h' \<and> loose h' a))"

lemma contract_run:
  assumes "callback_contract run" and "heap_inv h" and "loose h a"
  shows "\<exists>h'. do { h2 \<leftarrow> run f a arg h; h3 \<leftarrow> queue_item_free a h2; Some (1 :: int, h3) } = Some (1, h') \<and>
    heap_inv h'"
proof -
  from assms obtain h2 where "run f a arg h = Some h2" "heap_inv h2" "loose h2 a"
    unfolding callback_contract_def by blast
  then show ?thesis using queue_item_free_loose drop_item_inv by fastforce
qed

lemma put_in_contract:
  assumes c: "callback_contract run" and inv: "heap_inv h" and Q: "queue_at h q = Some Q"
  shows "\<exists>r h'. queue_put run q key val h = Some (r, h') \<and> r \<in> {-1, 0, 1} \<and> heap_inv h'"
  using inv Q
proof (cases rule: queue_put_cases [where run = run and key = key and val = val])
  case (fail h')
  with same_store_inv [OF inv] show ?thesis by auto
next
  case (store a h0)
  have inv0: "heap_inv h0" and Q0: "queue_at h0 q = Some Q"
    using same_store_inv [OF inv store(1)] same_store_queue [OF store(1)] Q by auto
  have ck: "callback_key h0 = callback_key h" by (rule same_store_callback_key [OF store(1)])
  have "heap_inv (stored q Q a key val h0)"
    by (rule stored_inv [OF inv0 Q0 store(2-4)]) (use store(6) ck in auto)
  with store(5) show ?thesis by auto
next
  case (deliver a h0 xs c ys cb f')
  have inv0: "heap_inv h0" and Q0: "queue_at h0 q = Some Q"
    using same_store_inv [OF inv deliver(1)] same_store_queue [OF deliver(1)] Q by auto
  have c': "c \<in> set (callbacks Q)" using deliver(5) by simp
  from contract_run [OF c handed_facts(1,2) [OF inv0 Q0 deliver(6) c' deliver(2-4)]] deliver(10)
  show ?thesis by (metis insertCI)
qed

lemma wait_in_contract:
  assumes c: "callback_contract run" and inv: "heap_inv h" and Q: "queue_at h q = Some Q"
    and ul: "unlocked h Q"
  shows "\<exists>r h'. queue_wait run q key (Some f) arg h = Some (r, h') \<and> r \<in> {-1, 0, 1} \<and> heap_inv h'"
  using inv Q
proof (cases rule: queue_wait_cases [where run = run and key = key and f = f and arg = arg])
  case (deliver xs a ys i)
  have a: "a \<in> set (items Q)" using deliver(1) by simp
  have "loose (taken q Q a i h) a"
    using taken_loose [OF inv Q deliver(2) a] ul a deliver(2) by (simp add: unlocked_def)
  from contract_run [OF c taken_inv [OF inv Q deliver(2) a] this] deliver(5)
  show ?thesis by (metis insertCI)
next
  case (fail h')
  with same_store_inv [OF inv] show ?thesis by auto
next
  case (wait c h0)
  have inv0: "heap_inv h0" and Q0: "queue_at h0 q = Some Q"
    using same_store_inv [OF inv wait(1)] same_store_queue [OF wait(1)] Q by auto
  have "item_key h0 = item_key h"
    using same_store_item [OF wait(1)] by (simp add: item_key_def fun_eq_iff)
  with wait(5) have "heap_inv (waiting q Q c key f arg h0)"
    by (intro waiting_inv [OF inv0 Q0 wait(2-4)]) simp
  with wait(6) show ?thesis by auto
qed

text \<open>
  C17: when the callbacks keep their side (they return and do not free the item they are handed),
  every \<open>queue_put\<close> and \<open>queue_wait\<close> returns, with -1, 0 or 1, without a double free or any other
  undefined behaviour, and every queue is in order again.
\<close>

theorem callbacks_in_contract:
  assumes c: "callback_contract run" and inv: "heap_inv h" and Q: "queue_at h q = Some Q"
    and ul: "unlocked h Q"
  shows "(\<exists>r h'. queue_put run q key val h = Some (r, h') \<and> r \<in> {-1, 0, 1} \<and> heap_inv h') \<and>
    (\<exists>r h'. queue_wait run q key (Some f) arg h = Some (r, h') \<and> r \<in> {-1, 0, 1} \<and> heap_inv h')"
  using put_in_contract [OF c inv Q] wait_in_contract [OF c inv Q ul] by blast

lemma returning_contract: "callback_contract (\<lambda>f a arg h. Some h)"
  by (simp add: callback_contract_def)

lemma shop_unlocked: "queue_at shop 8 = Some Q \<Longrightarrow> unlocked shop Q"
  by (auto simp: shop_def unlocked_def)

theorem callbacks_in_contract_witness:
  "(\<exists>r h'. queue_put (\<lambda>f a arg h. Some h) 8 (Some ''a'') ''v'' shop = Some (r, h') \<and>
      r \<in> {-1, 0, 1} \<and> heap_inv h') \<and>
   (\<exists>r h'. queue_wait (\<lambda>f a arg h. Some h) 8 (Some ''a'') (Some 7) None shop = Some (r, h') \<and>
      r \<in> {-1, 0, 1} \<and> heap_inv h')"
  by (rule callbacks_in_contract [OF returning_contract shop_inv shop_queue(1)
        shop_unlocked [OF shop_queue(1)]])

text \<open>
  A callback that frees the item it is handed, as a queue callback of the websocket side does,
  breaks both operations: \<open>queue_put\<close> with a waiter for the key and \<open>queue_wait\<close> with an entry for the
  key free the item a second time, so neither has a defined outcome once the memory is available.
\<close>

theorem freeing_callback_double_free:
  assumes inv: "heap_inv h" and Q: "queue_at h q = Some Q" and ul: "unlocked h Q"
    and frees: "\<And>a arg g. heap_inv g \<Longrightarrow> loose g a \<Longrightarrow> \<exists>g'. run f a arg g = queue_item_free a g' \<and> loose g' a"
  shows "(\<forall>wkey arg ws. pick (\<lambda>w. callback_accepts (fst w) key) (waiters h q) = Some ((wkey, Some f, arg), ws) \<longrightarrow>
        mem_available h \<longrightarrow> queue_put run q key val h = None) \<and>
    (\<forall>arg. pick (wanted key) (content h q) \<noteq> None \<longrightarrow> queue_wait run q key (Some f) arg h = None)"
proof -
  have twice: "do { h2 \<leftarrow> run f a arg g; h3 \<leftarrow> queue_item_free a h2; Some (1 :: int, h3) } = None"
    if "heap_inv g" "loose g a" for a arg g
  proof -
    from frees [OF that] obtain g' where "run f a arg g = queue_item_free a g'" "loose g' a" by blast
    then show ?thesis by (simp add: queue_item_free_loose drop_item_twice)
  qed
  have "queue_wait run q key (Some f) arg h = None" if "pick (wanted key) (content h q) \<noteq> None" for arg
    using inv Q
  proof (cases rule: queue_wait_cases [where run = run and key = key and f = f and arg = arg])
    case (deliver xs a ys i)
    have a: "a \<in> set (items Q)" using deliver(1) by simp
    have "loose (taken q Q a i h) a"
      using taken_loose [OF inv Q deliver(2) a] ul a deliver(2) by (simp add: unlocked_def)
    from twice [OF taken_inv [OF inv Q deliver(2) a] this] deliver(5) show ?thesis by simp
  qed (use that Q in \<open>auto simp: pick_None content_def wanted_def\<close>)
  moreover have "queue_put run q key val h = None"
    if p: "pick (\<lambda>w. callback_accepts (fst w) key) (waiters h q) = Some ((wkey, Some f, arg), ws)"
      and m: "mem_available h" for wkey arg ws
    using put_hands_over [OF inv Q p, of run val] m twice by auto
  ultimately show ?thesis by blast
qed


theorem freeing_callback_double_free_witness:
  "queue_put (\<lambda>f a arg. queue_item_free a) 8 (Some ''a'') ''v'' shop = None \<and>
    queue_wait (\<lambda>f a arg. queue_item_free a) 8 (Some ''b'') (Some 7) None shop = None"
proof
  have frees: "\<exists>g'. queue_item_free a g = queue_item_free a g' \<and> loose g' a" if "loose g a"
    for a and g :: queue_mem using that by blast
  note * = freeing_callback_double_free [where run = "\<lambda>f a arg. queue_item_free a" and f = 7,
      OF shop_inv shop_queue(1) shop_unlocked [OF shop_queue(1)] frees]
  show "queue_put (\<lambda>f a arg. queue_item_free a) 8 (Some ''a'') ''v'' shop = None"
    using * [THEN conjunct1, rule_format, where key = "Some ''a''" and wkey = "Some ''a''" and arg = "Some 9" and ws = "[]"]
    by (simp add: shop_content callback_accepts_def shop_available)
  show "queue_wait (\<lambda>f a arg. queue_item_free a) 8 (Some ''b'') (Some 7) None shop = None"
    using * [THEN conjunct2, rule_format, of "Some ''b''" None] by (simp add: shop_content wanted_def item_matches_def)
qed

section \<open>Locks\<close>

fun lock_times :: "nat \<Rightarrow> addr \<Rightarrow> 'z queue_mem_scheme \<Rightarrow> 'z queue_mem_scheme option" where
  "lock_times 0 a h = Some h"
| "lock_times (Suc n) a h = do { (_, h) \<leftarrow> queue_item_lock a h; lock_times n a h }"

fun unlock_times :: "nat \<Rightarrow> addr \<Rightarrow> 'z queue_mem_scheme \<Rightarrow> 'z queue_mem_scheme option" where
  "unlock_times 0 a h = Some h"
| "unlock_times (Suc n) a h = do { h \<leftarrow> queue_item_unlock a h; unlock_times n a h }"

lemma set_item_id: "item_at h a = Some i \<Longrightarrow> set_item a i h = h"
  by (simp add: set_item_def fun_upd_idem)

lemma lock_times_eq:
  "item_at h a = Some i \<Longrightarrow>
   lock_times n a h = Some (set_item a (i\<lparr>i_lockcount := i_lockcount i + int n\<rparr>) h)"
  by (induction n arbitrary: h i) (simp_all add: queue_item_lock_def set_item_id algebra_simps)

lemma unlock_times_eq:
  "item_at h a = Some i \<Longrightarrow> int m < i_lockcount i \<Longrightarrow>
   unlock_times m a h = Some (set_item a (i\<lparr>i_lockcount := i_lockcount i - int m\<rparr>) h)"
proof (induction m arbitrary: h i)
  case (Suc m)
  let ?i = "i\<lparr>i_lockcount := i_lockcount i - 1\<rparr>"
  have "queue_item_unlock a h = Some (set_item a ?i h)"
    using Suc.prems by (simp add: queue_item_unlock_def Let_def)
  moreover have "unlock_times m a (set_item a ?i h) =
      Some (set_item a (?i\<lparr>i_lockcount := i_lockcount ?i - int m\<rparr>) (set_item a ?i h))"
    by (rule Suc.IH) (use Suc.prems in auto)
  ultimately show ?case by (simp add: algebra_simps)
qed (simp add: set_item_id)

lemma unlock_last:
  assumes "item_at h a = Some i" and "\<not> i_inserted i" and "i_lockcount i = 1"
  shows "queue_item_unlock a h = Some (drop_item a h)"
  using assms by (simp add: queue_item_unlock_def queue_item_free_def queue_item_free_int_def
      free_item_def drop_item_def set_item_def Let_def)

lemma unlock_times_add:
  "unlock_times (m + n) a h = do { h \<leftarrow> unlock_times m a h; unlock_times n a h }"
  by (induction m arbitrary: h) (simp_all split: Option.bind_split)



lemma peek_lock:
  "item_at h a = Some i \<Longrightarrow> i_key j = i_key i \<Longrightarrow> scan_items (set_item a j h) key xs = scan_items h key xs"
  by (induction xs) (auto split: Option.bind_split)

text \<open>
  C19: a consumer that peeks at an item and locks it keeps it alive across another consumer's take and
  free; its unlock then frees the item.  The two consumers together leave the memory the take and
  free alone would have left.
\<close>

theorem lock_across_take:
  assumes inv: "heap_inv h" and Q: "queue_at h q = Some Q" and ul: "unlocked h Q"
    and pk: "queue_peek q key h = Some (Some a)"
  shows "do { (_, h1) \<leftarrow> queue_item_lock a h; (x, h2) \<leftarrow> queue_take q key h1; h3 \<leftarrow> queue_item_free a h2;
              i \<leftarrow> item_at h3 a; h4 \<leftarrow> queue_item_unlock a h3; Some (x, i_value i, h4) } =
         do { (x, h1) \<leftarrow> queue_take q key h; i \<leftarrow> item_at h1 a; h2 \<leftarrow> queue_item_free a h1;
              Some (x, i_value i, h2) }"
  using inv Q
proof (cases rule: queue_take_cases [where key = key])
  case (some xs b ys i)
  with pk have ab: "b = a" by simp
  have a: "a \<in> set (items Q)" using some(1) ab by simp
  have lc: "i_lockcount i = 0" using ul a some(2) ab by (simp add: unlocked_def)
  let ?i = "i\<lparr>i_lockcount := 1\<rparr>"
  let ?h = "set_item a ?i h"
  have Qh: "queue_at ?h q = Some Q" using Q by simp
  have ik: "item_key ?h = item_key h" using some(2) ab by (auto simp: item_key_def fun_eq_iff)
  have lk: "queue_item_lock a h = Some (0, ?h)" using some(2) lc ab by (simp add: queue_item_lock_def)
  have il: "item_linked ?h p x = item_linked h p x" for p x
    using some(2) ab by (auto simp: item_linked_def)
  have inv1: "heap_inv ?h"
  proof (rule heap_inv_update [OF inv, of _ q])
    show "bounded ?h" using heap_inv_bounded [OF inv] some(2) ab by (auto simp: bounded_def dom_def)
    show "queue_ok ?h q P" if "queue_at ?h q = Some P" for P
      using heap_inv_queue [OF inv Q] that Q il ik
      by (auto simp: queue_ok_def counts_ok_def quiescent_def callback_linked_def callback_key_def)
    show "item_at ?h x = item_at h x" if "p \<noteq> q" "item_linked h p x" for x p
    proof -
      have "item_linked h q a" using heap_inv_queue [OF inv Q] a by (simp add: queue_ok_def)
      with that item_linked_owner [of h p x q] show ?thesis by auto
    qed
  qed auto
  have pe: "queue_peek q key ?h = queue_peek q key h"
    using some(2) ab peek_lock [of h a i ?i] by (simp add: queue_peek_def cong: if_cong)
  have t1: "queue_take q key ?h = Some (Some a, taken q Q a ?i ?h)"
    using inv1 Qh
  proof (cases rule: queue_take_cases [where key = key])
    case none
    with pk pe show ?thesis by simp
  next
    case (some xs' a' ys' i')
    with pk pe show ?thesis by simp
  qed
  let ?t = "taken q Q a ?i ?h"
  have "queue_item_free a ?t = Some ?t" by (simp add: taken_def queue_item_free_def)
  moreover have "queue_item_unlock a ?t = Some (drop_item a ?t)"
    by (rule unlock_last [of _ _ "?i\<lparr>i_inserted := False\<rparr>"]) (simp_all add: taken_def)
  moreover have "queue_item_free a (taken q Q a i h) = Some (drop_item a (taken q Q a i h))"
    using taken_loose [OF inv Q _ a lc] some(2) ab by (simp add: queue_item_free_loose)
  moreover have "drop_item a ?t = drop_item a (taken q Q a i h)"
    by (simp add: drop_item_def taken_def set_item_def set_queue_def)
  ultimately show ?thesis using lk t1 some(5) ab by (simp add: taken_def)
qed (use pk in simp)

theorem lock_across_take_witness:
  "do { (_, h1) \<leftarrow> queue_item_lock 2 shop; (x, h2) \<leftarrow> queue_take 8 None h1; h3 \<leftarrow> queue_item_free 2 h2;
        i \<leftarrow> item_at h3 2; h4 \<leftarrow> queue_item_unlock 2 h3; Some (x, i_value i, h4) } =
   do { (x, h1) \<leftarrow> queue_take 8 None shop; i \<leftarrow> item_at h1 2; h2 \<leftarrow> queue_item_free 2 h1;
        Some (x, i_value i, h2) }"
  by (rule lock_across_take [OF shop_inv shop_queue(1) shop_unlocked [OF shop_queue(1)]])
     (simp add: queue_peek_def shop_def item_matches_def)

section \<open>Whole queues\<close>

text \<open>
  C30: \<open>queue_free\<close> returns (its two loops end), and frees exactly the queue, the items it stores and
  the callbacks that wait on it: no other structure is touched, and what is left is in order.
\<close>

theorem queue_free_releases:
  assumes inv: "heap_inv h" and Q: "queue_at h q = Some Q"
  shows "\<exists>h'. queue_free q h = Some h' \<and> heap_inv h' \<and> queue_at h' = (queue_at h)(q := None) \<and>
    item_at h' = item_at h |` (- set (items Q)) \<and>
    callback_at h' = callback_at h |` (- set (callbacks Q)) \<and>
    (\<forall>p. p \<noteq> q \<longrightarrow> same_view p h h')"
  using queue_free_eq [OF inv Q] released_inv [OF inv Q] released_view [OF inv Q] by auto

theorem queue_free_releases_witness:
  "\<exists>h'. queue_free 8 shop = Some h' \<and> heap_inv h' \<and> queue_at h' = (queue_at shop)(8 := None) \<and>
    item_at h' = item_at shop |` (- {2, 3}) \<and> callback_at h' = callback_at shop |` (- {4}) \<and>
    (\<forall>p. p \<noteq> 8 \<longrightarrow> same_view p shop h')"
  using queue_free_releases [OF shop_inv shop_queue(1)] by simp

text \<open>
  \<open>queue_new\<close> on a memory in order returns NULL only when an allocation was refused or (for a
  random id) \<open>RAND_bytes\<close> failed, and then changes no structure; otherwise it returns a fresh
  address with an empty queue on which nobody waits and leaves every other queue alone.  The id of the new queue is
  the one given, or 16 random bytes with the version (4) and variant (10) bits of RFC 4122.
\<close>

theorem queue_new_creates:
  assumes inv: "heap_inv h" and r: "rand_ok h" and len: "\<forall>b. qid = Some b \<longrightarrow> length b = 16"
  shows "(\<exists>h'. queue_new qid h = Some (None, h') \<and> same_store h h' \<and>
      (\<not> mem_available h \<or> (qid = None \<and> rand_bytes h (rand_count h) = None))) \<or>
    (\<exists>q h' Q. queue_new qid h = Some (Some q, h') \<and> queue_at h q = None \<and> heap_inv h' \<and>
      queue_at h' = (queue_at h)(q \<mapsto> Q) \<and> content h' q = [] \<and> waiters h' q = [] \<and>
      (\<forall>p. p \<noteq> q \<longrightarrow> same_view p h h') \<and>
      (case qid of Some b \<Rightarrow> uuid Q = b
       | None \<Rightarrow> \<exists>b. rand_bytes h (rand_count h) = Some b \<and> uuid Q ! 6 AND 0xf0 = 0x40 \<and>
           uuid Q ! 8 AND 0xc0 = 0x80 \<and> (\<forall>i < 16. i \<noteq> 6 \<and> i \<noteq> 8 \<longrightarrow> uuid Q ! i = b ! i)))"
  using inv
proof (cases rule: queue_new_cases [where qid = qid])
  case (fail h')
  then show ?thesis by (auto simp: fresh_uuid_def split: option.splits)
next
  case (new q h0 b)
  let ?Q = "zero_queue\<lparr>uuid := b\<rparr>"
  let ?h = "set_queue q ?Q h0"
  note v0 = same_store_view [OF new(3)]
  have inv0: "heap_inv h0" by (rule same_store_inv [OF inv new(3)])
  have len16: "length b = 16"
    using new(2) len r by (auto simp: fresh_uuid_def uuid4_def rand_ok_def split: option.splits)
  have inv': "heap_inv ?h"
    by (rule new_queue_inv [OF inv0 _ new(5,6) len16]) (simp add: same_store_queue [OF new(3)] new(4))
  have view: "p \<noteq> q \<Longrightarrow> same_view p h ?h" for p
    using same_view_trans [OF v0 new_queue_view] by blast
  have at: "queue_at ?h = (queue_at h)(q \<mapsto> ?Q)"
    using same_store_queue [OF new(3)] by (simp add: fun_eq_iff)
  have bits: "((x AND 0x0f) OR 0x40) AND 0xf0 = 0x40" "((x AND 0x3f) OR 0x80) AND 0xc0 = 0x80"
    for x :: byte by (simp_all add: bit.conj_disj_distrib2 and.assoc)
  have ids: "case qid of Some b' \<Rightarrow> uuid ?Q = b'
       | None \<Rightarrow> \<exists>b'. rand_bytes h (rand_count h) = Some b' \<and> uuid ?Q ! 6 AND 0xf0 = 0x40 \<and>
           uuid ?Q ! 8 AND 0xc0 = 0x80 \<and> (\<forall>i < 16. i \<noteq> 6 \<and> i \<noteq> 8 \<longrightarrow> uuid ?Q ! i = b' ! i)"
  proof (cases qid)
    case None
    with new(2) obtain b' where b': "rand_bytes h (rand_count h) = Some b'" "b = uuid4 b'"
      by (auto simp: fresh_uuid_def)
    with r have "length b' = 16" by (auto simp: rand_ok_def)
    with b' None bits show ?thesis by (auto simp: uuid4_def)
  qed (use new(2) in \<open>simp add: fresh_uuid_def\<close>)
  show ?thesis
    using new(1,4) inv' at view ids new_queue_empty [of q b h0]
    by (intro disjI2 exI [of _ q] exI [of _ ?h] exI [of _ ?Q]) auto
qed

lemma shop_rand: "rand_ok shop"
  by (simp add: rand_ok_def shop_def)

theorem queue_new_creates_witness:
  "(\<exists>h'. queue_new None shop = Some (None, h') \<and> same_store shop h' \<and>
      (\<not> mem_available shop \<or> (None = (None :: byte list option) \<and> rand_bytes shop (rand_count shop) = None))) \<or>
    (\<exists>q h' Q. queue_new None shop = Some (Some q, h') \<and> queue_at shop q = None \<and> heap_inv h' \<and>
      queue_at h' = (queue_at shop)(q \<mapsto> Q) \<and> content h' q = [] \<and> waiters h' q = [] \<and>
      (\<forall>p. p \<noteq> q \<longrightarrow> same_view p shop h') \<and>
      (case None of Some b \<Rightarrow> uuid Q = b
       | None \<Rightarrow> \<exists>b. rand_bytes shop (rand_count shop) = Some b \<and> uuid Q ! 6 AND 0xf0 = 0x40 \<and>
           uuid Q ! 8 AND 0xc0 = 0x80 \<and> (\<forall>i < 16. i \<noteq> 6 \<and> i \<noteq> 8 \<longrightarrow> uuid Q ! i = b ! i)))"
  by (rule queue_new_creates [OF shop_inv shop_rand]) simp

section \<open>Sequences of calls\<close>

text \<open>
  C3: first in, first out.  On an empty queue nobody waits on, putting any list of entries and then
  taking without a key as often returns exactly the entries whose put reported success, in the
  order of the puts, and leaves the queue empty; the operations always return.
\<close>

theorem queue_fifo:
  assumes "serving q h" and "content h q = []"
  shows "\<exists>rs h' h''. put_all (queue_put run q) xs h = Some (rs, h') \<and> length rs = length xs \<and>
    drain (take_entry q None) (length xs) h' = Some (accepted xs rs, h'') \<and> content h'' q = []"
  using assms by (rule service.fifo)

text \<open>
  C29: taking by key.  Enough takes for one key return every entry the key wants, oldest first, and
  leave every other entry in place and in order.
\<close>

theorem queue_drain_key:
  assumes "serving q h" and "length (filter (wanted key) (content h q)) \<le> n"
  shows "\<exists>h'. drain (take_entry q key) n h = Some (filter (wanted key) (content h q), h') \<and>
    serving q h' \<and> content h' q = filter (\<lambda>e. \<not> wanted key e) (content h q)"
  using assms by (rule service.drain_key)

theorem queue_drain_key_witness:
  "\<exists>h'. drain (take_entry 5 None) 3 shop = Some (filter (wanted None) (content shop 5), h') \<and>
    serving 5 h' \<and> content h' 5 = filter (\<lambda>e. \<not> wanted None e) (content shop 5)"
  by (rule queue_drain_key [OF shop_serving]) (simp add: shop_content)

definition empty_shop :: queue_mem where
  "empty_shop = \<lparr>next_addr = 10, alloc_ok = (\<lambda>n. n \<noteq> 3), alloc_count = 0,
     item_at = Map.empty, callback_at = Map.empty,
     queue_at = [8 \<mapsto> \<lparr>uuid = replicate 16 0, keyed_count = 0, keyed_callback_count = 0,
       item_count = 0, callback_count = 0, items = [], callbacks = []\<rparr>],
     rand_bytes = (\<lambda>n. None), rand_count = 0\<rparr>"

lemma empty_shop_facts: "serving 8 empty_shop" "content empty_shop 8 = []"
  by (auto simp: serving_def heap_inv_def empty_shop_def bounded_def alloc_limit_def queue_ok_def
      counts_ok_def quiescent_def unlocked_def content_def split: if_splits)

theorem queue_fifo_witness:
  "\<exists>rs h' h''. put_all (queue_put (\<lambda>f a arg h. Some h) 8) [(None, ''x''), (Some ''k'', ''y'')] empty_shop = Some (rs, h') \<and>
    length rs = length [(None, ''x''), (Some ''k'', ''y'')] \<and>
    drain (take_entry 8 None) (length [(None, ''x''), (Some ''k'', ''y'')]) h' =
      Some (accepted [(None, ''x''), (Some ''k'', ''y'')] rs, h'') \<and> content h'' 8 = []"
  by (rule queue_fifo [OF empty_shop_facts])

end
