(* ===== verification/Uuid.thy ===== *)
theory Uuid
  imports Prelude
begin

text \<open>
  The textual form of a queue id: \<open>queue_get_uuid\<close> of \<open>src/queue.c\<close>, which prints the 16 id
  bytes with \<open>sprintf\<close>, and the \<open>sscanf\<close> part of \<open>manager_queue_get\<close> of
  \<open>src/manager.c\<close>, which reads them back.  Both go through integers of the machine, so the
  model has two parameters of the platform: bytes are stored least significant first, and
  \<open>L\<close> is \<open>sizeof(unsigned long)\<close>, 4 on Windows and on 32-bit systems, 8 on 64-bit Unix.
  \<open>sscanf\<close> and \<open>sprintf\<close> follow ISO C.
\<close>

section \<open>Integers in memory\<close>

fun le_value :: "byte list \<Rightarrow> nat" where
  "le_value [] = 0"
| "le_value (b # bs) = unat b + 256 * le_value bs"

fun le_bytes :: "nat \<Rightarrow> nat \<Rightarrow> byte list" where
  "le_bytes 0 v = []"
| "le_bytes (Suc n) v = of_nat (v mod 256) # le_bytes n (v div 256)"

text \<open>Reading and writing \<open>n\<close> bytes of a buffer at an offset.\<close>

definition load :: "byte list \<Rightarrow> nat \<Rightarrow> nat \<Rightarrow> nat" where
  "load r off n = le_value (take n (drop off r))"

definition store :: "byte list \<Rightarrow> nat \<Rightarrow> byte list \<Rightarrow> byte list" where
  "store r off bs = take off r @ bs @ drop (off + length bs) r"

text \<open>\<open>htonl\<close> and \<open>htons\<close> take a 32-bit and a 16-bit value: a wider argument is truncated.\<close>

definition htonl :: "nat \<Rightarrow> nat" where
  "htonl v = le_value (rev (le_bytes 4 v))"

definition htons :: "nat \<Rightarrow> nat" where
  "htons v = le_value (rev (le_bytes 2 v))"

section \<open>Printing\<close>

definition hex_digit :: "nat \<Rightarrow> char" where
  "hex_digit n = ''0123456789abcdef'' ! n"

fun hex_digits :: "nat \<Rightarrow> cstring" where
  "hex_digits n = (if n < 16 then [hex_digit n] else hex_digits (n div 16) @ [hex_digit (n mod 16)])"

declare hex_digits.simps [simp del]

text \<open>The conversion \<open>%0wx\<close>.\<close>

definition fmt_hex :: "nat \<Rightarrow> nat \<Rightarrow> cstring" where
  "fmt_hex w v = replicate (w - length (hex_digits v)) (CHR ''0'') @ hex_digits v"

definition uuid_text :: "nat \<Rightarrow> byte list \<Rightarrow> cstring" where
  "uuid_text L u =
     fmt_hex 8 (htonl (load u 0 L)) @ ''-'' @
     fmt_hex 4 (htons (load u 4 2)) @ ''-'' @
     fmt_hex 4 (htons (load u 6 2)) @ ''-'' @
     fmt_hex 4 (htons (load u 8 2)) @ ''-'' @
     fmt_hex 2 (unat (u ! 10)) @ fmt_hex 2 (unat (u ! 11)) @ fmt_hex 2 (unat (u ! 12)) @
     fmt_hex 2 (unat (u ! 13)) @ fmt_hex 2 (unat (u ! 14)) @ fmt_hex 2 (unat (u ! 15))"

section \<open>Scanning\<close>

definition hex_val :: "char \<Rightarrow> nat option" where
  "hex_val c = (let n = of_char c :: nat in
     if 48 \<le> n \<and> n \<le> 57 then Some (n - 48)
     else if 97 \<le> n \<and> n \<le> 102 then Some (n - 87)
     else if 65 \<le> n \<and> n \<le> 70 then Some (n - 55)
     else None)"

definition is_hex :: "char \<Rightarrow> bool" where
  "is_hex c \<longleftrightarrow> hex_val c \<noteq> None"

definition hex_value :: "cstring \<Rightarrow> nat" where
  "hex_value ds = foldl (\<lambda>v c. 16 * v + the (hex_val c)) 0 ds"

text \<open>
  The conversion \<open>%wx\<close> of \<open>sscanf\<close>: white space is skipped, then at most \<open>w\<close> characters
  form an optional sign, an optional \<open>0x\<close> and hexadecimal digits.  The result has the sign,
  the magnitude and the rest of the input; \<open>None\<close> is a matching failure.
\<close>

definition scan_sign :: "nat \<Rightarrow> cstring \<Rightarrow> bool \<times> nat \<times> cstring" where
  "scan_sign w s = (case s of [] \<Rightarrow> (False, w, s)
     | c # cs \<Rightarrow> if 0 < w \<and> (c = CHR ''+'' \<or> c = CHR ''-'') then (c = CHR ''-'', w - 1, cs)
                 else (False, w, s))"

definition scan_prefix :: "nat \<Rightarrow> cstring \<Rightarrow> nat \<times> cstring" where
  "scan_prefix w s = (case s of
       c # d # cs \<Rightarrow> if 2 \<le> w \<and> c = CHR ''0'' \<and> (d = CHR ''x'' \<or> d = CHR ''X'') then (w - 2, cs) else (w, s)
     | _ \<Rightarrow> (w, s))"

definition scan_hex :: "nat \<Rightarrow> cstring \<Rightarrow> (bool \<times> nat \<times> cstring) option" where
  "scan_hex w s =
     (let (neg, w1, s1) = scan_sign w (dropWhile isspace s);
          (w2, s2) = scan_prefix w1 s1;
          ds = takeWhile is_hex (take w2 s2)
      in if ds = [] then None else Some (neg, hex_value ds, drop (length ds) s2))"

text \<open>The bytes an \<open>n\<close>-byte unsigned destination receives; a minus sign negates modulo its range.\<close>

definition scanned_bytes :: "nat \<Rightarrow> bool \<Rightarrow> nat \<Rightarrow> byte list" where
  "scanned_bytes n neg v = le_bytes n (if neg then 256 ^ n - v mod 256 ^ n else v)"

datatype directive =
    Conv nat nat nat  \<comment> \<open>field width, destination offset, destination size\<close>
  | Lit char

fun sscanf :: "directive list \<Rightarrow> cstring \<Rightarrow> byte list \<Rightarrow> nat \<times> byte list" where
  "sscanf [] s r = (0, r)"
| "sscanf (Conv w off n # ds) s r = (case scan_hex w s of
       None \<Rightarrow> (0, r)
     | Some (neg, v, s') \<Rightarrow>
         (let (count, r') = sscanf ds s' (store r off (scanned_bytes n neg v)) in (Suc count, r')))"
| "sscanf (Lit c # ds) s r = (case s of
       [] \<Rightarrow> (0, r)
     | x # xs \<Rightarrow> if x = c then sscanf ds xs r else (0, r))"

text \<open>\<open>%8llx-%4lx-%4lx-%4lx-%2hhx%2hhx%2hhx%2hhx%2hhx%2hhx\<close> with its destinations in \<open>r\<close>.\<close>

definition uuid_format :: "nat \<Rightarrow> directive list" where
  "uuid_format L =
     [Conv 8 0 8, Lit (CHR ''-''), Conv 4 4 L, Lit (CHR ''-''), Conv 4 6 L, Lit (CHR ''-''),
      Conv 4 8 L, Lit (CHR ''-''), Conv 2 10 1, Conv 2 11 1, Conv 2 12 1, Conv 2 13 1,
      Conv 2 14 1, Conv 2 15 1]"

text \<open>The byte swaps after the scan.\<close>

definition uuid_swap :: "nat \<Rightarrow> byte list \<Rightarrow> byte list" where
  "uuid_swap L r0 =
     (let r1 = store r0 0 (le_bytes L (htonl (load r0 0 L)));
          r2 = store r1 4 (le_bytes 2 (htons (load r1 4 2)));
          r3 = store r2 6 (le_bytes 2 (htons (load r2 6 2)))
      in store r3 8 (le_bytes 2 (htons (load r3 8 2))))"

text \<open>\<open>junk\<close> is what the uninitialised buffer \<open>r\<close> of \<open>manager_queue_get\<close> holds.\<close>

definition uuid_parse :: "nat \<Rightarrow> byte list \<Rightarrow> cstring \<Rightarrow> byte list option" where
  "uuid_parse L junk name =
     (let (count, r) = sscanf (uuid_format L) name junk
      in if count \<noteq> 10 then None else Some (uuid_swap L r))"

section \<open>Lemmas on bytes and digits\<close>

lemma le_bytes_length [simp]: "length (le_bytes n v) = n"
  by (induction n arbitrary: v) auto

lemma le_bytes_le_value:
  "n \<le> length bs \<Longrightarrow> le_bytes n (le_value bs) = take n bs"
proof (induction n arbitrary: bs)
  case (Suc n)
  then obtain b bs' where bs: "bs = b # bs'" by (cases bs) auto
  have b: "unat b < 256" by simp
  with Suc bs show ?case by (simp add: div_mult_self4)
qed simp

lemma le_value_le_bytes: "le_value (le_bytes n v) = v mod 256 ^ n"
proof (induction n arbitrary: v)
  case (Suc n)
  have "unat (of_nat (v mod 256) :: byte) = v mod 256"
    by (simp add: unat_of_nat)
  with Suc show ?case by (simp add: mod_mult2_eq)
qed simp

lemma le_bytes_mod: "le_bytes n (v mod 256 ^ n) = le_bytes n v"
  using le_bytes_le_value [of n "le_bytes n v"] by (simp add: le_value_le_bytes)

lemma le_bytes_take: "m \<le> n \<Longrightarrow> take m (le_bytes n v) = le_bytes m v"
proof (induction n arbitrary: m v)
  case (Suc n)
  then show ?case by (cases m) auto
qed simp

lemma store_length: "off + length bs \<le> length r \<Longrightarrow> length (store r off bs) = length r"
  by (simp add: store_def)

lemma htonl_bytes: "4 \<le> length bs \<Longrightarrow> htonl (le_value bs) = le_value (rev (take 4 bs))"
  by (simp add: htonl_def le_bytes_le_value)

lemma htons_bytes: "2 \<le> length bs \<Longrightarrow> htons (le_value bs) = le_value (rev (take 2 bs))"
  by (simp add: htons_def le_bytes_le_value)

fun hex_fixed :: "nat \<Rightarrow> nat \<Rightarrow> cstring" where
  "hex_fixed 0 v = []"
| "hex_fixed (Suc w) v = hex_fixed w (v div 16) @ [hex_digit (v mod 16)]"

lemma hex_fixed_length [simp]: "length (hex_fixed w v) = w"
  by (induction w arbitrary: v) auto

lemma hex_fixed_0: "hex_fixed w 0 = replicate w (CHR ''0'')"
  by (induction w) (auto simp: hex_digit_def simp flip: replicate_append_same)

lemma hex_digits_pos: "0 < length (hex_digits v)"
  by (subst hex_digits.simps) simp

lemma hex_fixed_digits:
  "length (hex_digits v) \<le> w \<Longrightarrow> hex_fixed w v = replicate (w - length (hex_digits v)) (CHR ''0'') @ hex_digits v"
proof (induction w arbitrary: v)
  case 0
  with hex_digits_pos [of v] show ?case by simp
next
  case (Suc w)
  show ?case
  proof (cases "v < 16")
    case True
    then show ?thesis by (subst (1 2) hex_digits.simps) (simp add: hex_fixed_0)
  next
    case False
    then have d: "hex_digits v = hex_digits (v div 16) @ [hex_digit (v mod 16)]"
      by (subst hex_digits.simps) simp
    with Suc.prems Suc.IH [of "v div 16"] show ?thesis by simp
  qed
qed

lemma hex_digits_bound: "0 < w \<Longrightarrow> v < 16 ^ w \<Longrightarrow> length (hex_digits v) \<le> w"
proof (induction w arbitrary: v)
  case (Suc w)
  show ?case
  proof (cases "v < 16")
    case True
    then show ?thesis by (subst hex_digits.simps) simp
  next
    case False
    then have w: "0 < w" using Suc.prems by (cases w) auto
    have "v div 16 < 16 ^ w" using Suc.prems(2) by (simp add: less_mult_imp_div_less mult.commute)
    with Suc.IH [OF w] False show ?thesis by (subst hex_digits.simps) simp
  qed
qed simp

lemma fmt_hex_fixed: "0 < w \<Longrightarrow> v < 16 ^ w \<Longrightarrow> fmt_hex w v = hex_fixed w v"
  by (simp add: fmt_hex_def hex_fixed_digits hex_digits_bound)

definition hex2 :: "byte \<Rightarrow> cstring" where
  "hex2 b = hex_fixed 2 (unat b)"

lemma le_value_append: "le_value (xs @ ys) = le_value xs + 256 ^ length xs * le_value ys"
  by (induction xs) (simp_all add: algebra_simps)

lemma le_value_bound: "le_value bs < 256 ^ length bs"
proof (induction bs)
  case (Cons b bs)
  have "unat b < 256" by simp
  moreover from Cons have "256 * le_value bs + 256 \<le> 256 * 256 ^ length bs" by simp
  ultimately show ?case by (simp del: byte_less)
qed simp

lemma hex_fixed_add: "hex_fixed (m + n) v = hex_fixed m (v div 16 ^ n) @ hex_fixed n v"
  by (induction n arbitrary: v) (simp_all add: div_mult2_eq)

lemma hex_fixed_mod: "hex_fixed n (v mod 16 ^ n) = hex_fixed n v"
proof (induction n arbitrary: v)
  case (Suc n)
  have "v mod 16 ^ Suc n div 16 = v div 16 mod 16 ^ n" "v mod 16 ^ Suc n mod 16 = v mod 16"
    by (simp_all add: mod_mult2_eq)
  with Suc show ?case by simp
qed simp

lemma hex_fixed_bytes: "hex_fixed (2 * length bs) (le_value (rev bs)) = concat (map hex2 bs)"
proof (induction bs rule: rev_induct)
  case (snoc b bs)
  have b: "unat b < 256" by simp
  have "hex_fixed (2 * length bs + 2) (unat b + 256 * le_value (rev bs)) =
        hex_fixed (2 * length bs) ((unat b + 256 * le_value (rev bs)) div 16 ^ 2) @
        hex_fixed 2 ((unat b + 256 * le_value (rev bs)) mod 16 ^ 2)"
    by (simp only: hex_fixed_add hex_fixed_mod)
  also have "\<dots> = hex_fixed (2 * length bs) (le_value (rev bs)) @ hex2 b"
    using b by (simp add: hex2_def)
  finally show ?case using snoc by (simp add: hex2_def)
qed simp

section \<open>The printed form\<close>

definition dashed :: "cstring \<Rightarrow> cstring \<Rightarrow> cstring \<Rightarrow> cstring \<Rightarrow> cstring \<Rightarrow> cstring" where
  "dashed a b c d e = a @ ''-'' @ b @ ''-'' @ c @ ''-'' @ d @ ''-'' @ e"

definition hexes :: "byte list \<Rightarrow> cstring" where
  "hexes bs = concat (map hex2 bs)"

lemma hex2_length [simp]: "length (hex2 b) = 2"
  by (simp add: hex2_def)

lemma hexes_length [simp]: "length (hexes bs) = 2 * length bs"
  by (induction bs) (auto simp: hexes_def)

lemma fmt_hex_bytes:
  "0 < length bs \<Longrightarrow> fmt_hex (2 * length bs) (le_value (rev bs)) = hexes bs"
proof -
  assume "0 < length bs"
  moreover have "le_value (rev bs) < 16 ^ (2 * length bs)"
    using le_value_bound [of "rev bs"] by (simp add: power_mult)
  ultimately show ?thesis by (simp add: fmt_hex_fixed hex_fixed_bytes hexes_def)
qed

lemma fmt_hex_byte: "fmt_hex 2 (unat b) = hexes [b]"
  using fmt_hex_bytes [of "[b]"] by simp

lemma uuid_text_eq:
  assumes u: "length u = 16" and L: "4 \<le> L"
  shows "uuid_text L u = dashed (hexes (take 4 u)) (hexes (take 2 (drop 4 u)))
    (hexes (take 2 (drop 6 u))) (hexes (take 2 (drop 8 u))) (hexes (drop 10 u))"
proof -
  have "htonl (load u 0 L) = le_value (rev (take 4 u))"
    using u L by (simp add: load_def htonl_bytes min_def)
  then have 1: "fmt_hex 8 (htonl (load u 0 L)) = hexes (take 4 u)"
    using u fmt_hex_bytes [of "take 4 u"] by simp
  have 2: "fmt_hex 4 (htons (load u k 2)) = hexes (take 2 (drop k u))" if "k \<le> 14" for k
  proof -
    have "htons (load u k 2) = le_value (rev (take 2 (drop k u)))"
      using that u by (simp add: load_def htons_bytes)
    with that u fmt_hex_bytes [of "take 2 (drop k u)"] show ?thesis by simp
  qed
  have "drop 10 u = drop 10 (map ((!) u) [0..<16])"
    using map_nth [of u] u by simp
  then have 3: "drop 10 u = [u ! 10, u ! 11, u ! 12, u ! 13, u ! 14, u ! 15]"
    by (simp add: drop_map upt_conv_Cons) (simp add: numeral_eq_Suc)
  show ?thesis
    by (simp add: uuid_text_def 1 2 3 fmt_hex_byte dashed_def) (simp add: hexes_def)
qed

lemma uuid_text_length: "length u = 16 \<Longrightarrow> 4 \<le> L \<Longrightarrow> length (uuid_text L u) = 36"
  by (simp add: uuid_text_eq dashed_def)

section \<open>Well-formed names\<close>

definition uuid_shape :: "cstring \<Rightarrow> bool" where
  "uuid_shape name \<longleftrightarrow> length name = 36 \<and>
     (\<forall>i < 36. if i = 8 \<or> i = 13 \<or> i = 18 \<or> i = 23 then name ! i = CHR ''-'' else is_hex (name ! i))"

definition all_hex :: "cstring \<Rightarrow> bool" where
  "all_hex s \<longleftrightarrow> (\<forall>c \<in> set s. is_hex c)"

lemma all_hex_simps [simp]:
  "all_hex []" "all_hex (c # s) \<longleftrightarrow> is_hex c \<and> all_hex s" "all_hex (s @ t) \<longleftrightarrow> all_hex s \<and> all_hex t"
  by (auto simp: all_hex_def)

lemma all_hex_slice:
  assumes "\<And>i. k \<le> i \<Longrightarrow> i < k + n \<Longrightarrow> is_hex (s ! i)" and "k + n \<le> length s"
  shows "all_hex (take n (drop k s))"
  using assms by (auto simp: all_hex_def in_set_conv_nth)

lemma uuid_shape_dashed:
  assumes "uuid_shape name"
  obtains a b c d e where "name = dashed a b c d e" "length a = 8" "length b = 4" "length c = 4"
    "length d = 4" "length e = 12" "all_hex a" "all_hex b" "all_hex c" "all_hex d" "all_hex e"
proof -
  let ?s = "\<lambda>k n. take n (drop k name)"
  from assms have len: "length name = 36"
    and dash: "name ! 8 = CHR ''-''" "name ! 13 = CHR ''-''" "name ! 18 = CHR ''-''" "name ! 23 = CHR ''-''"
    and hex: "\<And>i. i < 36 \<Longrightarrow> i \<noteq> 8 \<Longrightarrow> i \<noteq> 13 \<Longrightarrow> i \<noteq> 18 \<Longrightarrow> i \<noteq> 23 \<Longrightarrow> is_hex (name ! i)"
    by (auto simp: uuid_shape_def)
  have step: "drop k name = ?s k n @ name ! (k + n) # drop (Suc (k + n)) name"
    if "k + n < 36" for k n
    using that len by (metis Cons_nth_drop_Suc append_take_drop_id drop_drop add.commute)
  have "name = dashed (?s 0 8) (?s 9 4) (?s 14 4) (?s 19 4) (?s 24 12)"
    using step [of 0 8] step [of 9 4] step [of 14 4] step [of 19 4] len dash by (simp add: dashed_def)
  moreover have "all_hex (?s 0 8)" by (rule all_hex_slice) (use len in \<open>auto intro: hex\<close>)
  moreover have "all_hex (?s 9 4)" by (rule all_hex_slice) (use len in \<open>auto intro: hex\<close>)
  moreover have "all_hex (?s 14 4)" by (rule all_hex_slice) (use len in \<open>auto intro: hex\<close>)
  moreover have "all_hex (?s 19 4)" by (rule all_hex_slice) (use len in \<open>auto intro: hex\<close>)
  moreover have "all_hex (?s 24 12)" by (rule all_hex_slice) (use len in \<open>auto intro: hex\<close>)
  ultimately show thesis
    by (intro that [of "?s 0 8" "?s 9 4" "?s 14 4" "?s 19 4" "?s 24 12"]) (use len in simp_all)
qed

lemma is_hex_chars: "is_hex c \<longleftrightarrow> c \<in> set ''0123456789abcdefABCDEF''"
proof
  have all: "\<forall>n \<in> set ([48..<58] @ [97..<103] @ [65..<71]). char_of n \<in> set ''0123456789abcdefABCDEF''"
    by code_simp
  assume "is_hex c"
  then have "(of_char c :: nat) \<in> {48..<58} \<union> ({97..<103} \<union> {65..<71})"
    by (auto simp: is_hex_def hex_val_def Let_def split: if_splits)
  then have "of_char c \<in> set ([48..<58] @ [97..<103] @ [65..<71])"
    by (simp only: set_append set_upt)
  with all have "char_of (of_char c :: nat) \<in> set ''0123456789abcdefABCDEF''" by blast
  then show "c \<in> set ''0123456789abcdefABCDEF''" by (simp only: char_of_char)
qed (auto simp: is_hex_def hex_val_def Let_def)

lemma hex_val_facts:
  assumes "is_hex c"
  shows "the (hex_val c) < 16" and "hex_digit (the (hex_val c)) = tolower c"
    and "\<not> isspace c" and "c \<noteq> CHR ''+''" and "c \<noteq> CHR ''-''" and "c \<noteq> CHR ''x''" and "c \<noteq> CHR ''X''"
proof -
  have "\<forall>c \<in> set ''0123456789abcdefABCDEF''. the (hex_val c) < 16 \<and>
      hex_digit (the (hex_val c)) = tolower c \<and> \<not> isspace c \<and>
      c \<notin> set ''+-xX''"
    by code_simp
  with assms show "the (hex_val c) < 16" and "hex_digit (the (hex_val c)) = tolower c"
    and "\<not> isspace c" and "c \<noteq> CHR ''+''" and "c \<noteq> CHR ''-''" and "c \<noteq> CHR ''x''" and "c \<noteq> CHR ''X''"
    unfolding is_hex_chars by auto
qed

lemma hex_value_snoc: "hex_value (ds @ [c]) = 16 * hex_value ds + the (hex_val c)"
  by (simp add: hex_value_def)

lemma hex_value_print: "all_hex ds \<Longrightarrow> hex_fixed (length ds) (hex_value ds) = map tolower ds"
proof (induction ds rule: rev_induct)
  case (snoc c ds)
  then show ?case using hex_val_facts [of c] by (simp add: hex_value_snoc)
qed simp

lemma scan_hex_field:
  assumes w: "length ds = w" "0 < w" and hex: "all_hex ds"
  shows "scan_hex w (ds @ s) = Some (False, hex_value ds, s)"
proof -
  from w obtain c cs where ds: "ds = c # cs" by (cases ds) auto
  with hex have c: "is_hex c" by simp
  note f = hex_val_facts [OF c]
  have sign: "scan_sign w (dropWhile isspace (ds @ s)) = (False, w, ds @ s)"
    using ds f by (simp add: scan_sign_def)
  have prefix: "scan_prefix w (ds @ s) = (w, ds @ s)"
  proof (cases "2 \<le> w")
    case True
    with w ds obtain d ds' where "cs = d # ds'" by (cases cs) auto
    with ds hex hex_val_facts [of d] show ?thesis by (simp add: scan_prefix_def)
  next
    case False
    then show ?thesis by (simp add: scan_prefix_def split: list.split)
  qed
  note tw = takeWhile_eq_all_conv [THEN iffD2, OF hex [unfolded all_hex_def]]
  from w show ?thesis unfolding scan_hex_def sign by (auto simp: prefix Let_def tw)
qed

section \<open>Parsing well-formed names\<close>

definition byte_of :: "cstring \<Rightarrow> byte" where
  "byte_of ds = of_nat (hex_value ds)"

lemma hexes_append: "hexes (xs @ ys) = hexes xs @ hexes ys"
  by (simp add: hexes_def)

lemma hex_value_bound: "all_hex ds \<Longrightarrow> hex_value ds < 16 ^ length ds"
proof (induction ds rule: rev_induct)
  case Nil
  show ?case by (simp add: hex_value_def)
next
  case (snoc c ds)
  then have "hex_value ds < 16 ^ length ds" "the (hex_val c) < 16"
    using hex_val_facts [of c] by simp_all
  then show ?case by (simp add: hex_value_snoc)
qed

text \<open>The big-endian bytes of a digit string print as that string.\<close>

lemma hexes_be_bytes:
  assumes hex: "all_hex ds" and len: "length ds = 2 * n"
  shows "hexes (rev (le_bytes n (hex_value ds))) = map tolower ds"
proof -
  have "hexes (rev (le_bytes n (hex_value ds))) =
        hex_fixed (2 * n) (le_value (le_bytes n (hex_value ds)))"
    using hex_fixed_bytes [of "rev (le_bytes n (hex_value ds))"] by (simp add: hexes_def)
  also have "\<dots> = hex_fixed (length ds) (hex_value ds)"
    using hex_value_bound [OF hex] len by (simp add: le_value_le_bytes power_mult)
  finally show ?thesis by (simp add: hex_value_print [OF hex])
qed

definition scanned :: "cstring \<Rightarrow> cstring \<Rightarrow> cstring \<Rightarrow> cstring \<Rightarrow> cstring list \<Rightarrow> byte list" where
  "scanned a b c d ps = le_bytes 4 (hex_value a) @ le_bytes 2 (hex_value b) @
     le_bytes 2 (hex_value c) @ le_bytes 2 (hex_value d) @
     map byte_of ps"

lemma store_at: "length xs = off \<Longrightarrow> length bs \<le> length ys \<Longrightarrow>
  store (xs @ ys) off bs = xs @ bs @ drop (length bs) ys"
  by (simp add: store_def)

lemma scan_field:
  assumes "sscanf ds s (store r off (le_bytes n (hex_value p))) = (m, r')"
    and "length p = w" and "0 < w" and "all_hex p"
  shows "sscanf (Conv w off n # ds) (p @ s) r = (Suc m, r')"
  using assms by (simp add: scan_hex_field scanned_bytes_def)

lemma scan_byte:
  assumes "sscanf ds s (store r off [byte_of p]) = (m, r')" and "length p = 2" and "all_hex p"
  shows "sscanf (Conv 2 off 1 # ds) (p @ s) r = (Suc m, r')"
proof (rule scan_field)
  have "hex_value p < 256" using hex_value_bound [OF assms(3)] assms(2) by simp
  then have "le_bytes 1 (hex_value p) = [byte_of p]" by (simp add: byte_of_def)
  with assms(1) show "sscanf ds s (store r off (le_bytes 1 (hex_value p))) = (m, r')" by simp
qed (use assms in simp_all)

lemma scan_last_byte:
  assumes "length p = 2" and "all_hex p"
  shows "sscanf [Conv 2 off 1] p r = (Suc 0, store r off [byte_of p])"
  using scan_byte [of "[]" "[]" r off p 0, OF _ assms] by simp

lemma scan_dash:
  "sscanf ds s r = x \<Longrightarrow> sscanf (Lit c # ds) (c # s) r = x"
  by simp

lemma pairs_of_12:
  assumes "length e = 12" and "all_hex e"
  obtains p0 p1 p2 p3 p4 p5 where "e = p0 @ p1 @ p2 @ p3 @ p4 @ p5"
    "length p0 = 2" "length p1 = 2" "length p2 = 2" "length p3 = 2" "length p4 = 2" "length p5 = 2"
    "all_hex p0" "all_hex p1" "all_hex p2" "all_hex p3" "all_hex p4" "all_hex p5"
proof -
  let ?p = "\<lambda>k. take 2 (drop k e)"
  have st: "drop k e = ?p k @ drop (k + 2) e" for k
    by (metis append_take_drop_id drop_drop add.commute)
  have eq: "e = ?p 0 @ ?p 2 @ ?p 4 @ ?p 6 @ ?p 8 @ ?p 10"
    using st [of 0] st [of 2] st [of 4] st [of 6] st [of 8] st [of 10] assms(1) by simp
  have h: "all_hex (?p k)" for k
    using assms(2) by (auto simp: all_hex_def dest!: in_set_takeD in_set_dropD)
  show thesis
    by (rule that [OF eq _ _ _ _ _ _ h h h h h h]) (use assms in simp_all)
qed

text \<open>A store into the tail of a buffer, of which only the first \<open>k\<close> bytes survive.\<close>

lemma store_prefix:
  assumes "length xs = off" and "length bs \<le> length ys" and "k \<le> length bs"
  shows "\<exists>zs. store (xs @ ys) off bs = xs @ take k bs @ zs \<and> length zs = length ys - k"
proof -
  have "store (xs @ ys) off bs = xs @ take k bs @ (drop k bs @ drop (length bs) ys)"
    using assms by (simp add: store_at)
  with assms show ?thesis by (intro exI [of _ "drop k bs @ drop (length bs) ys"]) simp
qed

lemma store_fields:
  assumes L: "L = 4 \<or> L = 8" and r: "length r = 16"
  shows "store (store (store (store (store (store (store (store (store (store r
      0 (le_bytes 8 a)) 4 (le_bytes L b)) 6 (le_bytes L c)) 8 (le_bytes L d)) 10 [p0]) 11 [p1])
      12 [p2]) 13 [p3]) 14 [p4]) 15 [p5] =
    le_bytes 4 a @ le_bytes 2 b @ le_bytes 2 c @ le_bytes 2 d @ [p0, p1, p2, p3, p4, p5]"
proof -
  let ?A = "le_bytes 4 a" and ?B = "le_bytes 2 b" and ?C = "le_bytes 2 c" and ?D = "le_bytes 2 d"
  obtain x1 where 1: "store r 0 (le_bytes 8 a) = ?A @ x1" "length x1 = 12"
    using store_prefix [of "[]" 0 "le_bytes 8 a" r 4] r by (auto simp: le_bytes_take)
  obtain x2 where 2: "store (?A @ x1) 4 (le_bytes L b) = ?A @ ?B @ x2" "length x2 = 10"
    using store_prefix [of ?A 4 "le_bytes L b" x1 2] 1 L by (auto simp: le_bytes_take)
  obtain x3 where 3: "store (?A @ ?B @ x2) 6 (le_bytes L c) = ?A @ ?B @ ?C @ x3" "length x3 = 8"
    using store_prefix [of "?A @ ?B" 6 "le_bytes L c" x2 2] 2 L by (auto simp: le_bytes_take)
  obtain x4 where 4: "store (?A @ ?B @ ?C @ x3) 8 (le_bytes L d) = ?A @ ?B @ ?C @ ?D @ x4" "length x4 = 6"
    using store_prefix [of "?A @ ?B @ ?C" 8 "le_bytes L d" x3 2] 3 L by (auto simp: le_bytes_take)
  from 4(2) obtain y0 y1 y2 y3 y4 y5 where x4: "x4 = [y0, y1, y2, y3, y4, y5]"
    by (auto simp: numeral_eq_Suc length_Suc_conv)
  show ?thesis
    unfolding 1 2 3 4 by (simp add: store_def x4)
qed

lemma sscanf_uuid:
  assumes L: "L = 4 \<or> L = 8" and r: "length r = 16"
    and len: "length a = 8" "length b = 4" "length c = 4" "length d = 4"
    and hex: "all_hex a" "all_hex b" "all_hex c" "all_hex d"
    and p: "length p0 = 2" "length p1 = 2" "length p2 = 2" "length p3 = 2" "length p4 = 2" "length p5 = 2"
    and h: "all_hex p0" "all_hex p1" "all_hex p2" "all_hex p3" "all_hex p4" "all_hex p5"
  shows "sscanf (uuid_format L) (dashed a b c d (p0 @ p1 @ p2 @ p3 @ p4 @ p5)) r =
    (10, scanned a b c d [p0, p1, p2, p3, p4, p5])"
proof -
  let ?v = "\<lambda>n s. le_bytes n (hex_value s)"
  let ?r = "store (store (store (store (store (store (store (store (store (store r
      0 (?v 8 a)) 4 (?v L b)) 6 (?v L c)) 8 (?v L d)) 10 [byte_of p0]) 11 [byte_of p1])
      12 [byte_of p2]) 13 [byte_of p3]) 14 [byte_of p4]) 15 [byte_of p5]"
  have "sscanf (uuid_format L) (dashed a b c d (p0 @ p1 @ p2 @ p3 @ p4 @ p5)) r =
      (Suc (Suc (Suc (Suc (Suc (Suc (Suc (Suc (Suc (Suc 0))))))))), ?r)"
    unfolding uuid_format_def dashed_def append_Cons append_Nil
    by (intro scan_field scan_dash scan_byte scan_last_byte) (simp_all add: len hex p h)
  then show ?thesis by (simp add: store_fields [OF L r] scanned_def)
qed

text \<open>The swaps: on a 4-byte \<open>long\<close> each field ends up big-endian, ...\<close>

lemma swap_4:
  assumes "length A = 4" "length B = 2" "length C = 2" "length D = 2" "length E = 6"
  shows "uuid_swap 4 (A @ B @ C @ D @ E) = rev A @ rev B @ rev C @ rev D @ E"
  using assms
  by (simp add: uuid_swap_def Let_def load_def store_def htonl_bytes htons_bytes le_bytes_le_value)

text \<open>... on an 8-byte \<open>long\<close> the first swap clears the second and third field.\<close>

lemma swap_8:
  assumes "length A = 4" "length B = 2" "length C = 2" "length D = 2" "length E = 6"
  shows "uuid_swap 8 (A @ B @ C @ D @ E) = rev A @ replicate 4 0 @ rev D @ E"
proof -
  have z: "le_bytes 8 (le_value xs) = xs @ replicate 4 0" if "length xs = 4" for xs
  proof -
    have "le_value (xs @ replicate 4 0) = le_value xs"
      by (simp add: le_value_append numeral_eq_Suc)
    with that le_bytes_le_value [of 8 "xs @ replicate 4 0"] show ?thesis by simp
  qed
  let ?Z = "[0, 0] :: byte list" and ?r = "A @ B @ C @ D @ E"
  have Z: "replicate 4 0 = ?Z @ ?Z" by (simp add: numeral_eq_Suc)
  have r1: "store ?r 0 (le_bytes 8 (htonl (load ?r 0 8))) = rev A @ ?Z @ ?Z @ D @ E"
    using assms by (simp add: load_def htonl_bytes z store_def Z)
  have z2: "le_bytes 2 (htons (le_value ?Z)) = ?Z"
    using htons_bytes [of ?Z] le_bytes_le_value [of 2 ?Z] by (simp del: le_value.simps)
  have r2: "store (rev A @ ?Z @ ?Z @ D @ E) 4 (le_bytes 2 (htons (load (rev A @ ?Z @ ?Z @ D @ E) 4 2))) =
      rev A @ ?Z @ ?Z @ D @ E"
    using assms z2 by (simp add: load_def store_def del: le_value.simps)
  have r3: "store (rev A @ ?Z @ ?Z @ D @ E) 6 (le_bytes 2 (htons (load (rev A @ ?Z @ ?Z @ D @ E) 6 2))) =
      rev A @ ?Z @ ?Z @ D @ E"
    using assms z2 by (simp add: load_def store_def del: le_value.simps)
  have r4: "store (rev A @ ?Z @ ?Z @ D @ E) 8 (le_bytes 2 (htons (load (rev A @ ?Z @ ?Z @ D @ E) 8 2))) =
      rev A @ ?Z @ ?Z @ rev D @ E"
    using assms by (simp add: load_def store_def htons_bytes le_bytes_le_value del: le_value.simps)
  show ?thesis unfolding uuid_swap_def Let_def r1 r2 r3 r4 by (simp add: Z)
qed

section \<open>Round trips\<close>

lemma tolower_dash [simp]: "tolower (CHR ''-'') = CHR ''-''"
  by (simp add: tolower_def)

lemma map_dashed: "map tolower (dashed a b c d e) =
  dashed (map tolower a) (map tolower b) (map tolower c) (map tolower d) (map tolower e)"
  by (simp add: dashed_def)

lemma hexes_byte_of: "length p = 2 \<Longrightarrow> all_hex p \<Longrightarrow> hexes [byte_of p] = map tolower p"
  using hexes_be_bytes [of p 1] hex_value_bound [of p] by (simp add: byte_of_def)

lemma uuid_parse_dashed:
  assumes L: "L = 4 \<or> L = 8" and r: "length junk = 16"
    and len: "length a = 8" "length b = 4" "length c = 4" "length d = 4" "length e = 12"
    and hex: "all_hex a" "all_hex b" "all_hex c" "all_hex d" "all_hex e"
  shows "\<exists>E. length E = 6 \<and> hexes E = map tolower e \<and>
    uuid_parse L junk (dashed a b c d e) = Some
      (rev (le_bytes 4 (hex_value a)) @
       (if L = 4 then rev (le_bytes 2 (hex_value b)) @ rev (le_bytes 2 (hex_value c)) else replicate 4 0) @
       rev (le_bytes 2 (hex_value d)) @ E)"
proof -
  from len(5) hex(5) obtain p0 p1 p2 p3 p4 p5 where e: "e = p0 @ p1 @ p2 @ p3 @ p4 @ p5"
    and p: "length p0 = 2" "length p1 = 2" "length p2 = 2" "length p3 = 2" "length p4 = 2" "length p5 = 2"
    and h: "all_hex p0" "all_hex p1" "all_hex p2" "all_hex p3" "all_hex p4" "all_hex p5"
    by (rule pairs_of_12)
  let ?E = "[byte_of p0, byte_of p1, byte_of p2, byte_of p3, byte_of p4, byte_of p5]"
  have "hexes ?E = map tolower e"
    using p h hexes_append [of "[byte_of p0]"] hexes_append [of "[byte_of p1]"]
      hexes_append [of "[byte_of p2]"] hexes_append [of "[byte_of p3]"] hexes_append [of "[byte_of p4]"]
    by (simp add: e hexes_byte_of)
  moreover note sscanf_uuid [OF L r len(1-4) hex(1-4) p h, folded e]
  ultimately show ?thesis
    using L by (intro exI [of _ ?E]) (auto simp: uuid_parse_def scanned_def swap_4 swap_8)
qed

lemma uuid_parse_shape_4:
  assumes "uuid_shape name" and "length junk = 16"
  shows "\<exists>u. uuid_parse 4 junk name = Some u \<and> length u = 16 \<and> uuid_text 4 u = map tolower name"
proof -
  from assms(1) obtain a b c d e where n: "name = dashed a b c d e"
    and len: "length a = 8" "length b = 4" "length c = 4" "length d = 4" "length e = 12"
    and hex: "all_hex a" "all_hex b" "all_hex c" "all_hex d" "all_hex e"
    by (rule uuid_shape_dashed)
  from uuid_parse_dashed [of 4, OF _ assms(2) len hex] obtain E where
    E: "length E = 6" "hexes E = map tolower e" and
    p: "uuid_parse 4 junk name = Some (rev (le_bytes 4 (hex_value a)) @ rev (le_bytes 2 (hex_value b)) @
      rev (le_bytes 2 (hex_value c)) @ rev (le_bytes 2 (hex_value d)) @ E)"
    by (auto simp: n)
  then show ?thesis
    using len hex by (simp add: n map_dashed uuid_text_eq hexes_be_bytes)
qed

lemma uuid_parse_shape_8:
  assumes "uuid_shape name" and "length junk = 16"
  shows "\<exists>u. uuid_parse 8 junk name = Some u \<and> length u = 16 \<and>
    uuid_text 8 u = take 9 (map tolower name) @ ''0000-0000'' @ drop 18 (map tolower name)"
proof -
  from assms(1) obtain a b c d e where n: "name = dashed a b c d e"
    and len: "length a = 8" "length b = 4" "length c = 4" "length d = 4" "length e = 12"
    and hex: "all_hex a" "all_hex b" "all_hex c" "all_hex d" "all_hex e"
    by (rule uuid_shape_dashed)
  from uuid_parse_dashed [of 8, OF _ assms(2) len hex] obtain E where
    E: "length E = 6" "hexes E = map tolower e" and
    p: "uuid_parse 8 junk name = Some (rev (le_bytes 4 (hex_value a)) @ replicate 4 0 @
      rev (le_bytes 2 (hex_value d)) @ E)"
    by (auto simp: n)
  have z: "hexes [0, 0] = ''0000''" by code_simp
  have "replicate 4 0 = [0, 0] @ [0, 0 :: byte]" by code_simp
  with E p len hex show ?thesis
    by (simp add: n map_dashed uuid_text_eq hexes_be_bytes z) (simp add: dashed_def)
qed

text \<open>Every write of the scan and of the swaps stays inside the 16-byte buffer.\<close>

fun in_bounds :: "nat \<Rightarrow> directive \<Rightarrow> bool" where
  "in_bounds n (Conv w off k) \<longleftrightarrow> off + k \<le> n"
| "in_bounds n (Lit c) \<longleftrightarrow> True"

lemma sscanf_length:
  "\<forall>d \<in> set ds. in_bounds (length r) d \<Longrightarrow> length (snd (sscanf ds s r)) = length r"
  by (induction ds s r rule: sscanf.induct)
     (auto simp: store_length scanned_bytes_def Let_def split: option.splits prod.splits list.splits)

lemma uuid_swap_length: "L = 4 \<or> L = 8 \<Longrightarrow> length r = 16 \<Longrightarrow> length (uuid_swap L r) = 16"
  by (auto simp: uuid_swap_def Let_def store_length)

lemma uuid_parse_length:
  assumes "L = 4 \<or> L = 8" "length junk = 16" "uuid_parse L junk name = Some u"
  shows "length u = 16"
proof -
  have "\<forall>d \<in> set (uuid_format L). in_bounds (length junk) d"
    using assms(1,2) by (auto simp: uuid_format_def)
  with sscanf_length [of "uuid_format L" junk name] assms show ?thesis
    by (auto simp: uuid_parse_def Let_def uuid_swap_length split: prod.splits if_splits)
qed

lemma hex_digit_facts:
  assumes "n < 16"
  shows "is_hex (hex_digit n)" and "the (hex_val (hex_digit n)) = n" and "tolower (hex_digit n) = hex_digit n"
proof -
  have "\<forall>n \<in> set [0..<16]. is_hex (hex_digit n) \<and> the (hex_val (hex_digit n)) = n \<and>
      tolower (hex_digit n) = hex_digit n" by code_simp
  with assms show "is_hex (hex_digit n)" and "the (hex_val (hex_digit n)) = n"
    and "tolower (hex_digit n) = hex_digit n" by auto
qed

lemma hex_value_fixed: "hex_value (hex_fixed w v) = v mod 16 ^ w"
proof (induction w arbitrary: v)
  case 0
  show ?case by (simp add: hex_value_def)
next
  case (Suc w)
  have "v mod 16 ^ Suc w = 16 * (v div 16 mod 16 ^ w) + v mod 16" by (simp add: mod_mult2_eq)
  with Suc show ?case by (simp add: hex_value_snoc hex_digit_facts)
qed

lemma hex_fixed_hex: "all_hex (hex_fixed w v)"
  by (induction w arbitrary: v) (auto simp: hex_digit_facts)

lemma hex_fixed_lower: "map tolower (hex_fixed w v) = hex_fixed w v"
  by (induction w arbitrary: v) (auto simp: hex_digit_facts)

lemma hexes_hex [simp]: "all_hex (hexes bs)"
  by (induction bs) (auto simp: hexes_def hex2_def hex_fixed_hex)

lemma hexes_lower [simp]: "map tolower (hexes bs) = hexes bs"
  by (induction bs) (auto simp: hexes_def hex2_def hex_fixed_lower)

lemma hex2_inj: "hex2 b = hex2 c \<longleftrightarrow> b = c"
proof -
  have "hex_value (hex2 x) = unat x" for x
    using byte_less [of x] by (simp add: hex2_def hex_value_fixed del: byte_less)
  then show ?thesis by (metis word_unat_eq_iff)
qed

lemma hexes_inj: "length xs = length ys \<Longrightarrow> hexes xs = hexes ys \<longleftrightarrow> xs = ys"
  by (induction xs ys rule: list_induct2) (auto simp: hexes_def hex2_inj)

lemma dashed_inj:
  "length a = length a' \<Longrightarrow> length b = length b' \<Longrightarrow> length c = length c' \<Longrightarrow> length d = length d' \<Longrightarrow>
   dashed a b c d e = dashed a' b' c' d' e' \<longleftrightarrow> a = a' \<and> b = b' \<and> c = c' \<and> d = d' \<and> e = e'"
  by (auto simp: dashed_def)

lemma uuid_text_inj:
  assumes "length u = 16" "length v = 16" "4 \<le> L" "4 \<le> L'" and eq: "uuid_text L u = uuid_text L' v"
  shows "u = v"
proof -
  have split: "w = take 4 w @ take 2 (drop 4 w) @ take 2 (drop 6 w) @ take 2 (drop 8 w) @ drop 10 w"
    for w :: "byte list"
    using append_take_drop_id [of 4 w] append_take_drop_id [of 2 "drop 4 w"]
      append_take_drop_id [of 2 "drop 6 w"] append_take_drop_id [of 2 "drop 8 w"] by simp
  from eq assms have "take 4 u = take 4 v" "take 2 (drop 4 u) = take 2 (drop 4 v)"
    "take 2 (drop 6 u) = take 2 (drop 6 v)" "take 2 (drop 8 u) = take 2 (drop 8 v)" "drop 10 u = drop 10 v"
    by (simp_all add: uuid_text_eq dashed_inj hexes_inj)
  with split [of u] split [of v] show ?thesis by metis
qed

lemma uuid_text_lower: "length u = 16 \<Longrightarrow> 4 \<le> L \<Longrightarrow> map tolower (uuid_text L u) = uuid_text L u"
  by (simp add: uuid_text_eq map_dashed)

lemma dashed_shape:
  assumes len: "length a = 8" "length b = 4" "length c = 4" "length d = 4" "length e = 12"
    and hex: "all_hex a" "all_hex b" "all_hex c" "all_hex d" "all_hex e"
  shows "uuid_shape (dashed a b c d e)"
  unfolding uuid_shape_def
proof (intro conjI allI impI)
  fix i :: nat assume "i < 36"
  with len hex show "if i = 8 \<or> i = 13 \<or> i = 18 \<or> i = 23 then dashed a b c d e ! i = CHR ''-''
      else is_hex (dashed a b c d e ! i)"
    by (auto simp: dashed_def nth_append nth_Cons' all_hex_def)
qed (use len in \<open>simp add: dashed_def\<close>)

lemma uuid_text_shape: "length u = 16 \<Longrightarrow> 4 \<le> L \<Longrightarrow> uuid_shape (uuid_text L u)"
  by (simp add: uuid_text_eq dashed_shape)

lemma tolower_low:
  assumes "tolower c = d" and "(of_char d :: nat) < 97"
  shows "c = d"
proof (cases "65 \<le> (of_char c :: nat) \<and> (of_char c :: nat) \<le> 90")
  case True
  with assms(1) have d: "d = char_of ((of_char c :: nat) + 32)" by (simp add: tolower_def Let_def)
  have "(of_char d :: nat) = of_char c + 32" unfolding d using True by simp
  with True assms(2) show ?thesis by simp
next
  case False
  with assms(1) show ?thesis by (auto simp: tolower_def Let_def)
qed

lemma tolower_plain:
  "tolower c = CHR ''0'' \<longleftrightarrow> c = CHR ''0''" "tolower c = CHR ''-'' \<longleftrightarrow> c = CHR ''-''"
  using tolower_low [of c "CHR ''0''"] tolower_low [of c "CHR ''-''"] by (auto simp: tolower_def)

section \<open>Properties\<close>

text \<open>
  C20: on a platform with 4-byte longs, parsing and printing are inverse.  A printed id is well formed
  and parses back to its 16 bytes; a well-formed name in any case of letters parses, whatever the
  buffer held before, and the id prints as the name in lower case.
\<close>

theorem uuid_roundtrip:
  assumes "length junk = 16"
  shows "(\<forall>u. length u = 16 \<longrightarrow> uuid_shape (uuid_text 4 u) \<and> uuid_parse 4 junk (uuid_text 4 u) = Some u) \<and>
    (\<forall>name. uuid_shape name \<longrightarrow> (\<exists>u. uuid_parse 4 junk name = Some u \<and> length u = 16 \<and>
      uuid_text 4 u = map tolower name))"
proof (intro conjI allI impI)
  fix u :: "byte list" assume u: "length u = 16"
  then show s: "uuid_shape (uuid_text 4 u)" by (simp add: uuid_text_shape)
  from uuid_parse_shape_4 [OF s assms] obtain v where v: "uuid_parse 4 junk (uuid_text 4 u) = Some v"
    "length v = 16" "uuid_text 4 v = map tolower (uuid_text 4 u)" by blast
  with u have "v = u" by (intro uuid_text_inj [of v u 4 4]) (simp_all add: uuid_text_lower)
  with v show "uuid_parse 4 junk (uuid_text 4 u) = Some u" by simp
qed (use uuid_parse_shape_4 [OF _ assms] in blast)

lemma sample_name: "uuid_shape ''12345678-9aBC-def0-1234-56789abcdeF0''"
  by code_simp

theorem uuid_roundtrip_witness:
  "uuid_parse 4 (replicate 16 7) (uuid_text 4 (replicate 16 201)) = Some (replicate 16 201) \<and>
    (\<exists>u. uuid_parse 4 (replicate 16 7) ''12345678-9aBC-def0-1234-56789abcdeF0'' = Some u \<and> length u = 16 \<and> uuid_text 4 u = map tolower ''12345678-9aBC-def0-1234-56789abcdeF0'')"
  by (intro conjI uuid_roundtrip [THEN conjunct1, rule_format, THEN conjunct2]
        uuid_roundtrip [THEN conjunct2, rule_format] sample_name) (simp_all only: length_replicate)

text \<open>
  On a platform with 8-byte longs the same code loses the second and third group.  The last
  four-byte swap is done with an eight-byte store, so the id of a well-formed name prints as the
  name in lower case with those two groups replaced by zeros; it equals the name only when they
  were zero.
\<close>

theorem uuid_parse_64_loses_groups:
  assumes "length junk = 16" and "uuid_shape name"
  shows "\<exists>u. uuid_parse 8 junk name = Some u \<and> length u = 16 \<and>
    uuid_text 8 u = take 9 (map tolower name) @ ''0000-0000'' @ drop 18 (map tolower name) \<and>
    (uuid_text 8 u = map tolower name \<longleftrightarrow> take 9 (drop 9 name) = ''0000-0000'')"
proof -
  from uuid_parse_shape_8 [OF assms(2,1)] obtain u where u: "uuid_parse 8 junk name = Some u" "length u = 16"
    "uuid_text 8 u = take 9 (map tolower name) @ ''0000-0000'' @ drop 18 (map tolower name)" by blast
  have len: "length name = 36" using assms(2) by (simp add: uuid_shape_def)
  have split: "map tolower name = take 9 (map tolower name) @ take 9 (drop 9 (map tolower name)) @
      drop 18 (map tolower name)"
    using append_take_drop_id [of 9 "map tolower name"] append_take_drop_id [of 9 "drop 9 (map tolower name)"]
    by simp
  have "uuid_text 8 u = map tolower name \<longleftrightarrow> take 9 (drop 9 (map tolower name)) = ''0000-0000''"
    unfolding u(3) using len by (subst (3) split) auto
  also have "\<dots> \<longleftrightarrow> map tolower (take 9 (drop 9 name)) = ''0000-0000''"
    by (simp add: take_map drop_map)
  also have "\<dots> \<longleftrightarrow> take 9 (drop 9 name) = ''0000-0000''"
    by (auto simp: map_eq_Cons_conv tolower_plain)
  finally show ?thesis using u by blast
qed

text \<open>
  C31: parsing never writes outside the 16-byte buffer, on either platform and for any name, well formed
  or not.
\<close>

theorem uuid_parse_in_bounds:
  assumes "L = 4 \<or> L = 8"
  shows "list_all (in_bounds 16) (uuid_format L) \<and>
    (\<forall>junk name. length junk = 16 \<longrightarrow> length (snd (sscanf (uuid_format L) name junk)) = 16 \<and>
      (\<forall>u. uuid_parse L junk name = Some u \<longrightarrow> length u = 16))"
proof (intro conjI allI impI)
  show b: "list_all (in_bounds 16) (uuid_format L)" using assms by (auto simp: uuid_format_def)
  fix junk :: "byte list" and name assume j: "length junk = 16"
  with b sscanf_length [of "uuid_format L" junk name]
  show "length (snd (sscanf (uuid_format L) name junk)) = 16" by (simp add: list_all_iff)
  show "length u = 16" if "uuid_parse L junk name = Some u" for u
    using uuid_parse_length [OF assms j that] .
qed

theorem uuid_parse_in_bounds_witness:
  "list_all (in_bounds 16) (uuid_format 8) \<and>
    length (snd (sscanf (uuid_format 8) ''0x1 -23'' (replicate 16 7))) = 16"
  by (intro conjI uuid_parse_in_bounds [THEN conjunct1]
        uuid_parse_in_bounds [THEN conjunct2, rule_format, THEN conjunct1]) (simp_all only: length_replicate, simp_all)

theorem uuid_parse_64_loses_groups_witness:
  "\<exists>u. uuid_parse 8 (replicate 16 7) ''12345678-9aBC-def0-1234-56789abcdeF0'' = Some u \<and> length u = 16 \<and>
    uuid_text 8 u = take 9 (map tolower ''12345678-9aBC-def0-1234-56789abcdeF0'') @ ''0000-0000'' @
      drop 18 (map tolower ''12345678-9aBC-def0-1234-56789abcdeF0'') \<and>
    (uuid_text 8 u = map tolower ''12345678-9aBC-def0-1234-56789abcdeF0'' \<longleftrightarrow>
      take 9 (drop 9 ''12345678-9aBC-def0-1234-56789abcdeF0'') = ''0000-0000'')"
  by (rule uuid_parse_64_loses_groups [OF _ sample_name]) simp

end
