(* ===== verification/Manager.thy ===== *)
theory Manager
  imports Queue_Spec Uuid
begin

text \<open>
  The manager component, \<open>src/manager.c\<close> and \<open>src/manager-internal.h\<close>: the list of the queues
  the server offers, each with its printed id, the list of the wants of websocket clients, and
  the servers whose routes it registers.  The memory of the queue component is extended by the
  stores of these structures and by the global context.

  Calls into libevent and into \<open>src/ws.c\<close> that register routes only have an effect inside those
  components; they are recorded, in order, in the log \<open>ev_calls\<close>.
\<close>

section \<open>Structures\<close>

record manager_queue =
  mq_q :: "addr option"
  mq_id :: cstring

record manager_queue_want =
  want_identifier :: "cstring option"
  cancelled :: bool
  want_queue :: "addr option"
  want_client :: "addr option"

record manager_server =
  s_http :: addr
  s_ws :: addr

text \<open>The request callbacks of \<open>src/connection-http.c\<close>, by name.\<close>

datatype endpoint = Callback_queues | Callback_queue | Callback_take | Callback_peek | Callback_put

text \<open>\<open>struct connection_params\<close>, the user argument of the authentication callbacks.\<close>

record connection_params =
  cp_auth :: addr
  cp_realm :: cstring
  cp_cb :: "endpoint option"

text \<open>
  What \<open>evhttp_set_cb\<close> is given: a plain callback, or \<open>connection_http_authenticated\<close> with its
  parameters (NULL when they could not be allocated).
\<close>

datatype route = Plain endpoint | Authenticated "addr option"

datatype ev_call =
    Evhttp_set_cb addr cstring route
  | Evhttp_del_cb addr cstring
  | Evws_set_upgrade_cb addr "addr option"
  | Evws_bind_path addr cstring
  | Evws_unbind_path addr cstring
  | Evws_set_cb addr
  | Evws_set_close_cb addr
  | Evws_set_error_cb addr

record manager_mem = queue_mem +
  mqueue_at :: "addr \<Rightarrow> manager_queue option"
  want_at :: "addr \<Rightarrow> manager_queue_want option"
  params_at :: "addr \<Rightarrow> connection_params option"
  ctx_servers :: "manager_server list"
  ctx_queues :: "addr list"
  ctx_wants :: "addr list"
  ev_calls :: "ev_call list"

definition QUEUE_UUID_STR_LEN :: nat where
  "QUEUE_UUID_STR_LEN = 36"

section \<open>Start and servers\<close>

definition manager_startup :: "'z manager_mem_scheme \<Rightarrow> 'z manager_mem_scheme" where
  "manager_startup h = h\<lparr>ctx_servers := [], ctx_queues := [], ctx_wants := []\<rparr>"

definition ev_log :: "ev_call list \<Rightarrow> 'z manager_mem_scheme \<Rightarrow> 'z manager_mem_scheme" where
  "ev_log es h = h\<lparr>ev_calls := ev_calls h @ es\<rparr>"

definition connection_http_auth_callback ::
  "addr \<Rightarrow> cstring \<Rightarrow> endpoint option \<Rightarrow> 'z manager_mem_scheme \<Rightarrow> addr option \<times> 'z manager_mem_scheme" where
  "connection_http_auth_callback auth realm cb h =
     (case calloc h of (None, h) \<Rightarrow> (None, h)
      | (Some p, h) \<Rightarrow> (Some p, h\<lparr>params_at := (params_at h)(p \<mapsto>
          \<lparr>cp_auth = auth, cp_realm = realm, cp_cb = cb\<rparr>)\<rparr>))"

definition set_authenticated ::
  "addr \<Rightarrow> cstring \<Rightarrow> addr \<Rightarrow> cstring \<Rightarrow> endpoint \<Rightarrow> 'z manager_mem_scheme \<Rightarrow> 'z manager_mem_scheme" where
  "set_authenticated auth realm srv path cb h =
     (let (p, h) = connection_http_auth_callback auth realm (Some cb) h
      in ev_log [Evhttp_set_cb srv path (Authenticated p)] h)"

definition manager_add_server ::
  "addr \<Rightarrow> addr \<Rightarrow> addr option \<Rightarrow> cstring option \<Rightarrow> 'z manager_mem_scheme \<Rightarrow> int \<times> 'z manager_mem_scheme" where
  "manager_add_server srv wsa auth auth_realm h =
     (case calloc h of
        (None, h) \<Rightarrow> (0, h)
      | (Some _, h) \<Rightarrow>
         (let h = (case (auth, auth_realm) of
              (Some a, Some realm) \<Rightarrow>
                (let h = set_authenticated a realm srv ''/queues'' Callback_queues h;
                     h = set_authenticated a realm srv ''/queue'' Callback_queue h;
                     h = set_authenticated a realm srv ''/take'' Callback_take h;
                     h = set_authenticated a realm srv ''/peek'' Callback_peek h;
                     h = set_authenticated a realm srv ''/put'' Callback_put h;
                     (p, h) = connection_http_auth_callback a realm None h
                 in ev_log [Evws_set_upgrade_cb wsa p] h)
            | _ \<Rightarrow> ev_log [Evhttp_set_cb srv ''/queues'' (Plain Callback_queues),
                           Evhttp_set_cb srv ''/queue'' (Plain Callback_queue),
                           Evhttp_set_cb srv ''/take'' (Plain Callback_take),
                           Evhttp_set_cb srv ''/peek'' (Plain Callback_peek),
                           Evhttp_set_cb srv ''/put'' (Plain Callback_put)] h);
              h = ev_log [Evws_bind_path wsa ''/take/ws'', Evws_set_cb wsa,
                          Evws_set_close_cb wsa, Evws_set_error_cb wsa] h
          in (1, h\<lparr>ctx_servers := \<lparr>s_http = srv, s_ws = wsa\<rparr> # ctx_servers h\<rparr>)))"

section \<open>Queues\<close>

text \<open>\<open>queue_get_uuid\<close> of \<open>src/queue.c\<close>, on the store; \<open>L\<close> is \<open>sizeof(unsigned long)\<close>.\<close>

definition queue_get_uuid :: "nat \<Rightarrow> addr \<Rightarrow> 'z queue_mem_scheme \<Rightarrow> cstring option" where
  "queue_get_uuid L q h = do { Q \<leftarrow> queue_at h q; Some (uuid_text L (uuid Q)) }"

text \<open>The \<open>TAILQ_FOREACH\<close> of \<open>manager_queue_get\<close>.\<close>

fun scan_queues :: "'z manager_mem_scheme \<Rightarrow> cstring \<Rightarrow> addr list \<Rightarrow> addr option option" where
  "scan_queues h name [] = Some None"
| "scan_queues h name (m # ms) = do {
     M \<leftarrow> mqueue_at h m;
     if strcasecmp (mq_id M) name = 0 then Some (Some m) else scan_queues h name ms }"

definition set_mqueue :: "addr \<Rightarrow> manager_queue \<Rightarrow> 'z manager_mem_scheme \<Rightarrow> 'z manager_mem_scheme" where
  "set_mqueue m M h = h\<lparr>mqueue_at := (mqueue_at h)(m \<mapsto> M)\<rparr>"

definition free_mqueue :: "addr \<Rightarrow> 'z manager_mem_scheme \<Rightarrow> 'z manager_mem_scheme option" where
  "free_mqueue m h = do { _ \<leftarrow> mqueue_at h m; Some (h\<lparr>mqueue_at := (mqueue_at h)(m := None)\<rparr>) }"

text \<open>The second half of \<open>manager_queue_get\<close>, from the allocation on.\<close>

definition manager_queue_create ::
  "nat \<Rightarrow> byte list option \<Rightarrow> 'z manager_mem_scheme \<Rightarrow> (addr option \<times> 'z manager_mem_scheme) option" where
  "manager_queue_create L used_r h =
     (case calloc h of
        (None, h) \<Rightarrow> Some (None, h)
      | (Some m, h) \<Rightarrow> do {
          let h = set_mqueue m \<lparr>mq_q = None, mq_id = []\<rparr> h;
          (q, h) \<leftarrow> queue_new used_r h;
          case q of
            None \<Rightarrow> do { h \<leftarrow> free_mqueue m h; Some (None, h) }
          | Some q \<Rightarrow> do {
              i \<leftarrow> queue_get_uuid L q h;
              let h = set_mqueue m \<lparr>mq_q = Some q, mq_id = i\<rparr> h;
              Some (Some m, h\<lparr>ctx_queues := tailq_insert_tail m (ctx_queues h)\<rparr>) } })"

text \<open>\<open>junk\<close> is the content of the uninitialised buffer \<open>r\<close>.\<close>

definition manager_queue_get ::
  "nat \<Rightarrow> byte list \<Rightarrow> cstring option \<Rightarrow> bool \<Rightarrow> 'z manager_mem_scheme \<Rightarrow>
   (addr option \<times> 'z manager_mem_scheme) option" where
  "manager_queue_get L junk name create_new h =
     (case name of
        Some s \<Rightarrow>
          if length s \<noteq> QUEUE_UUID_STR_LEN then Some (None, h)
          else do {
            m \<leftarrow> scan_queues h s (ctx_queues h);
            case m of
              Some m \<Rightarrow> Some (Some m, h)
            | None \<Rightarrow>
                if \<not> create_new then Some (None, h)
                else (case uuid_parse L junk s of
                        None \<Rightarrow> Some (None, h)
                      | Some r \<Rightarrow> manager_queue_create L (Some r) h) }
      | None \<Rightarrow>
          if \<not> create_new then Some (None, h) else manager_queue_create L None h)"

definition manager_queue_free :: "addr \<Rightarrow> 'z manager_mem_scheme \<Rightarrow> 'z manager_mem_scheme option" where
  "manager_queue_free m h = do {
     M \<leftarrow> mqueue_at h m;
     ms \<leftarrow> tailq_remove m (ctx_queues h);
     let h = h\<lparr>ctx_queues := ms\<rparr>;
     q \<leftarrow> mq_q M;
     h \<leftarrow> queue_free q h;
     free_mqueue m h }"

definition manager_queue_get_queue :: "addr \<Rightarrow> 'z manager_mem_scheme \<Rightarrow> addr option option" where
  "manager_queue_get_queue m h = do { M \<leftarrow> mqueue_at h m; Some (mq_q M) }"

definition manager_queue_get_id :: "addr \<Rightarrow> 'z manager_mem_scheme \<Rightarrow> cstring option" where
  "manager_queue_get_id m h = do { M \<leftarrow> mqueue_at h m; Some (mq_id M) }"

text \<open>
  \<open>manager_queue_foreach\<close>: the callback returns 0 to stop.  The next queue is read from the
  element after the callback has run, so the callback is given the state \<open>'s\<close> it works on, and
  the memory stays as it is, as in the only use, \<open>list_foreach_callback\<close>.
\<close>

fun foreach_loop ::
  "(addr \<Rightarrow> 's \<Rightarrow> (int \<times> 's) option) \<Rightarrow> addr list \<Rightarrow> 's \<Rightarrow> (int \<times> 's) option" where
  "foreach_loop cb [] s = Some (1, s)"
| "foreach_loop cb (m # ms) s = do {
     (r, s) \<leftarrow> cb m s;
     if r = 0 then Some (0, s) else foreach_loop cb ms s }"

definition manager_queue_foreach ::
  "(addr \<Rightarrow> 's \<Rightarrow> (int \<times> 's) option) \<Rightarrow> 's \<Rightarrow> 'z manager_mem_scheme \<Rightarrow> (int \<times> 's) option" where
  "manager_queue_foreach cb s h = foreach_loop cb (ctx_queues h) s"

section \<open>Wants\<close>

definition set_want :: "addr \<Rightarrow> manager_queue_want \<Rightarrow> 'z manager_mem_scheme \<Rightarrow> 'z manager_mem_scheme" where
  "set_want w W h = h\<lparr>want_at := (want_at h)(w \<mapsto> W)\<rparr>"

definition free_want :: "addr \<Rightarrow> 'z manager_mem_scheme \<Rightarrow> 'z manager_mem_scheme option" where
  "free_want w h = do { _ \<leftarrow> want_at h w; Some (h\<lparr>want_at := (want_at h)(w := None)\<rparr>) }"

definition manager_queue_want_new ::
  "cstring \<Rightarrow> addr \<Rightarrow> addr \<Rightarrow> 'z manager_mem_scheme \<Rightarrow> (addr option \<times> 'z manager_mem_scheme) option" where
  "manager_queue_want_new ident con m h =
     (case calloc h of
        (None, h) \<Rightarrow> Some (None, h)
      | (Some w, h) \<Rightarrow>
         (let h = set_want w \<lparr>want_identifier = None, cancelled = False, want_queue = None, want_client = None\<rparr> h
          in case strdup ident h of
               (None, h) \<Rightarrow> do { h \<leftarrow> free_want w h; Some (None, h) }
             | (Some i, h) \<Rightarrow>
                 (let h = set_want w \<lparr>want_identifier = Some i, cancelled = False,
                                      want_queue = Some m, want_client = Some con\<rparr> h
                  in Some (Some w, h\<lparr>ctx_wants := tailq_insert_tail w (ctx_wants h)\<rparr>))))"

definition manager_queue_want_free :: "addr \<Rightarrow> 'z manager_mem_scheme \<Rightarrow> 'z manager_mem_scheme option" where
  "manager_queue_want_free w h = do {
     _ \<leftarrow> want_at h w;
     ws \<leftarrow> tailq_remove w (ctx_wants h);
     free_want w (h\<lparr>ctx_wants := ws\<rparr>) }"

definition manager_queue_want_is_cancelled :: "addr \<Rightarrow> 'z manager_mem_scheme \<Rightarrow> bool option" where
  "manager_queue_want_is_cancelled w h = do { W \<leftarrow> want_at h w; Some (cancelled W) }"

definition manager_queue_want_get_connection :: "addr \<Rightarrow> 'z manager_mem_scheme \<Rightarrow> addr option option" where
  "manager_queue_want_get_connection w h = do { W \<leftarrow> want_at h w; Some (want_client W) }"

definition manager_queue_want_get_identifier :: "addr \<Rightarrow> 'z manager_mem_scheme \<Rightarrow> cstring option option" where
  "manager_queue_want_get_identifier w h = do { W \<leftarrow> want_at h w; Some (want_identifier W) }"

text \<open>The two loops that cancel wants.\<close>

fun cancel_wants ::
  "(manager_queue_want \<Rightarrow> bool) \<Rightarrow> addr list \<Rightarrow> 'z manager_mem_scheme \<Rightarrow> 'z manager_mem_scheme option" where
  "cancel_wants P [] h = Some h"
| "cancel_wants P (w # ws) h = do {
     W \<leftarrow> want_at h w;
     cancel_wants P ws (if P W then set_want w (W\<lparr>cancelled := True\<rparr>) h else h) }"

definition manager_queue_want_remove :: "addr \<Rightarrow> 'z manager_mem_scheme \<Rightarrow> 'z manager_mem_scheme option" where
  "manager_queue_want_remove m h = cancel_wants (\<lambda>W. want_queue W = Some m) (ctx_wants h) h"

definition manager_queue_want_close :: "addr \<Rightarrow> 'z manager_mem_scheme \<Rightarrow> 'z manager_mem_scheme option" where
  "manager_queue_want_close con h = cancel_wants (\<lambda>W. want_client W = Some con) (ctx_wants h) h"

section \<open>Shutdown\<close>

text \<open>The first loop of \<open>manager_shutdown\<close> never removes a server from the list it drains.\<close>

definition del_routes :: "manager_server \<Rightarrow> 'z manager_mem_scheme \<Rightarrow> 'z manager_mem_scheme" where
  "del_routes s h = ev_log [Evhttp_del_cb (s_http s) ''/queues'', Evhttp_del_cb (s_http s) ''/queue'',
     Evhttp_del_cb (s_http s) ''/take'', Evhttp_del_cb (s_http s) ''/peek'', Evhttp_del_cb (s_http s) ''/put'',
     Evws_unbind_path (s_ws s) ''/take/ws''] h"

partial_function (option) shutdown_servers ::
  "'z manager_mem_scheme \<Rightarrow> 'z manager_mem_scheme option" where
  "shutdown_servers h = (case ctx_servers h of
     [] \<Rightarrow> Some h
   | s # _ \<Rightarrow> shutdown_servers (del_routes s h))"

partial_function (option) shutdown_wants ::
  "'z manager_mem_scheme \<Rightarrow> 'z manager_mem_scheme option" where
  "shutdown_wants h = (case ctx_wants h of
     [] \<Rightarrow> Some h
   | w # _ \<Rightarrow> do { h \<leftarrow> manager_queue_want_free w h; shutdown_wants h })"

partial_function (option) shutdown_queues ::
  "'z manager_mem_scheme \<Rightarrow> 'z manager_mem_scheme option" where
  "shutdown_queues h = (case ctx_queues h of
     [] \<Rightarrow> Some h
   | m # _ \<Rightarrow> do { h \<leftarrow> manager_queue_free m h; shutdown_queues h })"

definition manager_shutdown :: "'z manager_mem_scheme \<Rightarrow> 'z manager_mem_scheme option" where
  "manager_shutdown h = do {
     h \<leftarrow> shutdown_servers h;
     h \<leftarrow> shutdown_wants h;
     shutdown_queues h }"

end
