(* ===== verification/Manager_Correct.thy ===== *)
theory Manager_Correct
  imports Manager
begin

text \<open>
  The invariant of the manager and what its operations do on a memory that satisfies it: the two
  lists of the context link exactly the structures that are allocated, every managed queue owns
  one queue and caches its id, and no queue exists outside the manager.
\<close>

section \<open>The extended memory\<close>

lemma manager_more:
  "queue_mem.more h' = queue_mem.more (h :: 'z manager_mem_scheme) \<longleftrightarrow>
     mqueue_at h' = mqueue_at h \<and> want_at h' = want_at h \<and> params_at h' = params_at h \<and>
     ctx_servers h' = ctx_servers h \<and> ctx_queues h' = ctx_queues h \<and> ctx_wants h' = ctx_wants h \<and>
     ev_calls h' = ev_calls h \<and> manager_mem.more h' = manager_mem.more h"
  by (cases h rule: manager_mem.cases_scheme; cases h' rule: manager_mem.cases_scheme) auto

lemma heap_inv_ext:
  assumes "item_at h' = item_at h" "callback_at h' = callback_at h" "queue_at h' = queue_at h"
    "next_addr h' = next_addr h"
  shows "heap_inv h' = heap_inv h"
proof -
  have "queue_ok h' q Q = queue_ok h q Q" for q Q
    using queue_ok_cong [of h q Q h'] queue_ok_cong [of h' q Q h] assms by auto
  with assms show ?thesis by (simp add: heap_inv_def bounded_def)
qed

lemma set_mqueue_simps [simp]:
  "mqueue_at (set_mqueue m M h) = (mqueue_at h)(m \<mapsto> M)" "want_at (set_mqueue m M h) = want_at h"
  "params_at (set_mqueue m M h) = params_at h" "ctx_servers (set_mqueue m M h) = ctx_servers h"
  "ctx_queues (set_mqueue m M h) = ctx_queues h" "ctx_wants (set_mqueue m M h) = ctx_wants h"
  "ev_calls (set_mqueue m M h) = ev_calls h" "item_at (set_mqueue m M h) = item_at h"
  "callback_at (set_mqueue m M h) = callback_at h" "queue_at (set_mqueue m M h) = queue_at h"
  "next_addr (set_mqueue m M h) = next_addr h" "alloc_ok (set_mqueue m M h) = alloc_ok h"
  "rand_bytes (set_mqueue m M h) = rand_bytes h" "rand_count (set_mqueue m M h) = rand_count h"
  "manager_mem.more (set_mqueue m M h) = manager_mem.more h"
  by (cases h rule: manager_mem.cases_scheme, simp add: set_mqueue_def)+

lemma set_want_simps [simp]:
  "mqueue_at (set_want w W h) = mqueue_at h" "want_at (set_want w W h) = (want_at h)(w \<mapsto> W)"
  "params_at (set_want w W h) = params_at h" "ctx_servers (set_want w W h) = ctx_servers h"
  "ctx_queues (set_want w W h) = ctx_queues h" "ctx_wants (set_want w W h) = ctx_wants h"
  "ev_calls (set_want w W h) = ev_calls h" "item_at (set_want w W h) = item_at h"
  "callback_at (set_want w W h) = callback_at h" "queue_at (set_want w W h) = queue_at h"
  "next_addr (set_want w W h) = next_addr h" "alloc_ok (set_want w W h) = alloc_ok h"
  "alloc_count (set_want w W h) = alloc_count h"
  "rand_bytes (set_want w W h) = rand_bytes h" "rand_count (set_want w W h) = rand_count h"
  "manager_mem.more (set_want w W h) = manager_mem.more h"
  by (cases h rule: manager_mem.cases_scheme, simp add: set_want_def)+

lemma ticks_manager_simps [simp]:
  "mqueue_at (ticks m n h) = mqueue_at h" "want_at (ticks m n h) = want_at h"
  "params_at (ticks m n h) = params_at h" "ctx_servers (ticks m n h) = ctx_servers h"
  "ctx_queues (ticks m n h) = ctx_queues h" "ctx_wants (ticks m n h) = ctx_wants h"
  "ev_calls (ticks m n h) = ev_calls h" "rand_count (ticks m n h) = rand_count h"
  "manager_mem.more (ticks m n h) = manager_mem.more h"
  by (cases h rule: manager_mem.cases_scheme, simp add: ticks_def)+

lemma set_queue_manager_simps [simp]:
  "mqueue_at (set_queue q Q h) = mqueue_at h" "want_at (set_queue q Q h) = want_at h"
  "params_at (set_queue q Q h) = params_at h" "ctx_servers (set_queue q Q h) = ctx_servers h"
  "ctx_queues (set_queue q Q h) = ctx_queues h" "ctx_wants (set_queue q Q h) = ctx_wants h"
  "ev_calls (set_queue q Q h) = ev_calls h" "manager_mem.more (set_queue q Q h) = manager_mem.more h"
  by (cases h rule: manager_mem.cases_scheme, simp add: set_queue_def)+

section \<open>The invariant\<close>

definition managed :: "'z manager_mem_scheme \<Rightarrow> addr \<Rightarrow> addr \<Rightarrow> bool" where
  "managed h m q \<longleftrightarrow> (\<exists>M. mqueue_at h m = Some M \<and> mq_q M = Some q)"

definition mqueue_ok :: "nat \<Rightarrow> 'z manager_mem_scheme \<Rightarrow> addr \<Rightarrow> manager_queue \<Rightarrow> bool" where
  "mqueue_ok L h m M \<longleftrightarrow> 0 < m \<and> m < next_addr h \<and>
     (\<exists>q Q. mq_q M = Some q \<and> queue_at h q = Some Q \<and> mq_id M = uuid_text L (uuid Q))"

definition want_ok :: "'z manager_mem_scheme \<Rightarrow> addr \<Rightarrow> manager_queue_want \<Rightarrow> bool" where
  "want_ok h w W \<longleftrightarrow> 0 < w \<and> w < next_addr h \<and> want_identifier W \<noteq> None \<and>
     want_queue W \<noteq> None \<and> want_client W \<noteq> None"

definition manager_inv :: "nat \<Rightarrow> 'z manager_mem_scheme \<Rightarrow> bool" where
  "manager_inv L h \<longleftrightarrow> heap_inv h \<and> distinct (ctx_queues h) \<and> distinct (ctx_wants h) \<and>
     dom (mqueue_at h) = set (ctx_queues h) \<and> dom (want_at h) = set (ctx_wants h) \<and>
     (\<forall>m M. mqueue_at h m = Some M \<longrightarrow> mqueue_ok L h m M) \<and>
     (\<forall>w W. want_at h w = Some W \<longrightarrow> want_ok h w W) \<and>
     (\<forall>q. queue_at h q \<noteq> None \<longrightarrow> (\<exists>!m. managed h m q))"

lemma manager_inv_heap: "manager_inv L h \<Longrightarrow> heap_inv h"
  by (simp add: manager_inv_def)

lemma manager_inv_mqueue:
  assumes "manager_inv L h" and "m \<in> set (ctx_queues h)"
  obtains M q Q where "mqueue_at h m = Some M" "mq_q M = Some q" "queue_at h q = Some Q"
    "mq_id M = uuid_text L (uuid Q)" "length (uuid Q) = 16"
proof -
  from assms have "m \<in> dom (mqueue_at h)" by (simp add: manager_inv_def)
  then obtain M where M: "mqueue_at h m = Some M" by blast
  with assms(1) obtain q Q where "mq_q M = Some q" "queue_at h q = Some Q" "mq_id M = uuid_text L (uuid Q)"
    unfolding manager_inv_def mqueue_ok_def by blast
  with M heap_inv_queue [OF manager_inv_heap [OF assms(1)]] that show thesis
    by (auto simp: queue_ok_def)
qed

lemma manager_inv_fresh:
  assumes "manager_inv L h"
  shows "mqueue_at h (next_addr h) = None" and "want_at h (next_addr h) = None"
proof -
  from assms have "\<And>M. mqueue_at h (next_addr h) = Some M \<Longrightarrow> mqueue_ok L h (next_addr h) M"
    and "\<And>W. want_at h (next_addr h) = Some W \<Longrightarrow> want_ok h (next_addr h) W"
    by (simp_all add: manager_inv_def)
  then show "mqueue_at h (next_addr h) = None" and "want_at h (next_addr h) = None"
    unfolding mqueue_ok_def want_ok_def by (metis less_irrefl option.exhaust)+
qed

text \<open>The queues may change as long as they stay in order, keep their ids and stay where they are.\<close>

definition queue_frame :: "'z queue_mem_scheme \<Rightarrow> 'z queue_mem_scheme \<Rightarrow> bool" where
  "queue_frame h h' \<longleftrightarrow> queue_mem.more h' = queue_mem.more h \<and> next_addr h \<le> next_addr h' \<and>
     (\<forall>q. map_option uuid (queue_at h' q) = map_option uuid (queue_at h q))"

lemma queue_frame_refl [simp]: "queue_frame h h"
  by (simp add: queue_frame_def)

lemma queue_frame_trans [trans]: "queue_frame h h' \<Longrightarrow> queue_frame h' h'' \<Longrightarrow> queue_frame h h''"
  by (auto simp: queue_frame_def)

lemma same_store_frame: "same_store h h' \<Longrightarrow> queue_frame h h'"
  by (simp add: same_store_def queue_frame_def)

lemma manager_inv_frame:
  assumes inv: "manager_inv L h" and f: "queue_frame h h'" and hi: "heap_inv h'"
  shows "manager_inv L h'"
proof -
  have eq: "mqueue_at h' = mqueue_at h" "want_at h' = want_at h" "ctx_queues h' = ctx_queues h"
    "ctx_wants h' = ctx_wants h" and n: "next_addr h \<le> next_addr h'"
    using f by (simp_all add: queue_frame_def manager_more)
  have u: "map_option uuid (queue_at h' q) = map_option uuid (queue_at h q)" for q
    using f by (simp add: queue_frame_def)
  have d: "queue_at h' q = None \<longleftrightarrow> queue_at h q = None" for q
    using u [of q] by (metis map_option_is_None)
  have "mqueue_ok L h' m M" if "mqueue_ok L h m M" for m M
  proof -
    from that obtain q Q where q: "mq_q M = Some q" "queue_at h q = Some Q" "mq_id M = uuid_text L (uuid Q)"
      and m: "0 < m" "m < next_addr h" by (auto simp: mqueue_ok_def)
    from u [of q] q(2) obtain Q' where "queue_at h' q = Some Q'" "uuid Q' = uuid Q"
      by (auto simp: map_option_case split: option.splits)
    with q m n show ?thesis by (auto simp: mqueue_ok_def)
  qed
  moreover have "want_ok h' w W" if "want_ok h w W" for w W using that n by (auto simp: want_ok_def)
  ultimately show ?thesis using inv hi d unfolding manager_inv_def managed_def eq by simp
qed

lemma manager_inv_same_store: "manager_inv L h \<Longrightarrow> same_store h h' \<Longrightarrow> manager_inv L h'"
  by (meson manager_inv_frame same_store_frame same_store_inv manager_inv_heap)

section \<open>Looking up and creating queues\<close>

definition queue_id :: "'z manager_mem_scheme \<Rightarrow> addr \<Rightarrow> cstring" where
  "queue_id h m = (case mqueue_at h m of None \<Rightarrow> [] | Some M \<Rightarrow> mq_id M)"

lemma scan_queues_find:
  "\<forall>m \<in> set ms. mqueue_at h m \<noteq> None \<Longrightarrow>
   scan_queues h name ms = Some (List.find (\<lambda>m. strcasecmp (queue_id h m) name = 0) ms)"
  by (induction ms) (auto simp: queue_id_def)

lemma manager_scan:
  "manager_inv L h \<Longrightarrow> scan_queues h name (ctx_queues h) =
     Some (List.find (\<lambda>m. strcasecmp (queue_id h m) name = 0) (ctx_queues h))"
  by (rule scan_queues_find) (auto elim: manager_inv_mqueue)

text \<open>Every request of a call that makes at most \<open>n\<close> structures will be granted.\<close>

definition room :: "nat \<Rightarrow> 'z mem_scheme \<Rightarrow> bool" where
  "room n h \<longleftrightarrow> (\<forall>k. alloc_ok h k) \<and> next_addr h + n \<le> alloc_limit"

text \<open>The memory after a queue has been created.\<close>

definition created ::
  "nat \<Rightarrow> addr \<Rightarrow> addr \<Rightarrow> byte list \<Rightarrow> 'z manager_mem_scheme \<Rightarrow> 'z manager_mem_scheme \<Rightarrow> bool" where
  "created L m q u h h' \<longleftrightarrow> mqueue_at h m = None \<and> queue_at h q = None \<and>
     0 < m \<and> m < next_addr h' \<and> 0 < q \<and> q < next_addr h' \<and>
     next_addr h \<le> next_addr h' \<and> next_addr h' \<le> alloc_limit \<and>
     item_at h' = item_at h \<and> callback_at h' = callback_at h \<and>
     queue_at h' = (queue_at h)(q \<mapsto> zero_queue\<lparr>uuid := u\<rparr>) \<and>
     mqueue_at h' = (mqueue_at h)(m \<mapsto> \<lparr>mq_q = Some q, mq_id = uuid_text L u\<rparr>) \<and>
     ctx_queues h' = ctx_queues h @ [m] \<and> want_at h' = want_at h \<and> ctx_wants h' = ctx_wants h \<and>
     params_at h' = params_at h \<and> ctx_servers h' = ctx_servers h \<and> ev_calls h' = ev_calls h \<and>
     rand_bytes h' = rand_bytes h \<and> manager_mem.more h' = manager_mem.more h"

lemma created_inv:
  assumes inv: "manager_inv L h" and c: "created L m q u h h'" and u: "length u = 16"
  shows "manager_inv L h'"
proof -
  have "heap_inv (set_queue q (zero_queue\<lparr>uuid := u\<rparr>) (h\<lparr>next_addr := next_addr h'\<rparr>))"
  proof (rule new_queue_inv [OF same_store_inv [OF manager_inv_heap [OF inv]]])
    show "same_store h (h\<lparr>next_addr := next_addr h'\<rparr>)"
      using c by (simp add: same_store_def created_def)
  qed (use c u in \<open>auto simp: created_def\<close>)
  also have "?this \<longleftrightarrow> heap_inv h'"
    by (rule heap_inv_ext [symmetric]) (use c in \<open>auto simp: created_def\<close>)
  finally have hi: "heap_inv h'" .
  have m: "m \<notin> set (ctx_queues h)" using inv c by (auto simp: manager_inv_def created_def)
  have mo: "mqueue_ok L h' m' M" if "mqueue_at h m' = Some M" for m' M
  proof -
    from that inv have "mqueue_ok L h m' M" by (simp add: manager_inv_def)
    then show ?thesis using c by (auto simp: mqueue_ok_def created_def)
  qed
  have mg: "managed h' m' q' \<longleftrightarrow> (if m' = m then q' = q else managed h m' q')" for m' q'
    using c by (auto simp: managed_def created_def)
  have "\<exists>!m'. managed h' m' q'" if "queue_at h' q' \<noteq> None" for q'
  proof (cases "q' = q")
    case True
    have "\<not> managed h m' q" for m'
    proof
      assume "managed h m' q"
      then obtain M where M: "mqueue_at h m' = Some M" "mq_q M = Some q" by (auto simp: managed_def)
      with inv have "mqueue_ok L h m' M" by (simp add: manager_inv_def)
      with M c show False by (auto simp: mqueue_ok_def created_def)
    qed
    with True mg show ?thesis by auto
  next
    case False
    with that c have "queue_at h q' \<noteq> None" by (simp add: created_def)
    with inv have "\<exists>!m'. managed h m' q'" by (simp add: manager_inv_def)
    moreover have "\<not> managed h m q'" using c by (simp add: managed_def created_def)
    ultimately show ?thesis using False mg by auto metis
  qed
  moreover have "want_ok h' w W" if "want_at h w = Some W" for w W
  proof -
    from that inv have "want_ok h w W" by (simp add: manager_inv_def)
    then show ?thesis using c by (auto simp: want_ok_def created_def)
  qed
  moreover have "mqueue_ok L h' m \<lparr>mq_q = Some q, mq_id = uuid_text L u\<rparr>"
    using c by (simp add: mqueue_ok_def created_def)
  ultimately show ?thesis using inv c hi m mo
    by (auto simp: manager_inv_def created_def)
qed

lemma created_view:
  assumes c: "created L m q u h h'"
  shows "content h' q = []" "waiters h' q = []" and "p \<noteq> q \<Longrightarrow> same_view p h h'"
proof -
  have e: "entry_of h' = entry_of h" "waiter_of h' = waiter_of h"
    using c by (auto simp: created_def entry_of_def waiter_of_def)
  show "content h' q = []" "waiters h' q = []"
    using c by (simp_all add: content_def waiters_def created_def zero_queue_def)
  show "same_view p h h'" if "p \<noteq> q"
    using c that e by (simp add: same_view_def content_def waiters_def created_def split: option.split)
qed

lemma manager_create_cases:
  assumes inv: "manager_inv L h"
  obtains (fail) h' where "manager_queue_create L r h = Some (None, h')" "same_store h h'"
      "\<not> room 2 h \<or> fresh_uuid r h = None"
    | (new) m q u h' where "manager_queue_create L r h = Some (Some m, h')"
      "fresh_uuid r h = Some u" "created L m q u h h'"
proof (cases "alloc_ok h (alloc_count h) \<and> next_addr h < alloc_limit")
  case False
  then have "manager_queue_create L r h = Some (None, ticks 0 1 h)"
    by (auto simp: manager_queue_create_def calloc_eq)
  with False show thesis
    by (intro fail [OF _ same_store_ticks]) (auto simp: room_def)
next
  case True
  let ?m = "next_addr h"
  let ?M = "\<lparr>mq_q = None, mq_id = []\<rparr>"
  let ?h1 = "set_mqueue ?m ?M (ticks 1 1 h)"
  note hinv = manager_inv_heap [OF inv]
  have m: "mqueue_at h ?m = None" "0 < ?m"
    using manager_inv_fresh [OF inv] heap_inv_bounded [OF hinv] by (auto simp: bounded_def)
  have "heap_inv (ticks 1 1 h)"
    by (rule same_store_inv [OF hinv same_store_ticks]) (use True in auto)
  then have inv1: "heap_inv ?h1" by (subst heap_inv_ext [of _ "ticks 1 1 h"]) auto
  have fr: "fresh_uuid r ?h1 = fresh_uuid r h" by (cases r) (simp_all add: fresh_uuid_def)
  from inv1 show thesis
  proof (cases rule: queue_new_cases [where qid = r])
    case (fail h2)
    have more: "mqueue_at h2 = (mqueue_at h)(?m \<mapsto> ?M)" and eq: "want_at h2 = want_at h"
      "params_at h2 = params_at h" "ctx_servers h2 = ctx_servers h" "ctx_queues h2 = ctx_queues h"
      "ctx_wants h2 = ctx_wants h" "ev_calls h2 = ev_calls h" "manager_mem.more h2 = manager_mem.more h"
      using fail(2) by (simp_all add: same_store_def manager_more)
    let ?h3 = "h2\<lparr>mqueue_at := (mqueue_at h2)(?m := None)\<rparr>"
    have "manager_queue_create L r h = Some (None, ?h3)"
      using True fail(1) more by (simp add: manager_queue_create_def calloc_eq free_mqueue_def)
    moreover have "same_store h ?h3"
      using fail(2) more eq m(1) True by (auto simp: same_store_def manager_more fun_upd_idem)
    moreover have "\<not> room 2 h \<or> fresh_uuid r h = None"
      using fail(3) fr by (auto simp: mem_available_def room_def)
    ultimately show thesis using that(1) by blast
  next
    case (new q h0 b)
    have eq: "mqueue_at h0 = (mqueue_at h)(?m \<mapsto> ?M)" "want_at h0 = want_at h"
      "params_at h0 = params_at h" "ctx_servers h0 = ctx_servers h" "ctx_queues h0 = ctx_queues h"
      "ctx_wants h0 = ctx_wants h" "ev_calls h0 = ev_calls h" "manager_mem.more h0 = manager_mem.more h"
      "item_at h0 = item_at h" "callback_at h0 = callback_at h" "queue_at h0 = queue_at h"
      "rand_bytes h0 = rand_bytes h" "Suc ?m \<le> next_addr h0" "next_addr h0 \<le> alloc_limit"
      using new(3) True by (simp_all add: same_store_def manager_more)
    let ?h2 = "set_queue q (zero_queue\<lparr>uuid := b\<rparr>) h0"
    let ?h3 = "set_mqueue ?m \<lparr>mq_q = Some q, mq_id = uuid_text L b\<rparr> ?h2"
    let ?h4 = "?h3\<lparr>ctx_queues := tailq_insert_tail ?m (ctx_queues ?h3)\<rparr>"
    have "manager_queue_create L r h = Some (Some ?m, ?h4)"
      using True new(1) by (simp add: manager_queue_create_def calloc_eq queue_get_uuid_def)
    moreover have "created L ?m q b h ?h4"
      using eq m new by (simp add: created_def tailq_insert_tail_def)
    moreover have "fresh_uuid r h = Some b" using new(2) fr by simp
    ultimately show thesis using that(2) by blast
  qed
qed

text \<open>The three outcomes of \<open>manager_queue_get\<close>.\<close>

lemma manager_get_cases:
  assumes inv: "manager_inv L h" and junk: "length junk = 16" and L: "L = 4 \<or> L = 8" and rnd: "rand_ok h"
  obtains (found) s m where "name = Some s" "length s = 36" "m \<in> set (ctx_queues h)"
      "List.find (\<lambda>m. strcasecmp (queue_id h m) s = 0) (ctx_queues h) = Some m"
      "manager_queue_get L junk name c h = Some (Some m, h)"
    | (null) h' where "manager_queue_get L junk name c h = Some (None, h')" "same_store h h'"
    | (new) m q u h' where "c" "manager_queue_get L junk name c h = Some (Some m, h')"
      "created L m q u h h'" "length u = 16"
      "case name of Some s \<Rightarrow> length s = 36 \<and> uuid_parse L junk s = Some u \<and>
         (\<forall>m \<in> set (ctx_queues h). strcasecmp (queue_id h m) s \<noteq> 0)
       | None \<Rightarrow> fresh_uuid None h = Some u"
proof -
  have create: thesis
    if eq: "manager_queue_get L junk name c h = manager_queue_create L r h" and c: "c"
      and len: "\<And>u. fresh_uuid r h = Some u \<Longrightarrow> length u = 16"
      and nm: "\<And>u. fresh_uuid r h = Some u \<Longrightarrow> case name of Some s \<Rightarrow> length s = 36 \<and> uuid_parse L junk s = Some u \<and>
         (\<forall>m \<in> set (ctx_queues h). strcasecmp (queue_id h m) s \<noteq> 0)
       | None \<Rightarrow> fresh_uuid None h = Some u" for r
    using inv
  proof (cases rule: manager_create_cases [where r = r])
    case (fail h')
    with eq null show thesis by simp
  next
    case created: (new m q u h')
    with eq c len nm new show thesis by simp
  qed
  show thesis
  proof (cases name)
    case None
    show thesis
    proof (cases c)
      case True
      show thesis
        by (rule create [of None])
           (use None True rnd in \<open>auto simp: manager_queue_get_def fresh_uuid_def uuid4_def rand_ok_def\<close>)
    qed (use None null [of h] in \<open>simp add: manager_queue_get_def\<close>)
  next
    case (Some s)
    show thesis
    proof (cases "length s = 36")
      case False
      with Some null [of h] show thesis by (simp add: manager_queue_get_def QUEUE_UUID_STR_LEN_def)
    next
      case len: True
      note eq = Some len manager_scan [OF inv, of s]
      show thesis
      proof (cases "List.find (\<lambda>m. strcasecmp (queue_id h m) s = 0) (ctx_queues h)")
        case fd: (Some m)
        then have "m \<in> set (ctx_queues h)" by (auto simp: find_Some_iff)
        with fd eq found show thesis by (simp add: manager_queue_get_def QUEUE_UUID_STR_LEN_def)
      next
        case fn: None
        then have nf: "\<forall>m \<in> set (ctx_queues h). strcasecmp (queue_id h m) s \<noteq> 0"
          by (simp add: find_None_iff)
        show thesis
        proof (cases "c \<and> uuid_parse L junk s \<noteq> None")
          case False
          with eq fn null [of h] show thesis
            by (auto simp: manager_queue_get_def QUEUE_UUID_STR_LEN_def)
        next
          case True
          then obtain u where u: "uuid_parse L junk s = Some u" by blast
          show thesis
            by (rule create [of "Some u"])
               (use eq fn nf True u uuid_parse_length [OF L junk u] in
                 \<open>auto simp: manager_queue_get_def QUEUE_UUID_STR_LEN_def fresh_uuid_def\<close>)
        qed
      qed
    qed
  qed
qed

section \<open>Freeing a queue\<close>

definition mqueue_freed :: "addr \<Rightarrow> addr \<Rightarrow> queue \<Rightarrow> 'z manager_mem_scheme \<Rightarrow> 'z manager_mem_scheme" where
  "mqueue_freed m q Q h = (released q Q (h\<lparr>ctx_queues := remove1 m (ctx_queues h)\<rparr>))
     \<lparr>mqueue_at := (mqueue_at h)(m := None)\<rparr>"

lemma released_manager_simps [simp]:
  "mqueue_at (released q Q h) = mqueue_at h" "want_at (released q Q h) = want_at h"
  "params_at (released q Q h) = params_at h" "ctx_servers (released q Q h) = ctx_servers h"
  "ctx_queues (released q Q h) = ctx_queues h" "ctx_wants (released q Q h) = ctx_wants h"
  "ev_calls (released q Q h) = ev_calls h" "manager_mem.more (released q Q h) = manager_mem.more h"
  by (cases h rule: manager_mem.cases_scheme, simp add: released_def)+

lemma mqueue_freed_simps [simp]:
  "mqueue_at (mqueue_freed m q Q h) = (mqueue_at h)(m := None)"
  "want_at (mqueue_freed m q Q h) = want_at h" "params_at (mqueue_freed m q Q h) = params_at h"
  "ctx_servers (mqueue_freed m q Q h) = ctx_servers h"
  "ctx_queues (mqueue_freed m q Q h) = remove1 m (ctx_queues h)"
  "ctx_wants (mqueue_freed m q Q h) = ctx_wants h" "ev_calls (mqueue_freed m q Q h) = ev_calls h"
  "item_at (mqueue_freed m q Q h) = item_at h |` (- set (items Q))"
  "callback_at (mqueue_freed m q Q h) = callback_at h |` (- set (callbacks Q))"
  "queue_at (mqueue_freed m q Q h) = (queue_at h)(q := None)"
  "next_addr (mqueue_freed m q Q h) = next_addr h"
  "alloc_ok (mqueue_freed m q Q h) = alloc_ok h"
  "rand_bytes (mqueue_freed m q Q h) = rand_bytes h"
  "manager_mem.more (mqueue_freed m q Q h) = manager_mem.more h"
  by (simp_all add: mqueue_freed_def)

lemma manager_queue_free_eq:
  assumes inv: "manager_inv L h" and M: "mqueue_at h m = Some M" "mq_q M = Some q" "queue_at h q = Some Q"
  shows "manager_queue_free m h = Some (mqueue_freed m q Q h)"
proof -
  let ?h = "h\<lparr>ctx_queues := remove1 m (ctx_queues h)\<rparr>"
  have m: "m \<in> set (ctx_queues h)" using inv M(1) by (auto simp: manager_inv_def)
  have "heap_inv ?h" using manager_inv_heap [OF inv] by (subst heap_inv_ext [of _ h]) auto
  then have "queue_free q ?h = Some (released q Q ?h)" by (rule queue_free_eq) (simp add: M)
  with M m show ?thesis
    by (simp add: manager_queue_free_def free_mqueue_def mqueue_freed_def)
qed

lemma mqueue_freed_inv:
  assumes inv: "manager_inv L h" and M: "mqueue_at h m = Some M" "mq_q M = Some q" "queue_at h q = Some Q"
  shows "manager_inv L (mqueue_freed m q Q h)"
proof -
  let ?h = "mqueue_freed m q Q h"
  have hi: "heap_inv ?h"
    using released_inv [OF manager_inv_heap [OF inv] M(3)] by (subst heap_inv_ext [of _ "released q Q h"]) auto
  have un: "m' = m" if "managed h m' q" for m'
  proof -
    have "managed h m q" using M by (simp add: managed_def)
    with that inv M(3) show ?thesis by (auto simp: manager_inv_def)
  qed
  have mg: "managed ?h m' q' \<longleftrightarrow> m' \<noteq> m \<and> managed h m' q'" for m' q' by (auto simp: managed_def)
  have "\<exists>!m'. managed ?h m' q'" if "queue_at ?h q' \<noteq> None" for q'
  proof -
    from that have q': "q' \<noteq> q" "queue_at h q' \<noteq> None" by (auto split: if_splits)
    with inv have "\<exists>!m'. managed h m' q'" by (simp add: manager_inv_def)
    moreover have "\<not> managed h m q'" using M q' by (simp add: managed_def)
    ultimately show ?thesis using mg by metis
  qed
  moreover have "mqueue_ok L ?h m' M'" if "m' \<noteq> m" "mqueue_at h m' = Some M'" for m' M'
  proof -
    from that inv have "mqueue_ok L h m' M'" by (simp add: manager_inv_def)
    moreover have "mq_q M' \<noteq> Some q" using un [of m'] that by (auto simp: managed_def)
    ultimately show ?thesis by (auto simp: mqueue_ok_def)
  qed
  ultimately show ?thesis
    using inv hi by (auto simp: manager_inv_def want_ok_def dom_def split: if_splits)
qed

section \<open>Wants\<close>

definition want_added ::
  "addr \<Rightarrow> cstring \<Rightarrow> addr \<Rightarrow> addr \<Rightarrow> 'z manager_mem_scheme \<Rightarrow> 'z manager_mem_scheme" where
  "want_added w ident con m h = (set_want w \<lparr>want_identifier = Some ident, cancelled = False,
     want_queue = Some m, want_client = Some con\<rparr> h)\<lparr>ctx_wants := ctx_wants h @ [w]\<rparr>"

lemma want_new_cases:
  assumes inv: "manager_inv L h"
  obtains (fail) h' where "manager_queue_want_new ident con m h = Some (None, h')" "same_store h h'"
      "\<not> room 1 h"
    | (new) w h0 where "manager_queue_want_new ident con m h = Some (Some w, want_added w ident con m h0)"
      "same_store h h0" "want_at h w = None" "0 < w" "w < next_addr h0" "next_addr h0 = Suc (next_addr h)"
proof (cases "alloc_ok h (alloc_count h) \<and> next_addr h < alloc_limit")
  case False
  then have "manager_queue_want_new ident con m h = Some (None, ticks 0 1 h)"
    by (auto simp: manager_queue_want_new_def calloc_eq)
  with False show thesis by (intro fail [OF _ same_store_ticks]) (auto simp: room_def)
next
  case True
  let ?w = "next_addr h"
  have w: "want_at h ?w = None" "0 < ?w"
    using manager_inv_fresh [OF inv] heap_inv_bounded [OF manager_inv_heap [OF inv]] by (auto simp: bounded_def)
  have undo: "(ticks 0 1 (set_want ?w W (ticks 1 1 h)))\<lparr>want_at := (want_at h)(?w := None)\<rparr> = ticks 1 2 h" for W
    using w(1) by (cases h rule: manager_mem.cases_scheme) (simp add: ticks_def set_want_def fun_upd_idem)
  have fwd: "set_want ?w W (ticks 0 1 (set_want ?w V (ticks 1 1 h))) = set_want ?w W (ticks 1 2 h)" for V W
    by (cases h rule: manager_mem.cases_scheme) (simp add: ticks_def set_want_def)
  have s: "same_store h (ticks 1 2 h)" using True by (intro same_store_ticks) auto
  show thesis
  proof (cases "alloc_ok h (Suc (alloc_count h))")
    case False
    then have "manager_queue_want_new ident con m h = Some (None, ticks 1 2 h)"
      using True w undo by (simp add: manager_queue_want_new_def calloc_eq strdup_eq free_want_def)
    moreover have "\<not> room 1 h" using False by (auto simp: room_def)
    ultimately show thesis using s fail by blast
  next
    case ok: True
    then have "manager_queue_want_new ident con m h = Some (Some ?w, want_added ?w ident con m (ticks 1 2 h))"
      using True fwd by (simp add: manager_queue_want_new_def calloc_eq strdup_eq want_added_def
          tailq_insert_tail_def)
    with s w show thesis by (intro new [of ?w "ticks 1 2 h"]) auto
  qed
qed

lemma want_added_simps [simp]:
  "mqueue_at (want_added w i c m h) = mqueue_at h"
  "want_at (want_added w i c m h) = (want_at h)(w \<mapsto>
     \<lparr>want_identifier = Some i, cancelled = False, want_queue = Some m, want_client = Some c\<rparr>)"
  "ctx_queues (want_added w i c m h) = ctx_queues h"
  "ctx_wants (want_added w i c m h) = ctx_wants h @ [w]"
  "ctx_servers (want_added w i c m h) = ctx_servers h"
  "item_at (want_added w i c m h) = item_at h" "callback_at (want_added w i c m h) = callback_at h"
  "queue_at (want_added w i c m h) = queue_at h" "next_addr (want_added w i c m h) = next_addr h"
  "alloc_ok (want_added w i c m h) = alloc_ok h" "rand_bytes (want_added w i c m h) = rand_bytes h"
  by (simp_all add: want_added_def)

lemma manager_inv_wants:
  assumes inv: "manager_inv L h" and eq: "heap_inv h' = heap_inv h" "mqueue_at h' = mqueue_at h"
      "queue_at h' = queue_at h" "ctx_queues h' = ctx_queues h" "next_addr h' = next_addr h"
    and w: "distinct (ctx_wants h')" "dom (want_at h') = set (ctx_wants h')"
      "\<And>w W. want_at h' w = Some W \<Longrightarrow> want_ok h' w W"
  shows "manager_inv L h'"
  using inv w unfolding manager_inv_def managed_def mqueue_ok_def eq by blast

lemma manager_inv_want: "manager_inv L h \<Longrightarrow> want_at h w = Some W \<Longrightarrow> want_ok h w W"
  by (simp add: manager_inv_def)

lemma want_added_inv:
  assumes inv: "manager_inv L h" and w: "want_at h w = None" "0 < w" "w < next_addr h"
  shows "manager_inv L (want_added w i c m h)"
proof (rule manager_inv_wants [OF inv])
  have "w \<notin> set (ctx_wants h)" using inv w(1) by (auto simp: manager_inv_def)
  with inv show "distinct (ctx_wants (want_added w i c m h))"
    "dom (want_at (want_added w i c m h)) = set (ctx_wants (want_added w i c m h))"
    by (auto simp: manager_inv_def)
  show "want_ok (want_added w i c m h) x X" if "want_at (want_added w i c m h) x = Some X" for x X
    using that w manager_inv_want [OF inv, of x X] by (auto simp: want_ok_def split: if_splits)
  show "heap_inv (want_added w i c m h) = heap_inv h" by (rule heap_inv_ext) auto
qed auto

definition want_freed :: "addr \<Rightarrow> 'z manager_mem_scheme \<Rightarrow> 'z manager_mem_scheme" where
  "want_freed w h = h\<lparr>ctx_wants := remove1 w (ctx_wants h), want_at := (want_at h)(w := None)\<rparr>"

lemma want_freed_simps [simp]:
  "mqueue_at (want_freed w h) = mqueue_at h" "want_at (want_freed w h) = (want_at h)(w := None)"
  "ctx_queues (want_freed w h) = ctx_queues h" "ctx_wants (want_freed w h) = remove1 w (ctx_wants h)"
  "ctx_servers (want_freed w h) = ctx_servers h"
  "item_at (want_freed w h) = item_at h" "callback_at (want_freed w h) = callback_at h"
  "queue_at (want_freed w h) = queue_at h" "next_addr (want_freed w h) = next_addr h"
  "alloc_ok (want_freed w h) = alloc_ok h" "rand_bytes (want_freed w h) = rand_bytes h"
  by (simp_all add: want_freed_def)

lemma want_free_eq:
  assumes "manager_inv L h" and "w \<in> set (ctx_wants h)"
  shows "manager_queue_want_free w h = Some (want_freed w h)"
proof -
  from assms have "w \<in> dom (want_at h)" by (simp add: manager_inv_def)
  with assms(2) show ?thesis
    by (auto simp: manager_queue_want_free_def free_want_def want_freed_def)
qed

lemma want_freed_inv:
  assumes inv: "manager_inv L h"
  shows "manager_inv L (want_freed w h)"
proof (rule manager_inv_wants [OF inv])
  show "distinct (ctx_wants (want_freed w h))" "dom (want_at (want_freed w h)) = set (ctx_wants (want_freed w h))"
    using inv by (auto simp: manager_inv_def)
  show "want_ok (want_freed w h) x X" if "want_at (want_freed w h) x = Some X" for x X
    using that manager_inv_want [OF inv, of x X] by (auto simp: want_ok_def split: if_splits)
  show "heap_inv (want_freed w h) = heap_inv h" by (rule heap_inv_ext) auto
qed auto

text \<open>The cancelling loops mark exactly the wants that pass the test, and touch nothing else.\<close>

definition wants_marked ::
  "(manager_queue_want \<Rightarrow> bool) \<Rightarrow> addr list \<Rightarrow> 'z manager_mem_scheme \<Rightarrow> 'z manager_mem_scheme" where
  "wants_marked P ws h = h\<lparr>want_at := (\<lambda>w. map_option (\<lambda>W. if w \<in> set ws \<and> P W
     then W\<lparr>cancelled := True\<rparr> else W) (want_at h w))\<rparr>"

lemma cancel_wants_eq:
  assumes P: "\<And>W. P (W\<lparr>cancelled := True\<rparr>) = P W"
  shows "\<forall>w \<in> set ws. want_at h w \<noteq> None \<Longrightarrow> cancel_wants P ws h = Some (wants_marked P ws h)"
proof (induction ws arbitrary: h)
  case Nil
  show ?case
    by (cases h rule: manager_mem.cases_scheme) (simp add: wants_marked_def option.map_ident)
next
  case (Cons w ws)
  then obtain W where W: "want_at h w = Some W" by auto
  let ?h = "if P W then set_want w (W\<lparr>cancelled := True\<rparr>) h else h"
  have "\<forall>x \<in> set ws. want_at ?h x \<noteq> None" using Cons.prems by auto
  from Cons.IH [OF this] have "cancel_wants P (w # ws) h = Some (wants_marked P ws ?h)"
    using W by simp
  also have "wants_marked P ws ?h = wants_marked P (w # ws) h"
  proof -
    have x: "map_option (\<lambda>W. if x \<in> set ws \<and> P W then W\<lparr>cancelled := True\<rparr> else W) (want_at ?h x) =
        map_option (\<lambda>W. if x \<in> set (w # ws) \<and> P W then W\<lparr>cancelled := True\<rparr> else W) (want_at h x)" for x
      by (cases "x = w"; cases "P W") (simp_all add: W P cong: map_option_cong)
    have "?h\<lparr>want_at := f\<rparr> = h\<lparr>want_at := f\<rparr>" for f by (simp add: set_want_def)
    with x show ?thesis unfolding wants_marked_def by presburger
  qed
  finally show ?case .
qed

section \<open>Shutdown\<close>

lemma shutdown_wants_eq:
  "manager_inv L h \<Longrightarrow> \<exists>h'. shutdown_wants h = Some h' \<and> manager_inv L h' \<and> want_at h' = Map.empty \<and>
     ctx_wants h' = [] \<and> ctx_queues h' = ctx_queues h \<and> mqueue_at h' = mqueue_at h \<and>
     item_at h' = item_at h \<and> callback_at h' = callback_at h \<and> queue_at h' = queue_at h"
proof (induction "ctx_wants h" arbitrary: h)
  case Nil
  then have "dom (want_at h) = {}" by (simp add: manager_inv_def)
  with Nil show ?case by (subst shutdown_wants.simps) auto
next
  case (Cons w ws)
  then have "w \<in> set (ctx_wants h)" by (metis list.set_intros(1))
  note f = want_free_eq [OF Cons.prems this]
  have "ws = ctx_wants (want_freed w h)" using Cons.hyps(2) by (simp flip: Cons.hyps(2))
  from Cons.hyps(1) [OF this want_freed_inv [OF Cons.prems]] f Cons.hyps(2) [symmetric]
  show ?case by (subst shutdown_wants.simps) simp
qed

text \<open>The items, and the callbacks, that no queue links.\<close>

definition unstored :: "'z queue_mem_scheme \<Rightarrow> addr set" where
  "unstored h = {a. \<forall>q Q. queue_at h q = Some Q \<longrightarrow> a \<notin> set (items Q)}"

definition unawaited :: "'z queue_mem_scheme \<Rightarrow> addr set" where
  "unawaited h = {c. \<forall>q Q. queue_at h q = Some Q \<longrightarrow> c \<notin> set (callbacks Q)}"

lemma unlinked_split:
  assumes "queue_at h q = Some Q" and "queue_at h' = (queue_at h)(q := None)"
  shows "- set (items Q) \<inter> unstored h' = unstored h"
    and "- set (callbacks Q) \<inter> unawaited h' = unawaited h"
  using assms by (auto simp: unstored_def unawaited_def split: if_splits) (metis option.inject)+

lemma shutdown_queues_eq:
  "manager_inv L h \<Longrightarrow> \<exists>h'. shutdown_queues h = Some h' \<and> manager_inv L h' \<and>
     queue_at h' = Map.empty \<and> mqueue_at h' = Map.empty \<and> want_at h' = want_at h \<and>
     item_at h' = item_at h |` unstored h \<and> callback_at h' = callback_at h |` unawaited h"
proof (induction "ctx_queues h" arbitrary: h)
  case Nil
  then have d: "dom (mqueue_at h) = {}" by (simp add: manager_inv_def)
  have q: "queue_at h = Map.empty"
  proof (rule ext, rule ccontr)
    fix q assume "queue_at h q \<noteq> None"
    with Nil.prems have "\<exists>m. managed h m q" by (auto simp: manager_inv_def)
    with d show False by (auto simp: managed_def)
  qed
  with Nil d show ?case
    by (subst shutdown_queues.simps) (auto simp: unstored_def unawaited_def restrict_map_def)
next
  case (Cons m ms)
  then have m: "m \<in> set (ctx_queues h)" by (metis list.set_intros(1))
  from manager_inv_mqueue [OF Cons.prems m] obtain M q Q where
    M: "mqueue_at h m = Some M" "mq_q M = Some q" "queue_at h q = Some Q" by blast
  let ?h = "mqueue_freed m q Q h"
  have "ms = ctx_queues ?h" using Cons.hyps(2) by (simp flip: Cons.hyps(2))
  from Cons.hyps(1) [OF this mqueue_freed_inv [OF Cons.prems M]] obtain h' where
    h': "shutdown_queues ?h = Some h'" "manager_inv L h'" "queue_at h' = Map.empty"
      "mqueue_at h' = Map.empty" "want_at h' = want_at h"
      "item_at h' = item_at ?h |` unstored ?h" "callback_at h' = callback_at ?h |` unawaited ?h" by auto
  have "queue_at ?h = (queue_at h)(q := None)" by simp
  note sp = unlinked_split [OF M(3) this]
  have "shutdown_queues h = Some h'"
    using manager_queue_free_eq [OF Cons.prems M] Cons.hyps(2) [symmetric] h'(1)
    by (subst shutdown_queues.simps) simp
  with h' sp show ?case by (auto simp: restrict_restrict)
qed

lemma shutdown_servers_ends:
  assumes ends: "shutdown_servers h = Some h'"
  shows "ctx_servers h = []"
proof (induction h h' rule: shutdown_servers.raw_induct)
  case (1 f h h')
  show ?case
  proof (cases "ctx_servers h")
    case (Cons s ss)
    from 1(2) Cons have "f (del_routes s h) = Some h'" by simp
    then have "ctx_servers (del_routes s h) = []" by (rule 1(1))
    with Cons show ?thesis by (simp add: del_routes_def ev_log_def)
  qed
qed (rule ends)

section \<open>Queue operations under the manager\<close>

lemma taken_frame: "queue_at h q = Some Q \<Longrightarrow> queue_frame h (taken q Q a i h)"
  by (simp add: queue_frame_def taken_def)

lemma drop_item_frame: "queue_frame h (drop_item a h)"
  by (simp add: queue_frame_def)

lemma stored_frame: "queue_at h q = Some Q \<Longrightarrow> queue_frame h (stored q Q a key val h)"
  by (simp add: queue_frame_def stored_def)

lemma handed_frame: "queue_at h q = Some Q \<Longrightarrow> queue_frame h (handed q Q c cb a key val h)"
  by (simp add: queue_frame_def handed_def)

lemma waiting_frame: "queue_at h q = Some Q \<Longrightarrow> queue_frame h (waiting q Q c key f arg h)"
  by (simp add: queue_frame_def)

text \<open>Nobody holds a lock: so it is between two events of the server.\<close>

definition all_unlocked :: "'z queue_mem_scheme \<Rightarrow> bool" where
  "all_unlocked h \<longleftrightarrow> (\<forall>a i. item_at h a = Some i \<longrightarrow> i_lockcount i = 0)"

lemma all_unlocked_unlocked: "all_unlocked h \<Longrightarrow> unlocked h Q"
  by (simp add: all_unlocked_def unlocked_def)

definition manager_good :: "nat \<Rightarrow> 'z manager_mem_scheme \<Rightarrow> bool" where
  "manager_good L h \<longleftrightarrow> manager_inv L h \<and> rand_ok h \<and> all_unlocked h"

lemma manager_good_inv: "manager_good L h \<Longrightarrow> manager_inv L h"
  by (simp add: manager_good_def)

lemma manager_good_heap: "manager_good L h \<Longrightarrow> heap_inv h"
  by (rule manager_inv_heap [OF manager_good_inv])

text \<open>
  The contract of a callback that may also work on the manager's structures; \<open>manager_keeps\<close> adds
  a property of what extends the manager's memory.
\<close>

definition manager_contract :: "nat \<Rightarrow> ('z manager_mem_ext) runner \<Rightarrow> bool" where
  "manager_contract L run \<longleftrightarrow> (\<forall>f a arg h. manager_good L h \<and> loose h a \<longrightarrow>
     (\<exists>h'. run f a arg h = Some h' \<and> manager_good L h' \<and> loose h' a))"

definition manager_keeps :: "nat \<Rightarrow> ('z \<Rightarrow> bool) \<Rightarrow> ('z manager_mem_ext) runner \<Rightarrow> bool" where
  "manager_keeps L P run \<longleftrightarrow> (\<forall>f a arg h. manager_good L h \<and> P (manager_mem.more h) \<and> loose h a \<longrightarrow>
     (\<exists>h'. run f a arg h = Some h' \<and> manager_good L h' \<and> P (manager_mem.more h') \<and> loose h' a))"

lemma manager_contract_keeps: "manager_contract L run = manager_keeps L (\<lambda>_. True) run"
  by (simp add: manager_contract_def manager_keeps_def)

lemma same_store_more: "same_store h h' \<Longrightarrow> manager_mem.more h' = manager_mem.more h"
  by (simp add: same_store_def manager_more)

lemma handed_more:
  "queue_at h q = Some Q \<Longrightarrow> manager_mem.more (handed q Q c cb a key val h) = manager_mem.more h"
  using handed_frame [of h q Q c cb a key val] by (simp add: queue_frame_def manager_more)

lemma set_queue_item_more [simp]:
  "manager_mem.more (set_queue q Q h) = manager_mem.more h"
  "manager_mem.more (set_item a i h) = manager_mem.more h"
  "manager_mem.more (set_callback c cb h) = manager_mem.more h"
  "manager_mem.more (drop_item a h) = manager_mem.more h"
  by (simp_all add: set_queue_def set_item_def set_callback_def drop_item_def)

lemma manager_good_frame:
  assumes g: "manager_good L h" and f: "queue_frame h h'" and hi: "heap_inv h'"
    and r: "rand_bytes h' = rand_bytes h"
    and it: "\<And>a i. item_at h' a = Some i \<Longrightarrow> i_lockcount i = 0 \<or> item_at h a = Some i"
  shows "manager_good L h'"
proof -
  have "all_unlocked h'"
    unfolding all_unlocked_def
  proof (intro allI impI)
    fix a i assume "item_at h' a = Some i"
    with it g show "i_lockcount i = 0" by (fastforce simp: manager_good_def all_unlocked_def)
  qed
  with g r manager_inv_frame [OF _ f hi] show ?thesis by (auto simp: manager_good_def rand_ok_def)
qed

lemma manager_good_store: "manager_good L h \<Longrightarrow> same_store h h' \<Longrightarrow> manager_good L h'"
  by (rule manager_good_frame [OF _ same_store_frame same_store_inv [OF manager_good_heap]])
     (auto simp: same_store_def)

lemma drop_item_good: "manager_good L h \<Longrightarrow> loose h a \<Longrightarrow> manager_good L (drop_item a h)"
  by (rule manager_good_frame [OF _ drop_item_frame drop_item_inv [OF manager_good_heap]])
     (auto split: if_splits)

lemma taken_good:
  assumes g: "manager_good L h" and Q: "queue_at h q = Some Q" and i: "item_at h a = Some i"
    and a: "a \<in> set (items Q)"
  shows "manager_good L (taken q Q a i h)" and "loose (taken q Q a i h) a"
proof -
  note inv = manager_good_heap [OF g]
  have lc: "i_lockcount i = 0" using g i by (simp add: manager_good_def all_unlocked_def)
  show "manager_good L (taken q Q a i h)"
    by (rule manager_good_frame [OF g taken_frame [OF Q] taken_inv [OF inv Q i a]])
       (auto simp: taken_def lc split: if_splits)
  show "loose (taken q Q a i h) a" by (rule taken_loose [OF inv Q i a lc])
qed

lemma manager_keeps_run:
  assumes "manager_keeps L P run" and "manager_good L h" and "P (manager_mem.more h)" and "loose h a"
  shows "\<exists>h'. do { h2 \<leftarrow> run f a arg h; h3 \<leftarrow> queue_item_free a h2; Some (1 :: int, h3) } = Some (1, h') \<and>
    manager_good L h' \<and> P (manager_mem.more h')"
proof -
  from assms obtain h2 where "run f a arg h = Some h2" "manager_good L h2" "P (manager_mem.more h2)" "loose h2 a"
    unfolding manager_keeps_def by blast
  then show ?thesis using queue_item_free_loose drop_item_good by fastforce
qed

lemma manager_keeps_put:
  assumes c: "manager_keeps L P run" and g: "manager_good L h" and P: "P (manager_mem.more h)"
    and Q: "queue_at h q = Some Q"
  shows "\<exists>r h'. queue_put run q key val h = Some (r, h') \<and> r \<in> {-1, 0, 1} \<and> manager_good L h' \<and>
    P (manager_mem.more h')"
proof -
  note inv = manager_good_heap [OF g]
  from inv Q show ?thesis
  proof (cases rule: queue_put_cases [where run = run and key = key and val = val])
    case (fail h')
    with manager_good_store [OF g] same_store_more [OF fail(2)] P show ?thesis by auto
  next
    case (store a h0)
    note g0 = manager_good_store [OF g store(1)]
    have Q0: "queue_at h0 q = Some Q" using same_store_queue [OF store(1)] Q by auto
    have ck: "callback_key h0 = callback_key h" by (rule same_store_callback_key [OF store(1)])
    have "heap_inv (stored q Q a key val h0)"
      by (rule stored_inv [OF manager_good_heap [OF g0] Q0 store(2-4)])
         (use store(6) ck in auto)
    then have "manager_good L (stored q Q a key val h0)"
      by (rule manager_good_frame [OF g0 stored_frame [OF Q0]])
         (auto simp: new_item_def split: if_splits)
    moreover have "P (manager_mem.more (stored q Q a key val h0))"
      using P same_store_more [OF store(1)] by (simp add: stored_def)
    ultimately show ?thesis using store(5) by auto
  next
    case (deliver a h0 xs c' ys cb f)
    note g0 = manager_good_store [OF g deliver(1)]
    have Q0: "queue_at h0 q = Some Q" using same_store_queue [OF deliver(1)] Q by auto
    have cs: "c' \<in> set (callbacks Q)" using deliver(5) by simp
    note hf = handed_facts [OF manager_good_heap [OF g0] Q0 deliver(6) cs deliver(2-4)]
    have "manager_good L (handed q Q c' cb a key val h0)"
      by (rule manager_good_frame [OF g0 handed_frame [OF Q0] hf(1)])
         (auto simp: handed_def new_item_def split: if_splits)
    moreover have "P (manager_mem.more (handed q Q c' cb a key val h0))"
      using P same_store_more [OF deliver(1)] handed_more [OF Q0] by simp
    ultimately show ?thesis
      using manager_keeps_run [OF c _ _ hf(2)] deliver(10) by (metis insertCI)
  qed
qed

lemma manager_keeps_wait:
  assumes c: "manager_keeps L P run" and g: "manager_good L h" and P: "P (manager_mem.more h)"
    and Q: "queue_at h q = Some Q"
  shows "\<exists>r h'. queue_wait run q key (Some f) arg h = Some (r, h') \<and> r \<in> {-1, 0, 1} \<and> manager_good L h' \<and>
    P (manager_mem.more h')"
proof -
  note inv = manager_good_heap [OF g]
  from inv Q show ?thesis
  proof (cases rule: queue_wait_cases [where run = run and key = key and f = f and arg = arg])
    case (deliver xs a ys i)
    have a: "a \<in> set (items Q)" using deliver(1) by simp
    have "P (manager_mem.more (taken q Q a i h))" using P by (simp add: taken_def)
    from manager_keeps_run [OF c taken_good(1) [OF g Q deliver(2) a] this taken_good(2) [OF g Q deliver(2) a]] deliver(5)
    show ?thesis by (metis insertCI)
  next
    case (fail h')
    with manager_good_store [OF g] same_store_more [OF fail(2)] P show ?thesis by auto
  next
    case (wait c' h0)
    note g0 = manager_good_store [OF g wait(1)]
    have Q0: "queue_at h0 q = Some Q" using same_store_queue [OF wait(1)] Q by auto
    have "item_key h0 = item_key h"
      using same_store_item [OF wait(1)] by (simp add: item_key_def fun_eq_iff)
    with wait(5) have "heap_inv (waiting q Q c' key f arg h0)"
      by (intro waiting_inv [OF manager_good_heap [OF g0] Q0 wait(2-4)]) simp
    then have "manager_good L (waiting q Q c' key f arg h0)"
      by (rule manager_good_frame [OF g0 waiting_frame [OF Q0]]) auto
    moreover have "P (manager_mem.more (waiting q Q c' key f arg h0))"
      using P same_store_more [OF wait(1)] by (simp add: waiting_def)
    ultimately show ?thesis using wait(6) by auto
  qed
qed

lemma manager_put:
  assumes "manager_contract L run" and "manager_good L h" and "queue_at h q = Some Q"
  shows "\<exists>r h'. queue_put run q key val h = Some (r, h') \<and> r \<in> {-1, 0, 1} \<and> manager_good L h'"
  using manager_keeps_put [of L "\<lambda>_. True"] assms by (simp add: manager_contract_keeps)

lemma manager_wait:
  assumes "manager_contract L run" and "manager_good L h" and "queue_at h q = Some Q"
  shows "\<exists>r h'. queue_wait run q key (Some f) arg h = Some (r, h') \<and> r \<in> {-1, 0, 1} \<and> manager_good L h'"
  using manager_keeps_wait [of L "\<lambda>_. True"] assms by (simp add: manager_contract_keeps)

lemma manager_take:
  assumes g: "manager_good L h" and Q: "queue_at h q = Some Q"
  shows "\<exists>e h'. take_entry q key h = Some (e, h') \<and> manager_good L h'"
  using manager_good_heap [OF g] Q
proof (cases rule: queue_take_cases [where key = key])
  case none
  with g show ?thesis by (simp add: take_entry_def)
next
  case (some xs a ys i)
  have a: "a \<in> set (items Q)" using some(1) by simp
  note t = taken_good [OF g Q some(2) a]
  have "take_entry q key h = Some (Some (entry_of (taken q Q a i h) a), drop_item a (taken q Q a i h))"
    using some(5) entry_getters [OF t(2)] queue_item_free_loose [OF t(2)] by (simp add: take_entry_def prod_eq_iff)
  with drop_item_good [OF t] show ?thesis by blast
qed

end
