(* ===== verification/Manager_Spec.thy ===== *)
theory Manager_Spec
  imports Manager_Correct
begin

text \<open>
  The manager as a system of operations, and its properties.  \<open>manager_step\<close> has one rule per call
  the connection components make; its invariant is an interpretation of \<open>invariant_system\<close>.
\<close>

section \<open>The system\<close>

definition fresh_memory :: "'z manager_mem_scheme \<Rightarrow> bool" where
  "fresh_memory h \<longleftrightarrow> item_at h = Map.empty \<and> callback_at h = Map.empty \<and> queue_at h = Map.empty \<and>
     mqueue_at h = Map.empty \<and> want_at h = Map.empty \<and> 0 < next_addr h \<and> next_addr h \<le> alloc_limit \<and>
     rand_ok h"

definition manager_init :: "'z manager_mem_scheme \<Rightarrow> bool" where
  "manager_init h \<longleftrightarrow> (\<exists>h0. fresh_memory h0 \<and> h = manager_startup h0)"

inductive manager_step ::
  "nat \<Rightarrow> ('z manager_mem_ext) runner \<Rightarrow> 'z manager_mem_scheme \<Rightarrow> 'z manager_mem_scheme \<Rightarrow> bool"
  for L run where
  get: "length junk = 16 \<Longrightarrow> manager_queue_get L junk name c h = Some (m, h') \<Longrightarrow> manager_step L run h h'"
| free: "m \<in> set (ctx_queues h) \<Longrightarrow> manager_queue_free m h = Some h' \<Longrightarrow> manager_step L run h h'"
| want_new: "m \<in> set (ctx_queues h) \<Longrightarrow> manager_queue_want_new ident con m h = Some (w, h') \<Longrightarrow>
    manager_step L run h h'"
| want_free: "w \<in> set (ctx_wants h) \<Longrightarrow> manager_queue_want_free w h = Some h' \<Longrightarrow> manager_step L run h h'"
| want_remove: "manager_queue_want_remove m h = Some h' \<Longrightarrow> manager_step L run h h'"
| want_close: "manager_queue_want_close con h = Some h' \<Longrightarrow> manager_step L run h h'"
| put: "managed h m q \<Longrightarrow> queue_put run q key val h = Some (r, h') \<Longrightarrow> manager_step L run h h'"
| take: "managed h m q \<Longrightarrow> take_entry q key h = Some (e, h') \<Longrightarrow> manager_step L run h h'"
| wait: "managed h m q \<Longrightarrow> queue_wait run q key (Some f) arg h = Some (r, h') \<Longrightarrow> manager_step L run h h'"
| add_server: "manager_add_server srv wsa auth realm h = (r, h') \<Longrightarrow> manager_step L run h h'"

lemma managed_queue: "manager_inv L h \<Longrightarrow> managed h m q \<Longrightarrow> \<exists>Q. queue_at h q = Some Q"
  by (force simp: managed_def manager_inv_def mqueue_ok_def)

lemma manager_init_good: "manager_init h \<Longrightarrow> manager_good L h"
  by (auto simp: manager_init_def fresh_memory_def manager_startup_def manager_good_def manager_inv_def
      heap_inv_def bounded_def managed_def all_unlocked_def rand_ok_def)

text \<open>A step that leaves the queue stores alone keeps the rest of the invariant.\<close>

lemma manager_good_same_items:
  "manager_good L h \<Longrightarrow> manager_inv L h' \<Longrightarrow> rand_bytes h' = rand_bytes h \<Longrightarrow>
   (\<And>a i. item_at h' a = Some i \<Longrightarrow> item_at h a = Some i) \<Longrightarrow> manager_good L h'"
  unfolding manager_good_def rand_ok_def all_unlocked_def by fastforce

lemma get_good:
  assumes g: "manager_good L h" and j: "length junk = 16" and L: "L = 4 \<or> L = 8"
    and eq: "manager_queue_get L junk name c h = Some (m, h')"
  shows "manager_good L h'"
proof -
  note inv = manager_good_inv [OF g]
  have r: "rand_ok h" using g by (simp add: manager_good_def)
  from inv j L r show ?thesis
  proof (cases rule: manager_get_cases [where name = name and c = c])
    case (found s m')
    with eq g show ?thesis by simp
  next
    case (null h'')
    with eq manager_good_store [OF g] show ?thesis by simp
  next
    case (new m' q u h'')
    have "manager_good L h''"
      by (rule manager_good_same_items [OF g created_inv [OF inv new(3,4)]])
         (use new(3) in \<open>auto simp: created_def\<close>)
    with new eq show ?thesis by simp
  qed
qed

lemma wants_marked_good:
  assumes g: "manager_good L h"
  shows "manager_good L (wants_marked P ws h)"
proof -
  note inv = manager_good_inv [OF g]
  have "manager_inv L (wants_marked P ws h)"
  proof (rule manager_inv_wants [OF inv])
    show "heap_inv (wants_marked P ws h) = heap_inv h"
      by (rule heap_inv_ext) (simp_all add: wants_marked_def)
    show "distinct (ctx_wants (wants_marked P ws h))"
      "dom (want_at (wants_marked P ws h)) = set (ctx_wants (wants_marked P ws h))"
      using inv by (auto simp: manager_inv_def wants_marked_def dom_def)
    show "want_ok (wants_marked P ws h) w W" if "want_at (wants_marked P ws h) w = Some W" for w W
      using that manager_inv_want [OF inv, of w] by (auto simp: wants_marked_def want_ok_def)
  qed (simp_all add: wants_marked_def)
  then show ?thesis by (rule manager_good_same_items [OF g]) (simp_all add: wants_marked_def)
qed

lemma manager_cancel:
  assumes "manager_inv L h"
  shows "manager_queue_want_remove m h = Some (wants_marked (\<lambda>W. want_queue W = Some m) (ctx_wants h) h)"
    and "manager_queue_want_close con h = Some (wants_marked (\<lambda>W. want_client W = Some con) (ctx_wants h) h)"
proof -
  from assms have "\<forall>w \<in> set (ctx_wants h). want_at h w \<noteq> None" by (auto simp: manager_inv_def)
  then show "manager_queue_want_remove m h = Some (wants_marked (\<lambda>W. want_queue W = Some m) (ctx_wants h) h)"
    and "manager_queue_want_close con h = Some (wants_marked (\<lambda>W. want_client W = Some con) (ctx_wants h) h)"
    unfolding manager_queue_want_remove_def manager_queue_want_close_def
    by (auto intro!: cancel_wants_eq)
qed

text \<open>Registering a server allocates and logs; the queues and wants stay as they are.\<close>

definition server_frame :: "'z manager_mem_scheme \<Rightarrow> 'z manager_mem_scheme \<Rightarrow> bool" where
  "server_frame h h' \<longleftrightarrow> item_at h' = item_at h \<and> callback_at h' = callback_at h \<and> queue_at h' = queue_at h \<and>
     mqueue_at h' = mqueue_at h \<and> want_at h' = want_at h \<and> ctx_queues h' = ctx_queues h \<and>
     ctx_wants h' = ctx_wants h \<and> rand_bytes h' = rand_bytes h \<and>
     next_addr h \<le> next_addr h' \<and> (next_addr h \<le> alloc_limit \<longrightarrow> next_addr h' \<le> alloc_limit)"

lemma server_frame_trans: "server_frame h h' \<Longrightarrow> server_frame h' h'' \<Longrightarrow> server_frame h h''"
  by (auto simp: server_frame_def)

lemma auth_callback_frame:
  "server_frame h (snd (connection_http_auth_callback a realm cb h))"
  by (auto simp: connection_http_auth_callback_def calloc_eq server_frame_def)

lemma ev_log_frame: "server_frame h (ev_log es h)"
  by (simp add: ev_log_def server_frame_def)

lemma set_authenticated_frame: "server_frame h (set_authenticated a realm srv path cb h)"
  using server_frame_trans [OF auth_callback_frame ev_log_frame]
  by (simp add: set_authenticated_def case_prod_unfold Let_def)

lemma add_server_frame: "server_frame h (snd (manager_add_server srv wsa auth realm h))"
proof -
  have t: "server_frame h (ticks 0 (Suc 0) h)"
      "next_addr h < alloc_limit \<Longrightarrow> server_frame h (ticks (Suc 0) (Suc 0) h)"
    by (auto simp: server_frame_def)
  have s: "server_frame h (h'\<lparr>ctx_servers := x\<rparr>)" if "server_frame h h'" for h' x
    using that by (simp add: server_frame_def)
  note fr = server_frame_trans [OF _ set_authenticated_frame] server_frame_trans [OF _ ev_log_frame]
    server_frame_trans [OF _ auth_callback_frame] set_authenticated_frame ev_log_frame
  show ?thesis
    by (auto simp: manager_add_server_def calloc_eq Let_def case_prod_unfold split: option.split
        intro!: s t fr)
qed

lemma server_frame_good:
  assumes g: "manager_good L h" and f: "server_frame h h'"
  shows "manager_good L h'"
proof -
  note inv = manager_good_inv [OF g]
  have "same_store h (h\<lparr>next_addr := next_addr h'\<rparr>)"
    using f by (simp add: same_store_def server_frame_def)
  from manager_inv_same_store [OF inv this] have i: "manager_inv L (h\<lparr>next_addr := next_addr h'\<rparr>)" .
  have "heap_inv h' = heap_inv (h\<lparr>next_addr := next_addr h'\<rparr>)"
    by (rule heap_inv_ext) (use f in \<open>simp_all add: server_frame_def\<close>)
  with i f have "manager_inv L h'"
    by (simp add: manager_inv_def server_frame_def mqueue_ok_def want_ok_def managed_def)
  then show ?thesis by (rule manager_good_same_items [OF g]) (use f in \<open>simp_all add: server_frame_def\<close>)
qed

definition platform :: "nat \<Rightarrow> ('z manager_mem_ext) runner \<Rightarrow> bool" where
  "platform L run \<longleftrightarrow> (L = 4 \<or> L = 8) \<and> manager_contract L run"

lemma manager_step_good:
  assumes p: "platform L run" and g: "manager_good L h" and st: "manager_step L run h h'"
  shows "manager_good L h'"
  using st
proof cases
  case (get junk name c m)
  with get_good [OF g] p show ?thesis by (auto simp: platform_def)
next
  case (free m)
  note inv = manager_good_inv [OF g]
  from manager_inv_mqueue [OF inv free(1)] obtain M q Q where
    M: "mqueue_at h m = Some M" "mq_q M = Some q" "queue_at h q = Some Q" by blast
  have "manager_good L (mqueue_freed m q Q h)"
    by (rule manager_good_same_items [OF g mqueue_freed_inv [OF inv M]])
       (auto simp: restrict_map_def split: if_splits)
  with free manager_queue_free_eq [OF inv M] show ?thesis by simp
next
  case (want_new m ident con w)
  note inv = manager_good_inv [OF g]
  from inv show ?thesis
  proof (cases rule: want_new_cases [where ident = ident and con = con and m = m])
    case (fail h'')
    with want_new(2) manager_good_store [OF g] show ?thesis by simp
  next
    case (new w' h0)
    note g0 = manager_good_store [OF g new(2)]
    have w0: "want_at h0 w' = None" using new(2,3) by (simp add: same_store_def manager_more)
    have "manager_good L (want_added w' ident con m h0)"
      by (rule manager_good_same_items [OF g0 want_added_inv [OF manager_good_inv [OF g0] w0 new(4,5)]]) auto
    with want_new(2) new(1) show ?thesis by simp
  qed
next
  case (want_free w)
  note inv = manager_good_inv [OF g]
  have "manager_good L (want_freed w h)"
    by (rule manager_good_same_items [OF g want_freed_inv [OF inv]]) auto
  with want_free want_free_eq [OF inv] show ?thesis by simp
next
  case (want_remove m)
  with manager_cancel [OF manager_good_inv [OF g]] wants_marked_good [OF g] show ?thesis by auto
next
  case (want_close con)
  with manager_cancel [OF manager_good_inv [OF g]] wants_marked_good [OF g] show ?thesis by auto
next
  case (put m q key val r)
  from managed_queue [OF manager_good_inv [OF g] put(1)] manager_put [where L = L and run = run and h = h and q = q and key = key and val = val] p g put(2)
  show ?thesis by (auto simp: platform_def)
next
  case (take m q key e)
  from managed_queue [OF manager_good_inv [OF g] take(1)] manager_take [OF g, where q = q and key = key] take(2)
  show ?thesis by auto
next
  case (wait m q key f arg r)
  from managed_queue [OF manager_good_inv [OF g] wait(1)] manager_wait [where L = L and run = run and h = h and q = q and key = key and f = f and arg = arg] p g wait(2)
  show ?thesis by (auto simp: platform_def)
next
  case (add_server srv wsa auth realm r)
  with server_frame_good [OF g add_server_frame [of h srv wsa auth realm]] show ?thesis by simp
qed

interpretation manager: invariant_system
  "\<lambda>h. manager_init h \<and> platform L run" "manager_step L run" "\<lambda>h. manager_good L h \<and> platform L run"
  for L run
  by unfold_locales (auto simp: manager_init_good intro: manager_step_good)

section \<open>A memory for the witnesses\<close>

definition boot :: manager_mem where
  "boot = \<lparr>next_addr = 1, alloc_ok = (\<lambda>n. True), alloc_count = 0, item_at = Map.empty,
     callback_at = Map.empty, queue_at = Map.empty, rand_bytes = (\<lambda>n. Some (replicate 16 0)),
     rand_count = 0, mqueue_at = Map.empty, want_at = Map.empty, params_at = Map.empty,
     ctx_servers = [], ctx_queues = [], ctx_wants = [], ev_calls = []\<rparr>"

lemma boot_init: "manager_init boot"
  unfolding manager_init_def
  by (rule exI [of _ boot])
     (simp add: fresh_memory_def manager_startup_def boot_def alloc_limit_def rand_ok_def)

lemma boot_good: "manager_good L boot"
  by (rule manager_init_good [OF boot_init])

lemma returning_manager_contract: "manager_contract L (\<lambda>f a arg h. Some h)"
  by (simp add: manager_contract_def)

lemma returning_platform: "platform 4 (\<lambda>f a arg h. Some h)" "platform 8 (\<lambda>f a arg h. Some h)"
  by (simp_all add: platform_def returning_manager_contract)

text \<open>One queue, one want on it, one more want of another client.\<close>

definition office :: manager_mem where
  "office = boot\<lparr>next_addr := 10,
     queue_at := [2 \<mapsto> zero_queue], mqueue_at := [3 \<mapsto> \<lparr>mq_q = Some 2, mq_id = uuid_text 8 (replicate 16 0)\<rparr>],
     want_at := [4 \<mapsto> \<lparr>want_identifier = Some ''i'', cancelled = False, want_queue = Some 3, want_client = Some 20\<rparr>,
                 5 \<mapsto> \<lparr>want_identifier = Some ''j'', cancelled = False, want_queue = Some 3, want_client = Some 21\<rparr>],
     ctx_queues := [3], ctx_wants := [4, 5]\<rparr>"

lemma office_good: "manager_good 8 office"
  by (auto simp: manager_good_def office_def boot_def manager_inv_def heap_inv_def bounded_def alloc_limit_def
      queue_ok_def counts_ok_def quiescent_def zero_queue_def mqueue_ok_def want_ok_def managed_def
      rand_ok_def all_unlocked_def split: if_splits)

section \<open>Properties\<close>





text \<open>
  C27: \<open>manager_queue_get\<close> with a name of the length of an id.  The first queue whose id equals the name
  up to the case of letters is returned and nothing changes; otherwise, when the caller does not want
  a new queue or the name does not scan as an id, the result is NULL and nothing changes; otherwise a
  new queue with the scanned id is put behind the others, or NULL is returned, with every structure as
  it was, only when an allocation was refused.
\<close>

theorem manager_queue_get_spec:
  assumes g: "manager_good L h" and len: "length s = 36"
  shows "case List.find (\<lambda>m. strcasecmp (queue_id h m) s = 0) (ctx_queues h) of
      Some m \<Rightarrow> manager_queue_get L junk (Some s) c h = Some (Some m, h)
    | None \<Rightarrow>
       (case (if c then uuid_parse L junk s else None) of
          None \<Rightarrow> manager_queue_get L junk (Some s) c h = Some (None, h)
        | Some u \<Rightarrow>
            (\<exists>h'. manager_queue_get L junk (Some s) c h = Some (None, h') \<and> same_store h h' \<and> \<not> room 2 h) \<or>
            (\<exists>m q h'. manager_queue_get L junk (Some s) c h = Some (Some m, h') \<and> created L m q u h h'))"
proof -
  note inv = manager_good_inv [OF g]
  have get: "manager_queue_get L junk (Some s) c h =
      (case List.find (\<lambda>m. strcasecmp (queue_id h m) s = 0) (ctx_queues h) of
         Some m \<Rightarrow> Some (Some m, h)
       | None \<Rightarrow> (case (if c then uuid_parse L junk s else None) of
            None \<Rightarrow> Some (None, h) | Some u \<Rightarrow> manager_queue_create L (Some u) h))"
    using len manager_scan [OF inv, of s]
    by (simp add: manager_queue_get_def QUEUE_UUID_STR_LEN_def split: option.split)
  show ?thesis
  proof (cases "List.find (\<lambda>m. strcasecmp (queue_id h m) s = 0) (ctx_queues h)")
    case None
    show ?thesis
    proof (cases "if c then uuid_parse L junk s else None")
      case (Some u)
      show ?thesis
        using inv
      proof (cases rule: manager_create_cases [where r = "Some u"])
        case (fail h')
        then show ?thesis using get None Some by (simp add: fresh_uuid_def)
      next
        case (new m q u' h')
        then show ?thesis using get None Some by (auto simp: fresh_uuid_def)
      qed
    qed (use get None in simp)
  qed (use get in simp)
qed

theorem manager_queue_get_spec_witness:
  "case List.find (\<lambda>m. strcasecmp (queue_id office m) (replicate 36 (CHR ''z'')) = 0) (ctx_queues office) of
      Some m \<Rightarrow> manager_queue_get 8 (replicate 16 7) (Some (replicate 36 (CHR ''z''))) True office = Some (Some m, office)
    | None \<Rightarrow>
       (case (if True then uuid_parse 8 (replicate 16 7) (replicate 36 (CHR ''z'')) else None) of
          None \<Rightarrow> manager_queue_get 8 (replicate 16 7) (Some (replicate 36 (CHR ''z''))) True office = Some (None, office)
        | Some u \<Rightarrow>
            (\<exists>h'. manager_queue_get 8 (replicate 16 7) (Some (replicate 36 (CHR ''z''))) True office = Some (None, h') \<and>
              same_store office h' \<and> \<not> room 2 office) \<or>
            (\<exists>m q h'. manager_queue_get 8 (replicate 16 7) (Some (replicate 36 (CHR ''z''))) True office = Some (Some m, h') \<and>
              created 8 m q u office h'))"
  by (rule manager_queue_get_spec [OF office_good]) simp

lemma find_append: "List.find P (xs @ ys) = (case List.find P xs of None \<Rightarrow> List.find P ys | Some x \<Rightarrow> Some x)"
  by (induction xs) auto

lemma found_again:
  assumes "manager_good L h" "length s = 36"
    and "List.find (\<lambda>m. strcasecmp (queue_id h m) s = 0) (ctx_queues h) = Some m"
  shows "manager_queue_get L junk (Some s) c h = Some (Some m, h)"
  using assms manager_scan [OF manager_good_inv [OF assms(1)], of s]
  by (simp add: manager_queue_get_def QUEUE_UUID_STR_LEN_def)

lemma created_id: "created L m q u h h' \<Longrightarrow> queue_id h' x = (if x = m then uuid_text L u else queue_id h x)"
  by (simp add: queue_id_def created_def)

lemma created_find:
  assumes c: "created L m q u h h'" and inv: "manager_inv L h"
    and none: "\<forall>m \<in> set (ctx_queues h). \<not> P (queue_id h m)"
  shows "List.find (\<lambda>x. P (queue_id h' x)) (ctx_queues h') = (if P (uuid_text L u) then Some m else None)"
proof -
  have "m \<notin> set (ctx_queues h)" using c inv by (auto simp: manager_inv_def created_def)
  then have "List.find (\<lambda>x. P (queue_id h' x)) (ctx_queues h) = None"
    using none created_id [OF c] by (auto simp: find_None_iff)
  moreover have "ctx_queues h' = ctx_queues h @ [m]" using c by (simp add: created_def)
  ultimately show ?thesis using created_id [OF c] by (simp add: find_append)
qed

text \<open>
  With 4-byte longs a name is a stable handle.  After a successful \<open>manager_queue_get\<close> with a
  well-formed name, every later lookup with that name, in any case of letters and creating or not,
  returns the same queue and changes nothing.
\<close>

theorem manager_name_lookup_32:
  assumes g: "manager_good 4 h" and j: "length junk = 16" and s: "uuid_shape s"
    and get: "manager_queue_get 4 junk (Some s) c h = Some (Some m, h')"
    and s': "map tolower s' = map tolower s"
  shows "manager_queue_get 4 junk' (Some s') c' h' = Some (Some m, h')"
proof -
  note inv = manager_good_inv [OF g]
  have len: "length s = 36" using s by (simp add: uuid_shape_def)
  have len': "length s' = 36" using s' len by (metis length_map)
  have same: "strcasecmp x s' = 0 \<longleftrightarrow> strcasecmp x s = 0" for x using s' by (simp add: strcasecmp_eq_0)
  have r: "rand_ok h" using g by (simp add: manager_good_def)
  have g': "manager_good 4 h'" using get_good [OF g j _ get] by simp
  have L: "4 = (4 :: nat) \<or> 4 = (8 :: nat)" by simp
  from inv j L r show ?thesis
  proof (cases rule: manager_get_cases [where name = "Some s" and c = c])
    case (found t m')
    with get have "h' = h" "m' = m" "t = s" by simp_all
    with found found_again [OF g len', of m] same show ?thesis by simp
  next
    case (null h'')
    with get show ?thesis by simp
  next
    case (new m' q u h'')
    with get have e: "h'' = h'" "m' = m" by simp_all
    have u: "uuid_parse 4 junk s = Some u" and none: "\<forall>m \<in> set (ctx_queues h). strcasecmp (queue_id h m) s \<noteq> 0"
      using new(5) by simp_all
    have "uuid_text 4 u = map tolower s" using uuid_parse_shape_4 [OF s j] u by auto
    then have "strcasecmp (uuid_text 4 u) s = 0" by (simp add: strcasecmp_eq_0 o_def)
    with created_find [OF new(3) inv, of "\<lambda>i. strcasecmp i s = 0"] none e same found_again [OF g' len', of m]
    show ?thesis by simp
  qed
qed

lemma name_text_64:
  assumes s: "uuid_shape s" and j: "length junk = 16" and u: "uuid_parse 8 junk s = Some u"
    and groups: "take 9 (drop 9 s) \<noteq> ''0000-0000''"
  shows "uuid_text 8 u = take 9 (map tolower s) @ ''0000-0000'' @ drop 18 (map tolower s) \<and>
    strcasecmp (uuid_text 8 u) s \<noteq> 0"
proof -
  have len: "length s = 36" using s by (simp add: uuid_shape_def)
  have t: "uuid_text 8 u = take 9 (map tolower s) @ ''0000-0000'' @ drop 18 (map tolower s)"
    using uuid_parse_shape_8 [OF s j] u by auto
  have "strcasecmp (uuid_text 8 u) s \<noteq> 0"
  proof
    assume "strcasecmp (uuid_text 8 u) s = 0"
    then have "map tolower s = map tolower (uuid_text 8 u)" by (simp add: strcasecmp_eq_0)
    then have "take 9 (drop 9 (map tolower s)) = take 9 (drop 9 (map tolower (uuid_text 8 u)))" by simp
    also have "\<dots> = ''0000-0000''" unfolding t using len by (simp add: tolower_def)
    finally have "map tolower (take 9 (drop 9 s)) = ''0000-0000''" by (simp add: take_map drop_map)
    with groups show False by (auto simp: map_eq_Cons_conv tolower_plain)
  qed
  with t show ?thesis by blast
qed

text \<open>
  C32: with 8-byte longs it is not.  A queue created under a well-formed name whose second and third
  group are not both zero has another id: a lookup of the name finds nothing, and a second creation
  under the same name makes a second queue with the same wrong id as the first.
\<close>

theorem manager_name_lost_64:
  assumes g: "manager_good 8 h" and j: "length junk = 16" "length junk' = 16" and s: "uuid_shape s"
    and groups: "take 9 (drop 9 s) \<noteq> ''0000-0000''"
    and none: "\<forall>m \<in> set (ctx_queues h). strcasecmp (queue_id h m) s \<noteq> 0"
    and get: "manager_queue_get 8 junk (Some s) True h = Some (Some m, h')"
  shows "manager_queue_get 8 junk' (Some s) False h' = Some (None, h') \<and>
    (\<forall>m2 h2. manager_queue_get 8 junk' (Some s) True h' = Some (Some m2, h2) \<longrightarrow>
       m2 \<noteq> m \<and> queue_id h2 m2 = queue_id h2 m)"
proof -
  note inv = manager_good_inv [OF g]
  have len: "length s = 36" using s by (simp add: uuid_shape_def)
  have L: "8 = (4 :: nat) \<or> 8 = (8 :: nat)" by simp
  have r: "rand_ok h" using g by (simp add: manager_good_def)
  have g': "manager_good 8 h'" using get_good [OF g j(1) _ get] by simp
  note inv' = manager_good_inv [OF g']
  have r': "rand_ok h'" using g' by (simp add: manager_good_def)
  obtain q u where c: "created 8 m q u h h'" and u: "uuid_parse 8 junk s = Some u"
    using inv j(1) L r
  proof (cases rule: manager_get_cases [where name = "Some s" and c = True])
    case (found t m')
    moreover from none have "List.find (\<lambda>m. strcasecmp (queue_id h m) s = 0) (ctx_queues h) = None"
      by (simp add: find_None_iff)
    ultimately show thesis by simp
  qed (use get that in auto)
  note tu = name_text_64 [OF s j(1) u groups]
  have nf: "List.find (\<lambda>x. strcasecmp (queue_id h' x) s = 0) (ctx_queues h') = None"
    using created_find [OF c inv, of "\<lambda>i. strcasecmp i s = 0"] none tu [THEN conjunct2] by simp
  have "manager_queue_get 8 junk' (Some s) False h' = Some (None, h')"
    using nf manager_scan [OF inv', of s] len by (simp add: manager_queue_get_def QUEUE_UUID_STR_LEN_def)
  moreover have "m2 \<noteq> m \<and> queue_id h2 m2 = queue_id h2 m"
    if get2: "manager_queue_get 8 junk' (Some s) True h' = Some (Some m2, h2)" for m2 h2
    using inv' j(2) L r'
  proof (cases rule: manager_get_cases [where name = "Some s" and c = True])
    case (new m3 q3 v h3)
    with get2 have e: "m3 = m2" "h3 = h2" by simp_all
    from new(5) have "uuid_parse 8 junk' s = Some v" by simp
    from name_text_64 [OF s j(2) this groups] tu have "uuid_text 8 v = uuid_text 8 u" by simp
    moreover have "mqueue_at h' m \<noteq> None" using c by (simp add: created_def)
    with new(3) e have "m2 \<noteq> m" by (auto simp: created_def)
    ultimately show ?thesis using created_id [OF c, of m] created_id [OF new(3)] e by simp
  qed (use get2 nf in auto)
  ultimately show ?thesis by blast
qed


lemma boot_creates:
  assumes s: "uuid_shape s" and L: "L = 4 \<or> L = 8"
  shows "\<exists>m h'. manager_queue_get L (replicate 16 7) (Some s) True boot = Some (Some m, h')"
proof -
  have len: "length s = 36" using s by (simp add: uuid_shape_def)
  obtain u where u: "uuid_parse L (replicate 16 7) s = Some u"
    using uuid_parse_shape_4 [OF s, of "replicate 16 7"] uuid_parse_shape_8 [OF s, of "replicate 16 7"] L by auto
  have e: "manager_queue_get L (replicate 16 7) (Some s) True boot = manager_queue_create L (Some u) boot"
    using len u by (simp add: manager_queue_get_def QUEUE_UUID_STR_LEN_def boot_def)
  from manager_good_inv [OF boot_good [of L]] show ?thesis
  proof (cases rule: manager_create_cases [where r = "Some u"])
    case (fail h')
    then show ?thesis by (simp add: room_def boot_def alloc_limit_def fresh_uuid_def)
  next
    case (new m q v h')
    with e show ?thesis by auto
  qed
qed

theorem manager_name_lookup_32_witness:
  "\<exists>m h'. manager_queue_get 4 (replicate 16 7) (Some ''12345678-9aBC-def0-1234-56789abcdeF0'') True boot = Some (Some m, h') \<and>
    manager_queue_get 4 (replicate 16 0) (Some ''12345678-9abc-DEF0-1234-56789abcdef0'') False h' = Some (Some m, h')"
proof -
  obtain m h' where get: "manager_queue_get 4 (replicate 16 7)
      (Some ''12345678-9aBC-def0-1234-56789abcdeF0'') True boot = Some (Some m, h')"
    using boot_creates [OF sample_name, of 4] by auto
  have "map tolower ''12345678-9abc-DEF0-1234-56789abcdef0'' = map tolower ''12345678-9aBC-def0-1234-56789abcdeF0''"
    by code_simp
  from manager_name_lookup_32 [OF boot_good _ sample_name get this] get show ?thesis by auto
qed

theorem manager_name_lost_64_witness:
  "\<exists>m h'. manager_queue_get 8 (replicate 16 7) (Some ''12345678-9aBC-def0-1234-56789abcdeF0'') True boot = Some (Some m, h') \<and>
    manager_queue_get 8 (replicate 16 0) (Some ''12345678-9aBC-def0-1234-56789abcdeF0'') False h' = Some (None, h')"
proof -
  obtain m h' where get: "manager_queue_get 8 (replicate 16 7)
      (Some ''12345678-9aBC-def0-1234-56789abcdeF0'') True boot = Some (Some m, h')"
    using boot_creates [OF sample_name, of 8] by auto
  have "take 9 (drop 9 ''12345678-9aBC-def0-1234-56789abcdeF0'') \<noteq> ''0000-0000''" by code_simp
  from manager_name_lost_64 [OF boot_good _ _ sample_name this _ get, of "replicate 16 0"] get show ?thesis
    by (auto simp: boot_def)
qed

text \<open>
  C33: \<open>manager_shutdown\<close> ends, and leaves nothing behind, exactly when no server is registered.  Without
  a server it frees every want, every managed queue, every queue, every stored item and every waiting
  callback, and what it leaves allocated was in no list.  With a server its first loop never ends.
\<close>

theorem manager_shutdown_spec:
  assumes g: "manager_good L h"
  shows "if ctx_servers h = []
    then \<exists>h'. manager_shutdown h = Some h' \<and> manager_inv L h' \<and> queue_at h' = Map.empty \<and>
      mqueue_at h' = Map.empty \<and> want_at h' = Map.empty \<and>
      item_at h' = item_at h |` unstored h \<and> callback_at h' = callback_at h |` unawaited h
    else manager_shutdown h = None"
proof (cases "ctx_servers h = []")
  case True
  note inv = manager_good_inv [OF g]
  from shutdown_wants_eq [OF inv] obtain h1 where h1: "shutdown_wants h = Some h1" "manager_inv L h1"
    "want_at h1 = Map.empty" "item_at h1 = item_at h" "callback_at h1 = callback_at h" "queue_at h1 = queue_at h"
    by blast
  have "unstored h1 = unstored h" "unawaited h1 = unawaited h"
    using h1(6) by (simp_all add: unstored_def unawaited_def)
  moreover have "shutdown_servers h = Some h" using True by (simp add: shutdown_servers.simps)
  ultimately show ?thesis
    using shutdown_queues_eq [OF h1(2)] h1 True by (auto simp: manager_shutdown_def)
next
  case False
  then have "shutdown_servers h = None" using shutdown_servers_ends by fastforce
  with False show ?thesis by (simp add: manager_shutdown_def)
qed

theorem manager_shutdown_spec_witness:
  "if ctx_servers office = []
    then \<exists>h'. manager_shutdown office = Some h' \<and> manager_inv 8 h' \<and> queue_at h' = Map.empty \<and>
      mqueue_at h' = Map.empty \<and> want_at h' = Map.empty \<and>
      item_at h' = item_at office |` unstored office \<and> callback_at h' = callback_at office |` unawaited office
    else manager_shutdown office = None"
  by (rule manager_shutdown_spec [OF office_good])

text \<open>
  When a connection closes, or a queue is deleted, exactly the wants of that connection, or of that
  queue, are marked as cancelled; no want is freed or moved and nothing else changes.
\<close>

theorem manager_wants_cancelled:
  assumes g: "manager_good L h"
  shows "\<exists>h1 h2. manager_queue_want_close con h = Some h1 \<and> manager_queue_want_remove m h = Some h2 \<and>
    manager_good L h1 \<and> manager_good L h2 \<and>
    h1\<lparr>want_at := want_at h\<rparr> = h \<and> h2\<lparr>want_at := want_at h\<rparr> = h \<and>
    want_at h1 = (\<lambda>w. map_option (\<lambda>W. W\<lparr>cancelled := cancelled W \<or> want_client W = Some con\<rparr>) (want_at h w)) \<and>
    want_at h2 = (\<lambda>w. map_option (\<lambda>W. W\<lparr>cancelled := cancelled W \<or> want_queue W = Some m\<rparr>) (want_at h w))"
proof -
  note inv = manager_good_inv [OF g]
  have all: "w \<in> set (ctx_wants h)" if "want_at h w = Some W" for w W
    using inv that by (auto simp: manager_inv_def)
  have mk: "map_option (\<lambda>W. if w \<in> set (ctx_wants h) \<and> P W then W\<lparr>cancelled := True\<rparr> else W) (want_at h w) =
      map_option (\<lambda>W. W\<lparr>cancelled := cancelled W \<or> P W\<rparr>) (want_at h w)" for w P
    by (cases "want_at h w") (simp_all add: all)
  let ?m = "wants_marked (\<lambda>W. want_queue W = Some m) (ctx_wants h) h"
  let ?c = "wants_marked (\<lambda>W. want_client W = Some con) (ctx_wants h) h"
  have "want_at ?m = (\<lambda>w. map_option (\<lambda>W. W\<lparr>cancelled := cancelled W \<or> want_queue W = Some m\<rparr>) (want_at h w))"
    "want_at ?c = (\<lambda>w. map_option (\<lambda>W. W\<lparr>cancelled := cancelled W \<or> want_client W = Some con\<rparr>) (want_at h w))"
    "?m\<lparr>want_at := want_at h\<rparr> = h" "?c\<lparr>want_at := want_at h\<rparr> = h"
    by (simp_all add: wants_marked_def mk)
  with manager_cancel [OF inv] wants_marked_good [OF g] show ?thesis by blast
qed

theorem manager_wants_cancelled_witness:
  "\<exists>h1 h2. manager_queue_want_close 20 office = Some h1 \<and> manager_queue_want_remove 3 office = Some h2 \<and>
    manager_good 8 h1 \<and> manager_good 8 h2 \<and>
    h1\<lparr>want_at := want_at office\<rparr> = office \<and> h2\<lparr>want_at := want_at office\<rparr> = office \<and>
    want_at h1 = (\<lambda>w. map_option (\<lambda>W. W\<lparr>cancelled := cancelled W \<or> want_client W = Some 20\<rparr>) (want_at office w)) \<and>
    want_at h2 = (\<lambda>w. map_option (\<lambda>W. W\<lparr>cancelled := cancelled W \<or> want_queue W = Some 3\<rparr>) (want_at office w))"
  by (rule manager_wants_cancelled [OF office_good])

end
