(* ===== verification/Auth_Plaintext.thy ===== *)
theory Auth_Plaintext
  imports Prelude
begin

text \<open>
  HTTP basic authentication against a password file: \<open>src/auth-plaintext.c\<close>, with the structures
  of \<open>src/auth-internal.h\<close>, and the table of methods of \<open>src/auth.c\<close>.

  The entries of a password list are reachable through that list only, so the list is kept by
  value.  The world outside is two records: \<open>files\<close> has what \<open>stat\<close> and \<open>fopen\<close> find under a
  name at the moment of the call, and \<open>openssl\<close> the two functions the code takes from OpenSSL,
  reading through a base64 BIO and comparing memory.
\<close>

section \<open>Structures\<close>

text \<open>The only codec is \<open>auth_plaintext_plain_codec_\<close>.\<close>

datatype codec = Plain_codec

record auth_plaintext_entry =
  codec_verify :: codec
  ape_username :: cstring
  ape_password :: cstring

record auth_plaintext =
  source :: "cstring option"
  source_last_read :: int
  passwords :: "auth_plaintext_entry list"

text \<open>
  A file is the list of its characters; \<open>stat_mtime\<close> is NULL-like when \<open>stat\<close> fails, \<open>fopen\<close>
  when the file cannot be opened, and \<open>seekable\<close> says whether \<open>fgetpos\<close> succeeds on it.
\<close>

record files =
  stat_mtime :: "cstring \<Rightarrow> int option"
  fopen :: "cstring \<Rightarrow> char list option"
  seekable :: "cstring \<Rightarrow> bool"

text \<open>
  \<open>bio_read s n\<close> is \<open>BIO_read\<close> of at most \<open>n\<close> bytes through base64 of the string \<open>s\<close>
  (\<open>None\<close> for a result that is not positive); \<open>crypto_memcmp\<close> is \<open>CRYPTO_memcmp\<close>.
\<close>

record openssl =
  bio_read :: "cstring \<Rightarrow> nat \<Rightarrow> char list option"
  crypto_memcmp :: "cstring \<Rightarrow> cstring \<Rightarrow> nat \<Rightarrow> int"

definition newline :: char where
  "newline = CHR 0x0A"

section \<open>Reading lines\<close>

definition LINE_SIZE :: nat where
  "LINE_SIZE = 128"

text \<open>\<open>fgets\<close> with a buffer of \<open>n\<close> bytes: the characters read, and the rest of the file.\<close>

fun fgets_chars :: "nat \<Rightarrow> char list \<Rightarrow> char list \<times> char list" where
  "fgets_chars 0 s = ([], s)"
| "fgets_chars (Suc n) [] = ([], [])"
| "fgets_chars (Suc n) (c # s) =
     (if c = newline then ([c], s) else (let (b, r) = fgets_chars n s in (c # b, r)))"

definition fgets :: "nat \<Rightarrow> char list \<Rightarrow> (char list \<times> char list) option" where
  "fgets n s = (if s = [] then None else Some (fgets_chars (n - 1) s))"

text \<open>The loop that cuts the characters \<open>isgraph\<close> rejects off the end.\<close>

definition strip_end :: "cstring \<Rightarrow> cstring" where
  "strip_end s = rev (dropWhile (\<lambda>c. \<not> isgraph c) (rev s))"

definition auth_string_extend ::
  "cstring option \<Rightarrow> cstring \<Rightarrow> 'z mem_scheme \<Rightarrow> cstring option \<times> 'z mem_scheme" where
  "auth_string_extend original extension h =
     (case alloc_block h of
        (False, h) \<Rightarrow> (None, h)
      | (True, h) \<Rightarrow>
         (Some ((case original of None \<Rightarrow> [] | Some s \<Rightarrow> s) @ strip_end extension), h))"

text \<open>
  The loop of \<open>auth_read_line\<close>, given the line so far.  \<open>Inl\<close> is the jump to \<open>error\<close>.  A chunk
  that starts with a NUL character has length 0, and the test of its last character reads in
  front of the buffer: undefined.
\<close>

lemma fgets_chars_shorter: "length (snd (fgets_chars n s)) \<le> length s"
  by (induction n s rule: fgets_chars.induct) (auto split: prod.splits)

lemma fgets_shorter: "fgets LINE_SIZE s = Some (b, r) \<Longrightarrow> length r < length s"
  using fgets_chars_shorter [of 126 "tl s"]
  by (cases s) (auto simp: fgets_def LINE_SIZE_def eval_nat_numeral split: if_splits prod.splits)

function (sequential) read_line_loop ::
  "cstring option \<Rightarrow> char list \<Rightarrow> 'z mem_scheme \<Rightarrow>
   ((unit + cstring option \<times> char list) \<times> 'z mem_scheme) option" where
  "read_line_loop line s h = (case fgets LINE_SIZE s of
     None \<Rightarrow> Some (Inr (line, s), h)
   | Some (b, r) \<Rightarrow>
      (case auth_string_extend line (c_string b) h of
         (None, h) \<Rightarrow> Some (Inl (), h)
       | (Some l, h) \<Rightarrow>
          if c_string b = [] then None
          else if last (c_string b) = newline then Some (Inr (Some l, r), h)
          else read_line_loop (Some l) r h))"
  by pat_completeness auto
termination by (relation "measure (\<lambda>(_, s, _). length s)") (auto simp: fgets_shorter)

declare read_line_loop.simps [simp del]

text \<open>The position in the file is the rest still to be read; \<open>ok\<close> is whether \<open>fgetpos\<close> succeeds.\<close>

definition auth_read_line ::
  "bool \<Rightarrow> char list \<Rightarrow> 'z mem_scheme \<Rightarrow> (cstring option \<times> char list \<times> 'z mem_scheme) option" where
  "auth_read_line ok s h =
     (if \<not> ok then Some (None, s, h)
      else do {
        (res, h) \<leftarrow> read_line_loop None s h;
        case res of
          Inl _ \<Rightarrow> Some (None, s, h)
        | Inr (line, r) \<Rightarrow> Some (line, r, h) })"

section \<open>Decoding the header\<close>

text \<open>
  The inner option is the NULL result; the loop over characters \<open>isgraph\<close> rejects does not stop
  at the end of the string.
\<close>

definition auth_skip_basic :: "cstring \<Rightarrow> cstring option option" where
  "auth_skip_basic header =
     (if strncasecmp header ''Basic '' 6 \<noteq> 0 then Some None
      else (let rest = dropWhile (\<lambda>c. \<not> isgraph c) (drop 6 header)
            in if rest = [] then None else Some (Some rest)))"

definition auth_plaintext_decode ::
  "openssl \<Rightarrow> cstring \<Rightarrow> 'z mem_scheme \<Rightarrow> ((cstring \<times> cstring) option \<times> 'z mem_scheme) option" where
  "auth_plaintext_decode O1 header h = do {
     hd \<leftarrow> auth_skip_basic header;
     case hd of
       None \<Rightarrow> Some (None, h)
     | Some header \<Rightarrow>
        (case alloc_block h of
           (False, h) \<Rightarrow> Some (None, h)
         | (True, h) \<Rightarrow>
            (case bio_read O1 header (length header) of
               None \<Rightarrow> Some (None, h)
             | Some decoded \<Rightarrow>
                (case split_at (CHR '':'') (c_string decoded) of
                   None \<Rightarrow> Some (None, h)
                 | Some (user, pass) \<Rightarrow>
                    (case strdup user h of (u, h) \<Rightarrow>
                     (case strdup pass h of (p, h) \<Rightarrow>
                        Some (case (u, p) of (Some u, Some p) \<Rightarrow> Some (u, p) | _ \<Rightarrow> None, h)))))) }"

section \<open>The password list\<close>

definition auth_plaintext_new :: "'z mem_scheme \<Rightarrow> auth_plaintext option \<times> 'z mem_scheme" where
  "auth_plaintext_new h = (case alloc_block h of
       (False, h) \<Rightarrow> (None, h)
     | (True, h) \<Rightarrow> (Some \<lparr>source = None, source_last_read = 0, passwords = []\<rparr>, h))"

text \<open>\<open>auth_plaintext_entry_free_\<close> of the first entry.\<close>

definition auth_plaintext_entry_free :: "auth_plaintext \<Rightarrow> auth_plaintext" where
  "auth_plaintext_entry_free A = A\<lparr>passwords := tl (passwords A)\<rparr>"

function free_entries :: "auth_plaintext \<Rightarrow> auth_plaintext" where
  "free_entries A = (if passwords A = [] then A else free_entries (auth_plaintext_entry_free A))"
  by pat_completeness auto
termination
  by (relation "measure (\<lambda>A. length (passwords A))") (auto simp: auth_plaintext_entry_free_def)

declare free_entries.simps [simp del]

text \<open>\<open>auth_plaintext_free_\<close>; the result is what the structure still owns when it is released itself.\<close>

definition auth_plaintext_free :: "auth_plaintext \<Rightarrow> auth_plaintext" where
  "auth_plaintext_free A = (let A = free_entries A in if source A \<noteq> None then A\<lparr>source := None\<rparr> else A)"

definition auth_plaintext_set_password_file ::
  "auth_plaintext \<Rightarrow> cstring \<Rightarrow> 'z mem_scheme \<Rightarrow> int \<times> auth_plaintext \<times> 'z mem_scheme" where
  "auth_plaintext_set_password_file A file h =
     (let A = free_entries A in
      case strdup file h of
        (None, h) \<Rightarrow> (0, A\<lparr>source := None\<rparr>, h)
      | (Some f, h) \<Rightarrow> (1, A\<lparr>source := Some f\<rparr>, h))"

definition auth_plaintext_plain_codec :: "openssl \<Rightarrow> cstring \<Rightarrow> cstring \<Rightarrow> int" where
  "auth_plaintext_plain_codec O1 file provided =
     (let password_begin = drop (length ''$plain$'') file; password_len = length password_begin
      in if password_len \<noteq> length provided then 0
         else if crypto_memcmp O1 password_begin provided password_len = 0 then 1 else 0)"

fun run_codec :: "openssl \<Rightarrow> codec \<Rightarrow> cstring \<Rightarrow> cstring \<Rightarrow> int" where
  "run_codec O1 Plain_codec file provided = auth_plaintext_plain_codec O1 file provided"

text \<open>
  The entry is allocated with its user name and its password before the type of the password is
  looked at.
\<close>

definition auth_entry_plaintext_add ::
  "auth_plaintext \<Rightarrow> cstring \<Rightarrow> 'z mem_scheme \<Rightarrow> int \<times> auth_plaintext \<times> 'z mem_scheme" where
  "auth_entry_plaintext_add A line h =
     (case split_at (CHR '':'') line of
        None \<Rightarrow> (0, A, h)
      | Some (user, password) \<Rightarrow>
         (case password of
            [] \<Rightarrow> (0, A, h)
          | d # rest \<Rightarrow>
             if d \<noteq> CHR ''$'' then (0, A, h)
             else (case split_at (CHR ''$'') rest of
                None \<Rightarrow> (0, A, h)
              | Some (type, _) \<Rightarrow>
                 if length type = 0 then (0, A, h)
                 else (case alloc_block h of
                    (False, h) \<Rightarrow> (0, A, h)
                  | (True, h) \<Rightarrow>
                     (case alloc_block h of
                        (False, h) \<Rightarrow> (0, A, h)
                      | (True, h) \<Rightarrow>
                         (case strdup password h of
                            (None, h) \<Rightarrow> (0, A, h)
                          | (Some pw, h) \<Rightarrow>
                             if length type = 5 \<and> strncasecmp rest ''plain'' 5 = 0
                             then (1, A\<lparr>passwords := \<lparr>codec_verify = Plain_codec, ape_username = user,
                                       ape_password = pw\<rparr> # passwords A\<rparr>, h)
                             else (0, A, h)))))))"

text \<open>A line that was read has used up characters of the file.\<close>

lemma read_line_loop_shorter:
  "read_line_loop line s h = Some (Inr (x, r), h') \<Longrightarrow>
   length r \<le> length s \<and> (s \<noteq> [] \<longrightarrow> length r < length s) \<and> (s = [] \<longrightarrow> x = line)"
proof (induction line s h rule: read_line_loop.induct)
  case (1 line s h)
  show ?case
  proof (cases "fgets LINE_SIZE s")
    case None
    with 1(2) show ?thesis by (auto simp: read_line_loop.simps [of line s h] fgets_def split: if_splits)
  next
    case (Some br)
    obtain b r1 where br: "br = (b, r1)" by force
    have lt: "length r1 < length s" using Some br fgets_shorter by blast
    obtain y h1 where y: "auth_string_extend line (c_string b) h = (y, h1)" by force
    show ?thesis
    proof (cases y)
      case None
      with 1(2) Some br y show ?thesis by (simp add: read_line_loop.simps [of line s h])
    next
      case ys: (Some l1)
      show ?thesis
      proof (cases "c_string b = [] \<or> last (c_string b) = newline")
        case True
        with 1(2) Some br y ys lt show ?thesis
          by (auto simp: read_line_loop.simps [of line s h] split: if_splits)
      next
        case False
        with 1(2) Some br y ys have "read_line_loop (Some l1) r1 h1 = Some (Inr (x, r), h')"
          by (simp add: read_line_loop.simps [of line s h])
        with 1(1) [OF Some br [symmetric] y [symmetric] ys] False lt show ?thesis by fastforce
      qed
    qed
  qed
qed

lemma auth_read_line_shorter:
  "auth_read_line ok s h = Some (Some l, r, h') \<Longrightarrow> length r < length s"
  using read_line_loop_shorter [of None s h "Some l" r h']
  by (auto simp: auth_read_line_def split: if_splits sum.splits Option.bind_splits)

text \<open>The loop of \<open>auth_plaintext_update_\<close> over the lines; the result is \<open>retval\<close> so far.\<close>

function update_loop ::
  "bool \<Rightarrow> auth_plaintext \<Rightarrow> char list \<Rightarrow> 'z mem_scheme \<Rightarrow> (bool \<times> auth_plaintext \<times> 'z mem_scheme) option" where
  "update_loop ok A s h = (case auth_read_line ok s h of
     None \<Rightarrow> None
   | Some (None, _, h) \<Rightarrow> Some (True, A, h)
   | Some (Some line, r, h) \<Rightarrow>
      (let (ret, A, h) = auth_entry_plaintext_add A line h
       in if ret = 0 then Some (False, A, h) else update_loop ok A r h))"
  by pat_completeness auto
termination
  by (relation "measure (\<lambda>(_, _, s, _). length s)") (auto simp: auth_read_line_shorter)

declare update_loop.simps [simp del]

definition auth_plaintext_update ::
  "files \<Rightarrow> auth_plaintext \<Rightarrow> 'z mem_scheme \<Rightarrow> (int \<times> auth_plaintext \<times> 'z mem_scheme) option" where
  "auth_plaintext_update F A h =
     (case (case source A of None \<Rightarrow> None | Some f \<Rightarrow> map_option (\<lambda>t. (f, t)) (stat_mtime F f)) of
        None \<Rightarrow> if source_last_read A \<noteq> 0 then Some (1, A, h) else Some (0, A, h)
      | Some (f, st_mtime) \<Rightarrow>
          if source_last_read A \<noteq> 0 \<and> st_mtime \<le> source_last_read A then Some (1, A, h)
          else (case fopen F f of
             None \<Rightarrow> Some (0, A, h)
           | Some content \<Rightarrow> do {
               (done, A, h) \<leftarrow> update_loop (seekable F f) A content h;
               if done then Some (1, A\<lparr>source_last_read := st_mtime\<rparr>, h) else Some (0, A, h) }))"

text \<open>The search of \<open>auth_plaintext_verify_\<close>.\<close>

fun verify_loop :: "openssl \<Rightarrow> auth_plaintext_entry list \<Rightarrow> cstring \<Rightarrow> cstring \<Rightarrow> int" where
  "verify_loop O1 [] user pass = 0"
| "verify_loop O1 (e # es) user pass =
     (if strcasecmp (ape_username e) user = 0 \<and> run_codec O1 (codec_verify e) (ape_password e) pass \<noteq> 0
      then 1 else verify_loop O1 es user pass)"

definition auth_plaintext_verify ::
  "files \<Rightarrow> openssl \<Rightarrow> auth_plaintext \<Rightarrow> cstring \<Rightarrow> 'z mem_scheme \<Rightarrow>
   (int \<times> auth_plaintext \<times> 'z mem_scheme) option" where
  "auth_plaintext_verify F O1 A header h = do {
     (ret, A, h) \<leftarrow> auth_plaintext_update F A h;
     if ret = 0 then Some (0, A, h)
     else do {
       (credentials, h) \<leftarrow> auth_plaintext_decode O1 header h;
       case credentials of
         None \<Rightarrow> Some (0, A, h)
       | Some (user, pass) \<Rightarrow> Some (verify_loop O1 (passwords A) user pass, A, h) } }"

section \<open>The table of methods\<close>

text \<open>
  \<open>src/auth.c\<close> calls a method through the callbacks of its table entry, which every instance copies;
  here an instance keeps which entry it copied.  \<open>'m\<close> is the memory; an optional callback is an option.
\<close>

datatype auth_method = Auth_plaintext

record 'm auth_method_callbacks =
  cb_auth_new :: "'m \<Rightarrow> auth_plaintext option \<times> 'm"
  cb_auth_free :: "auth_plaintext \<Rightarrow> auth_plaintext"
  cb_auth_verify :: "files \<Rightarrow> openssl \<Rightarrow> auth_plaintext \<Rightarrow> cstring \<Rightarrow> 'm \<Rightarrow> (int \<times> auth_plaintext \<times> 'm) option"
  cb_auth_set_password_file :: "(auth_plaintext \<Rightarrow> cstring \<Rightarrow> 'm \<Rightarrow> int \<times> auth_plaintext \<times> 'm) option"

record auth =
  au_method :: auth_method
  au_methoddata :: auth_plaintext

definition auth_methods_list :: "(cstring \<times> auth_method) list" where
  "auth_methods_list = [(''plaintext'', Auth_plaintext)]"

fun au_callbacks :: "auth_method \<Rightarrow> ('z mem_scheme) auth_method_callbacks" where
  "au_callbacks Auth_plaintext =
     \<lparr>cb_auth_new = auth_plaintext_new, cb_auth_free = auth_plaintext_free, cb_auth_verify = auth_plaintext_verify,
      cb_auth_set_password_file = Some auth_plaintext_set_password_file\<rparr>"

definition auth_new_int :: "auth_method \<Rightarrow> 'z mem_scheme \<Rightarrow> auth option \<times> 'z mem_scheme" where
  "auth_new_int method h = (case alloc_block h of
       (False, h) \<Rightarrow> (None, h)
     | (True, h) \<Rightarrow>
        (case cb_auth_new (au_callbacks method) h of
           (None, h) \<Rightarrow> (None, h)
         | (Some A, h) \<Rightarrow> (Some \<lparr>au_method = method, au_methoddata = A\<rparr>, h)))"

fun method_search ::
  "(cstring \<Rightarrow> auth_method \<Rightarrow> bool) \<Rightarrow> (cstring \<times> auth_method) list \<Rightarrow> 'z mem_scheme \<Rightarrow> auth option \<times> 'z mem_scheme" where
  "method_search P [] h = (None, h)"
| "method_search P ((n, m) # ms) h = (if P n m then auth_new_int m h else method_search P ms h)"

definition auth_method_from_string :: "cstring \<Rightarrow> 'z mem_scheme \<Rightarrow> auth option \<times> 'z mem_scheme" where
  "auth_method_from_string name h = method_search (\<lambda>n _. strcasecmp n name = 0) auth_methods_list h"

definition auth_new :: "auth_method \<Rightarrow> 'z mem_scheme \<Rightarrow> auth option \<times> 'z mem_scheme" where
  "auth_new method h = method_search (\<lambda>_ m. m = method) auth_methods_list h"

text \<open>\<open>auth_free\<close>: the method releases its data, then the caller drops the instance.\<close>

definition auth_free :: "auth \<Rightarrow> auth" where
  "auth_free A = A\<lparr>au_methoddata := cb_auth_free (au_callbacks (au_method A) :: unit mem_scheme auth_method_callbacks) (au_methoddata A)\<rparr>"

definition auth_verify ::
  "files \<Rightarrow> openssl \<Rightarrow> auth \<Rightarrow> cstring \<Rightarrow> 'z mem_scheme \<Rightarrow> (int \<times> auth \<times> 'z mem_scheme) option" where
  "auth_verify F O1 A header h = do {
     (r, D, h) \<leftarrow> cb_auth_verify (au_callbacks (au_method A)) F O1 (au_methoddata A) header h;
     Some (r, A\<lparr>au_methoddata := D\<rparr>, h) }"

definition auth_set_password_file ::
  "auth \<Rightarrow> cstring \<Rightarrow> 'z mem_scheme \<Rightarrow> int \<times> auth \<times> 'z mem_scheme" where
  "auth_set_password_file A file h = (case cb_auth_set_password_file (au_callbacks (au_method A)) of
       None \<Rightarrow> (0, A, h)
     | Some f \<Rightarrow> (let (r, D, h) = f (au_methoddata A) file h in (r, A\<lparr>au_methoddata := D\<rparr>, h)))"

section \<open>Lines\<close>

definition text_line :: "cstring \<Rightarrow> bool" where
  "text_line s \<longleftrightarrow> newline \<notin> set s \<and> CHR 0x00 \<notin> set s"

lemma fgets_chars_line:
  "newline \<notin> set line \<Longrightarrow> fgets_chars n (line @ newline # rest) =
    (if n \<le> length line then (take n line, drop n line @ newline # rest) else (line @ [newline], rest))"
proof (induction n arbitrary: line)
  case (Suc n)
  then show ?case by (cases line) auto
qed simp

text \<open>The reference definition: a line is cut into the pieces \<open>fgets\<close> returns.\<close>

function chunks :: "nat \<Rightarrow> 'a list \<Rightarrow> 'a list list" where
  "chunks n xs = (if xs = [] \<or> n = 0 then [] else take n xs # chunks n (drop n xs))"
  by pat_completeness auto
termination by (relation "measure (\<lambda>(n, xs). length xs)") auto

declare chunks.simps [simp del]

definition stripped :: "cstring \<Rightarrow> cstring" where
  "stripped line = concat (map strip_end (chunks 127 (line @ [newline])))"

lemma chunks_step:
  "stripped line = (if 127 \<le> length line then strip_end (take 127 line) @ stripped (drop 127 line)
     else strip_end (line @ [newline]))"
  by (simp add: stripped_def chunks.simps [of 127 "line @ [newline]"] chunks.simps [of 127 "[]"])

lemma strip_end_newline: "strip_end (s @ [newline]) = strip_end s"
  by (simp add: strip_end_def isgraph_def newline_def)

lemma stripped_short: "length line \<le> 126 \<Longrightarrow> stripped line = strip_end line"
  by (simp add: chunks_step strip_end_newline)

lemma extend_granted:
  assumes "granted h"
  obtains h' where "auth_string_extend line e h =
      (Some ((case line of None \<Rightarrow> [] | Some s \<Rightarrow> s) @ strip_end e), h')" "granted h'"
  using assms by (auto simp: auth_string_extend_def elim: alloc_block_granted)

lemma read_line_loop_line:
  "granted h \<Longrightarrow> text_line line \<Longrightarrow> \<exists>h'. granted h' \<and>
     read_line_loop acc (line @ newline # rest) h =
       Some (Inr (Some ((case acc of None \<Rightarrow> [] | Some s \<Rightarrow> s) @ stripped line), rest), h')"
proof (induction "length line" arbitrary: line acc h rule: less_induct)
  case less
  let ?acc = "case acc of None \<Rightarrow> [] | Some s \<Rightarrow> s"
  have nn: "newline \<noteq> CHR 0x00" by (simp add: newline_def)
  have c127: "fgets LINE_SIZE (line @ newline # rest) = Some (fgets_chars 127 (line @ newline # rest))"
    by (simp add: fgets_def LINE_SIZE_def)
  show ?case
  proof (cases "127 \<le> length line")
    case False
    have "c_string (line @ [newline]) = line @ [newline]"
      using less.prems nn by (intro c_string_text) (auto simp: text_line_def)
    moreover obtain h' where "auth_string_extend acc (line @ [newline]) h = (Some (?acc @ strip_end (line @ [newline])), h')"
      "granted h'" by (rule extend_granted [OF less.prems(1)])
    moreover have "fgets_chars 127 (line @ newline # rest) = (line @ [newline], rest)"
      using False less.prems by (simp add: fgets_chars_line text_line_def)
    ultimately show ?thesis
      using False c127 by (simp add: read_line_loop.simps [of acc "line @ newline # rest"] chunks_step)
  next
    case True
    let ?b = "take 127 line" and ?l = "drop 127 line"
    have b: "c_string ?b = ?b" "?b \<noteq> []" "last ?b \<noteq> newline"
    proof -
      show "c_string ?b = ?b"
        using less.prems by (intro c_string_text) (auto simp: text_line_def dest: in_set_takeD)
      show "?b \<noteq> []" using True by auto
      then have "last ?b \<in> set line" by (meson in_set_takeD last_in_set)
      then show "last ?b \<noteq> newline" using less.prems(2) by (auto simp: text_line_def)
    qed
    obtain h1 where x: "auth_string_extend acc ?b h = (Some (?acc @ strip_end ?b), h1)" "granted h1"
      by (rule extend_granted [OF less.prems(1)])
    have f: "fgets_chars 127 (line @ newline # rest) = (?b, ?l @ newline # rest)"
      using True less.prems by (simp add: fgets_chars_line text_line_def)
    have "text_line ?l" using less.prems(2) by (auto simp: text_line_def dest: in_set_dropD)
    from less.hyps [OF _ x(2) this, of "Some (?acc @ strip_end ?b)"] True
    show ?thesis
      using c127 f b x by (simp add: read_line_loop.simps [of acc "line @ newline # rest"] chunks_step [of line])
  qed
qed

lemma read_line_line:
  assumes "granted h" and "text_line line"
  obtains h' where "auth_read_line True (line @ newline # rest) h = Some (Some (stripped line), rest, h')" "granted h'"
  using read_line_loop_line [OF assms, of None rest] by (auto simp: auth_read_line_def)

lemma read_line_end: "auth_read_line True [] h = Some (None, [], h)"
  by (simp add: auth_read_line_def read_line_loop.simps fgets_def)

section \<open>Entries\<close>

text \<open>A user name and a password a line of the file can hold, and the line.\<close>

type_synonym credential = "cstring \<times> cstring"

definition storable :: "credential \<Rightarrow> bool" where
  "storable c \<longleftrightarrow> (case c of (user, pass) \<Rightarrow>
     CHR '':'' \<notin> set user \<and> text_line user \<and> text_line pass \<and>
     (pass = [] \<or> isgraph (last pass)) \<and> length user + length pass \<le> 118)"

definition entry_line :: "credential \<Rightarrow> cstring" where
  "entry_line c = (case c of (user, pass) \<Rightarrow> user @ '':$plain$'' @ pass)"

definition entry_for :: "credential \<Rightarrow> auth_plaintext_entry" where
  "entry_for c = (case c of (user, pass) \<Rightarrow>
     \<lparr>codec_verify = Plain_codec, ape_username = user, ape_password = ''$plain$'' @ pass\<rparr>)"

definition password_file :: "credential list \<Rightarrow> char list" where
  "password_file cs = concat (map (\<lambda>c. entry_line c @ [newline]) cs)"

lemma entry_line_stripped: "storable c \<Longrightarrow> stripped (entry_line c) = entry_line c"
proof -
  assume s: "storable c"
  obtain user pass where c: "c = (user, pass)" by force
  have "isgraph (last (entry_line c))"
  proof (cases "pass = []")
    case True
    then show ?thesis by (simp add: c entry_line_def isgraph_def)
  qed (use s in \<open>auto simp: c storable_def entry_line_def\<close>)
  moreover have "entry_line c \<noteq> []" by (simp add: c entry_line_def)
  then have "entry_line c = butlast (entry_line c) @ [last (entry_line c)]" by simp
  ultimately have "strip_end (entry_line c) = entry_line c"
    unfolding strip_end_def by (metis append_butlast_last_id dropWhile.simps(2) rev.simps(2) rev_rev_ident rev_append
        append_Cons append_Nil rev_eq_Cons_iff)
  moreover have "length (entry_line c) \<le> 126" using s by (simp add: c storable_def entry_line_def)
  ultimately show ?thesis by (simp add: stripped_short)
qed

lemma entry_line_text: "storable c \<Longrightarrow> text_line (entry_line c)"
  by (auto simp: storable_def entry_line_def text_line_def newline_def split: prod.splits)

lemma entry_added:
  assumes g: "granted h" and s: "storable c"
  obtains h' where "auth_entry_plaintext_add A (entry_line c) h =
      (1, A\<lparr>passwords := entry_for c # passwords A\<rparr>, h')" "granted h'"
proof -
  obtain user pass where c: "c = (user, pass)" by force
  have u: "split_at (CHR '':'') (entry_line c) = Some (user, ''$plain$'' @ pass)"
    using s by (simp add: c storable_def entry_line_def split_at_Some)
  have t: "split_at (CHR ''$'') (''plain$'' @ pass) = Some (''plain'', pass)"
    by (simp add: split_at_Some)
  obtain h1 where h1: "alloc_block h = (True, h1)" "granted h1" by (rule alloc_block_granted [OF g])
  obtain h2 where h2: "alloc_block h1 = (True, h2)" "granted h2" by (rule alloc_block_granted [OF h1(2)])
  obtain h3 where h3: "strdup (''$plain$'' @ pass) h2 = (Some (''$plain$'' @ pass), h3)" "granted h3"
    by (rule strdup_granted [OF h2(2)])
  have n: "strncasecmp (''plain$'' @ pass) ''plain'' 5 = 0" by (simp add: strncasecmp_def)
  from u t h1 h2 h3 n that show thesis
    by (simp add: auth_entry_plaintext_add_def entry_for_def c)
qed

lemma update_loop_file:
  "granted h \<Longrightarrow> \<forall>c \<in> set cs. storable c \<Longrightarrow> \<exists>h'. granted h' \<and>
   update_loop True A (password_file cs) h =
     Some (True, A\<lparr>passwords := rev (map entry_for cs) @ passwords A\<rparr>, h')"
proof (induction cs arbitrary: A h)
  case Nil
  then show ?case by (simp add: password_file_def update_loop.simps read_line_end)
next
  case (Cons c cs)
  have c: "storable c" using Cons.prems by simp
  obtain h1 where h1: "auth_read_line True (entry_line c @ newline # password_file cs) h =
      Some (Some (entry_line c), password_file cs, h1)" "granted h1"
    using read_line_line [OF Cons.prems(1) entry_line_text [OF c], of "password_file cs"]
    by (metis entry_line_stripped [OF c])
  obtain h2 where h2: "auth_entry_plaintext_add A (entry_line c) h1 =
      (1, A\<lparr>passwords := entry_for c # passwords A\<rparr>, h2)" "granted h2" by (rule entry_added [OF h1(2) c])
  have f: "password_file (c # cs) = entry_line c @ newline # password_file cs" by (simp add: password_file_def)
  from Cons.IH [OF h2(2), of "A\<lparr>passwords := entry_for c # passwords A\<rparr>"] Cons.prems(2) h1 h2 show ?case
    by (auto simp: f update_loop.simps [of True A "entry_line c @ newline # password_file cs"])
qed

section \<open>Checking a header\<close>

definition openssl_ok :: "openssl \<Rightarrow> bool" where
  "openssl_ok O1 \<longleftrightarrow> (\<forall>a b n. crypto_memcmp O1 a b n = 0 \<longleftrightarrow> take n a = take n b)"

lemma plain_codec:
  assumes "openssl_ok O1"
  shows "auth_plaintext_plain_codec O1 (''$plain$'' @ pass) provided = (if provided = pass then 1 else 0)"
  using assms by (auto simp: auth_plaintext_plain_codec_def openssl_ok_def Let_def)

lemma verify_loop_entries:
  assumes "openssl_ok O1"
  shows "verify_loop O1 (map entry_for cs) user pass =
    (if \<exists>(u, p) \<in> set cs. strcasecmp u user = 0 \<and> p = pass then 1 else 0)"
  by (induction cs) (auto simp: entry_for_def plain_codec [OF assms, simplified] split: if_splits)

lemma verify_loop_iff:
  "verify_loop O1 es user pass = (if \<exists>e \<in> set es. strcasecmp (ape_username e) user = 0 \<and>
     run_codec O1 (codec_verify e) (ape_password e) pass \<noteq> 0 then 1 else 0)"
  by (induction es) auto

text \<open>An update only ever puts entries in front of those it finds.\<close>

lemma add_extends:
  "auth_entry_plaintext_add A line h = (r, A', h') \<Longrightarrow> \<exists>es. passwords A' = es @ passwords A \<and> source A' = source A"
  by (auto simp: auth_entry_plaintext_add_def split: option.splits prod.splits list.splits bool.splits if_splits)

lemma update_loop_extends:
  "update_loop ok A s h = Some (done, A', h') \<Longrightarrow> \<exists>es. passwords A' = es @ passwords A \<and> source A' = source A"
proof (induction ok A s h rule: update_loop.induct)
  case (1 ok A s h)
  show ?case
  proof (cases "auth_read_line ok s h")
    case None
    with 1(2) show ?thesis by (simp add: update_loop.simps [of ok A s h])
  next
    case (Some t)
    obtain line r h1 where t: "t = (line, r, h1)" by (cases t) auto
    show ?thesis
    proof (cases line)
      case None
      with 1(2) Some t show ?thesis by (simp add: update_loop.simps [of ok A s h])
    next
      case l: (Some l)
      obtain ret A1 h2 where a: "auth_entry_plaintext_add A l h1 = (ret, A1, h2)" by (cases "auth_entry_plaintext_add A l h1") auto
      from add_extends [OF a] obtain es where es: "passwords A1 = es @ passwords A" "source A1 = source A" by blast
      show ?thesis
      proof (cases "ret = 0")
        case True
        with 1(2) Some t l a es show ?thesis by (simp add: update_loop.simps [of ok A s h])
      next
        case False
        with 1(2) Some t l a have "update_loop ok A1 r h2 = Some (done, A', h')"
          by (simp add: update_loop.simps [of ok A s h])
        from 1(1) [OF Some t [symmetric] l refl refl a [symmetric] refl False this] es show ?thesis by auto
      qed
    qed
  qed
qed

lemma update_extends:
  "auth_plaintext_update F A h = Some (r, A', h') \<Longrightarrow> \<exists>es. passwords A' = es @ passwords A \<and> source A' = source A"
  using update_loop_extends
  by (fastforce simp: auth_plaintext_update_def split: option.splits if_splits Option.bind_splits)

lemma decode_basic:
  assumes g: "granted h" and tok: "token \<noteq> []" "isgraph (hd token)"
    and bio: "bio_read O1 token (length token) = Some (user @ CHR '':'' # pass)"
    and user: "CHR '':'' \<notin> set user" "CHR 0x00 \<notin> set user" "CHR 0x00 \<notin> set pass"
  obtains h' where "auth_plaintext_decode O1 (''Basic '' @ token) h = Some (Some (user, pass), h')" "granted h'"
proof -
  have "strncasecmp (''Basic '' @ token) ''Basic '' 6 = 0" by (simp add: strncasecmp_def)
  moreover have "dropWhile (\<lambda>c. \<not> isgraph c) token = token" using tok by (cases token) simp_all
  ultimately have sk: "auth_skip_basic (''Basic '' @ token) = Some (Some token)"
    using tok by (simp add: auth_skip_basic_def)
  obtain h1 where h1: "alloc_block h = (True, h1)" "granted h1" by (rule alloc_block_granted [OF g])
  obtain h2 where h2: "strdup user h1 = (Some user, h2)" "granted h2" by (rule strdup_granted [OF h1(2)])
  obtain h3 where h3: "strdup pass h2 = (Some pass, h3)" "granted h3" by (rule strdup_granted [OF h2(2)])
  have "c_string (user @ CHR '':'' # pass) = user @ CHR '':'' # pass" using user by (intro c_string_text) auto
  with sk h1 h2 h3 bio user split_at_append [OF user(1), of pass] that show thesis
    by (simp add: auth_plaintext_decode_def)
qed

lemma verify_credentials:
  assumes O1: "openssl_ok O1" and g: "granted h"
    and A: "source A = Some f" "passwords A = map entry_for old"
    and fl: "stat_mtime F f = Some t" "source_last_read A = 0 \<or> source_last_read A < t"
      "fopen F f = Some (password_file cs)" "seekable F f"
    and cs: "\<forall>c \<in> set cs. storable c"
    and tok: "token \<noteq> []" "isgraph (hd token)"
      "bio_read O1 token (length token) = Some (user @ CHR '':'' # pass)"
      "CHR '':'' \<notin> set user" "CHR 0x00 \<notin> set user" "CHR 0x00 \<notin> set pass"
  shows "\<exists>A' h'. auth_plaintext_verify F O1 A (''Basic '' @ token) h = Some
    (if \<exists>(u, p) \<in> set cs \<union> set old. strcasecmp u user = 0 \<and> p = pass then 1 else 0, A', h')"
proof -
  obtain h1 where h1: "granted h1" "update_loop True A (password_file cs) h =
      Some (True, A\<lparr>passwords := rev (map entry_for cs) @ passwords A\<rparr>, h1)"
    using update_loop_file [OF g cs] by blast
  let ?A = "A\<lparr>passwords := map entry_for (rev cs @ old), source_last_read := t\<rparr>"
  have up: "auth_plaintext_update F A h = Some (1, ?A, h1)"
    using A fl h1 by (auto simp: auth_plaintext_update_def rev_map)
  obtain h2 where "auth_plaintext_decode O1 (''Basic '' @ token) h1 = Some (Some (user, pass), h2)"
    by (rule decode_basic [OF h1(1) tok])
  with up have "auth_plaintext_verify F O1 A (''Basic '' @ token) h =
      Some (verify_loop O1 (map entry_for (rev cs @ old)) user pass, ?A, h2)"
    by (simp add: auth_plaintext_verify_def)
  then show ?thesis unfolding verify_loop_entries [OF O1] by (auto simp: Un_commute)
qed

section \<open>Totality\<close>

text \<open>
  Reading a password file without NUL characters, and checking a header against it, is never undefined.
\<close>

lemma fgets_chars_set: "set (fst (fgets_chars n s)) \<union> set (snd (fgets_chars n s)) = set s"
  by (induction n s rule: fgets_chars.induct) (auto simp: case_prod_beta Let_def)

lemma fgets_text:
  assumes "fgets LINE_SIZE s = Some (b, r)" and "CHR 0x00 \<notin> set s"
  shows "c_string b = b" "b \<noteq> []" "CHR 0x00 \<notin> set r"
proof -
  have br: "fgets_chars 127 s = (b, r)" "s \<noteq> []"
    using assms(1) by (auto simp: fgets_def LINE_SIZE_def split: if_splits)
  with fgets_chars_set [of 127 s] have "set b \<union> set r = set s" by simp
  with assms(2) show "c_string b = b" "CHR 0x00 \<notin> set r" by (auto intro: c_string_text)
  show "b \<noteq> []" using br by (cases s) (auto simp: eval_nat_numeral split: if_splits prod.splits)
qed

lemma read_line_loop_total:
  "CHR 0x00 \<notin> set s \<Longrightarrow>
   \<exists>res h'. read_line_loop line s h = Some (res, h') \<and> (\<forall>x r. res = Inr (x, r) \<longrightarrow> CHR 0x00 \<notin> set r)"
proof (induction line s h rule: read_line_loop.induct)
  case (1 line s h)
  show ?case
  proof (cases "fgets LINE_SIZE s")
    case None
    with 1(2) show ?thesis by (auto simp: read_line_loop.simps [of line s h])
  next
    case (Some br)
    obtain b r where br: "br = (b, r)" by force
    note t = fgets_text [OF Some [unfolded br] 1(2)]
    obtain y h1 where y: "auth_string_extend line (c_string b) h = (y, h1)" by force
    show ?thesis
    proof (cases "y = None \<or> last (c_string b) = newline")
      case True
      with Some br y t show ?thesis by (auto simp: read_line_loop.simps [of line s h] split: option.split)
    next
      case False
      then obtain l where l: "y = Some l" "last (c_string b) \<noteq> newline" by auto
      have "read_line_loop line s h = read_line_loop (Some l) r h1"
        using Some br y t l by (simp add: read_line_loop.simps [of line s h])
      with 1(1) [OF Some br [symmetric] y [symmetric] l(1) _ l(2) t(3)] t(1,2) show ?thesis by simp
    qed
  qed
qed

lemma update_loop_total:
  "CHR 0x00 \<notin> set s \<Longrightarrow> \<exists>done A' h'. update_loop ok A s h = Some (done, A', h')"
proof (induction ok A s h rule: update_loop.induct)
  case (1 ok A s h)
  obtain line r h1 where rl: "auth_read_line ok s h = Some (line, r, h1)" "CHR 0x00 \<notin> set r"
  proof (cases ok)
    case True
    obtain res h' where "read_line_loop None s h = Some (res, h')" "\<forall>x r. res = Inr (x, r) \<longrightarrow> CHR 0x00 \<notin> set r"
      using read_line_loop_total [OF 1(2), of None h] by blast
    with True 1(2) that show thesis by (cases res) (auto simp: auth_read_line_def)
  qed (use 1(2) that in \<open>auto simp: auth_read_line_def\<close>)
  show ?case
  proof (cases line)
    case None
    with rl show ?thesis by (intro exI [of _ True] exI [of _ A] exI [of _ h1]) (simp add: update_loop.simps [of ok A s h])
  next
    case (Some l)
    obtain ret A1 h2 where a: "auth_entry_plaintext_add A l h1 = (ret, A1, h2)" by (cases "auth_entry_plaintext_add A l h1")
    show ?thesis
    proof (cases "ret = 0")
      case True
      with rl Some a show ?thesis by (intro exI [of _ False] exI [of _ A1] exI [of _ h2]) (simp add: update_loop.simps [of ok A s h])
    next
      case False
      have "update_loop ok A s h = update_loop ok A1 r h2"
        using rl Some a False by (simp add: update_loop.simps [of ok A s h])
      with 1(1) [OF rl(1) refl Some refl a [symmetric] refl refl False rl(2)] show ?thesis by simp
    qed
  qed
qed

text \<open>A header the decoder does not run past: of another scheme, or with a token.\<close>

definition legible :: "cstring \<Rightarrow> bool" where
  "legible header \<longleftrightarrow> auth_skip_basic header \<noteq> None"

definition textual :: "files \<Rightarrow> bool" where
  "textual F \<longleftrightarrow> (\<forall>f s. fopen F f = Some s \<longrightarrow> CHR 0x00 \<notin> set s)"

lemma update_total:
  assumes "textual F"
  shows "\<exists>r A' h'. auth_plaintext_update F A h = Some (r, A', h')"
proof (cases "case source A of None \<Rightarrow> None | Some f \<Rightarrow> map_option (\<lambda>t. (f, t)) (stat_mtime F f)")
  case None
  then show ?thesis unfolding auth_plaintext_update_def None by simp
next
  case (Some ft)
  obtain f t where ft: "ft = (f, t)" by force
  show ?thesis
  proof (cases "fopen F f")
    case None
    then show ?thesis unfolding auth_plaintext_update_def Some ft by simp
  next
    case c: (Some content)
    with assms have "CHR 0x00 \<notin> set content" by (simp add: textual_def)
    from update_loop_total [OF this, of "seekable F f" A h] c show ?thesis
      unfolding auth_plaintext_update_def Some ft by auto
  qed
qed

lemma decode_total: "legible header \<Longrightarrow> \<exists>r h'. auth_plaintext_decode O1 header h = Some (r, h')"
  by (auto simp: auth_plaintext_decode_def legible_def alloc_block_def split: option.splits bool.splits prod.splits)

lemma auth_verify_total:
  assumes "textual F" and "legible header"
  shows "\<exists>r A' h'. auth_verify F O1 A header h = Some (r, A', h')"
proof -
  obtain r D h1 where u: "auth_plaintext_update F (au_methoddata A) h = Some (r, D, h1)"
    using update_total [OF assms(1)] by blast
  obtain c h2 where "auth_plaintext_decode O1 header h1 = Some (c, h2)" using decode_total [OF assms(2)] by blast
  with u show ?thesis
    by (cases "au_method A") (auto simp: auth_verify_def auth_plaintext_verify_def split: option.split)
qed

section \<open>Properties\<close>

text \<open>
  C34: \<open>auth_read_line\<close>, which reads a line in pieces of at most 127 characters into a growing string,
  returns the whole line and leaves the file at the next one; but it strips the white space at the end
  of every piece, not only at the end of the line.  For a line of at most 126 characters that is the
  line without the white space at its end.
\<close>

theorem auth_read_line_pieces:
  assumes "granted h" and "text_line line"
  shows "\<exists>h'. auth_read_line True (line @ newline # rest) h =
      Some (Some (concat (map strip_end (chunks 127 (line @ [newline])))), rest, h') \<and>
    (length line \<le> 126 \<longrightarrow> concat (map strip_end (chunks 127 (line @ [newline]))) = strip_end line)"
  using read_line_line [OF assms, of rest] stripped_short [of line] by (auto simp: stripped_def)

definition plenty :: mem where
  "plenty = \<lparr>next_addr = 1, alloc_ok = (\<lambda>k. True), alloc_count = 0\<rparr>"

lemma plenty_granted: "granted plenty"
  by (simp add: granted_def plenty_def)

theorem auth_read_line_pieces_witness:
  "\<exists>h'. auth_read_line True (''ab  '' @ newline # ''next'') plenty =
      Some (Some (concat (map strip_end (chunks 127 (''ab  '' @ [newline])))), ''next'', h') \<and>
    (length ''ab  '' \<le> 126 \<longrightarrow> concat (map strip_end (chunks 127 (''ab  '' @ [newline]))) = strip_end ''ab  '')"
  by (rule auth_read_line_pieces [OF plenty_granted]) (simp add: text_line_def newline_def)


text \<open>An OpenSSL whose base64 maps one token to a pair of credentials.\<close>

definition sample_ssl :: openssl where
  "sample_ssl = \<lparr>bio_read = (\<lambda>s n. if s = ''YTpi'' then Some ''a:b'' else None),
     crypto_memcmp = (\<lambda>a b n. if take n a = take n b then 0 else 1)\<rparr>"

definition sample_files :: files where
  "sample_files = \<lparr>stat_mtime = (\<lambda>f. Some 5), fopen = (\<lambda>f. Some (password_file [(''A'', ''b''), (''c'', ''d'')])),
     seekable = (\<lambda>f. True)\<rparr>"

definition sample_auth :: auth_plaintext where
  "sample_auth = \<lparr>source = Some ''passwd'', source_last_read = 3, passwords = map entry_for [(''x'', ''y'')]\<rparr>"


text \<open>
  C35: a password is never revoked.  Whatever the file holds by then, and whether reading it succeeds or
  fails half way, credentials the loaded entries accept before \<open>auth_plaintext_update_\<close> are accepted after it.
\<close>

theorem auth_update_never_revokes:
  assumes up: "auth_plaintext_update F A h = Some (r, A', h')"
    and ok: "verify_loop O1 (passwords A) user pass = 1"
  shows "verify_loop O1 (passwords A') user pass = 1"
proof -
  from update_extends [OF up] obtain es where "passwords A' = es @ passwords A" by blast
  with ok show ?thesis by (auto simp: verify_loop_iff split: if_splits)
qed

theorem auth_update_never_revokes_witness:
  "\<exists>r A' h'. auth_plaintext_update sample_files sample_auth plenty = Some (r, A', h') \<and>
    verify_loop sample_ssl (passwords A') ''X'' ''y'' = 1"
proof -
  obtain h1 where "update_loop True sample_auth (password_file [(''A'', ''b''), (''c'', ''d'')]) plenty =
      Some (True, sample_auth\<lparr>passwords := rev (map entry_for [(''A'', ''b''), (''c'', ''d'')]) @ passwords sample_auth\<rparr>, h1)"
    using update_loop_file [OF plenty_granted, of "[(''A'', ''b''), (''c'', ''d'')]" sample_auth]
    by (auto simp: storable_def text_line_def newline_def isgraph_def)
  then obtain r A' h' where up: "auth_plaintext_update sample_files sample_auth plenty = Some (r, A', h')"
    by (auto simp: auth_plaintext_update_def sample_files_def sample_auth_def)
  have "verify_loop sample_ssl (passwords sample_auth) ''X'' ''y'' = 1"
    by code_simp
  from auth_update_never_revokes [OF up this] up show ?thesis by blast
qed

text \<open>
  A Basic header without a token is not refused: once the password list is loaded, \<open>auth_verify\<close> of
  a header with \<open>Basic\<close>, a space and nothing but blanks reads on past the end of the header.
\<close>

theorem auth_blank_token_undefined:
  assumes "strncasecmp header ''Basic '' 6 = 0" and "list_all (\<lambda>c. \<not> isgraph c) (drop 6 header)"
    and "auth_plaintext_update F A h = Some (1, A', h')"
  shows "auth_plaintext_verify F O1 A header h = None"
  using assms by (simp add: auth_plaintext_verify_def auth_plaintext_decode_def auth_skip_basic_def list_all_iff)

theorem auth_blank_token_undefined_witness:
  "auth_plaintext_verify (sample_files\<lparr>stat_mtime := \<lambda>f. Some 3\<rparr>) sample_ssl sample_auth ''basic   '' plenty = None"
proof (rule auth_blank_token_undefined)
  show "auth_plaintext_update (sample_files\<lparr>stat_mtime := \<lambda>f. Some 3\<rparr>) sample_auth plenty = Some (1, sample_auth, plenty)"
    by (simp add: auth_plaintext_update_def sample_auth_def)
qed (code_simp)+

end
