(* ===== verification/Protocol.thy ===== *)
theory Protocol
  imports Manager_Spec
begin

text \<open>
  Building the JSON messages of the protocol: \<open>src/protocol.c\<close>.

  json-c is not part of the repository.  It is the record \<open>json_c\<close> of the functions the code
  calls, over a state \<open>'j\<close> of its own: any of them may fail, and a result \<open>None\<close> of the outer
  option is undefined behaviour.  \<open>json_contract\<close> states what json-c documents about ownership:
  a function that makes an object gives the caller a reference, a container takes over the
  reference to a member it accepts, \<open>json_object_put\<close> gives one back.  \<open>owned j\<close> is the set of
  objects the program holds a reference to.
\<close>

record 'j json_c =
  json_object_new_object :: "'j \<Rightarrow> addr option \<times> 'j"
  json_object_new_array :: "'j \<Rightarrow> addr option \<times> 'j"
  json_object_new_string :: "cstring \<Rightarrow> 'j \<Rightarrow> addr option \<times> 'j"
  json_object_new_boolean :: "int \<Rightarrow> 'j \<Rightarrow> addr option \<times> 'j"
  json_object_object_add_ex :: "addr \<Rightarrow> cstring \<Rightarrow> addr option \<Rightarrow> 'j \<Rightarrow> (int \<times> 'j) option"
  json_object_array_add :: "addr \<Rightarrow> addr \<Rightarrow> 'j \<Rightarrow> (int \<times> 'j) option"
  json_object_put :: "addr \<Rightarrow> 'j \<Rightarrow> 'j option"
  json_object_to_json_string :: "addr option \<Rightarrow> 'j \<Rightarrow> (cstring option \<times> 'j) option"
  json_tokener_parse :: "cstring \<Rightarrow> 'j \<Rightarrow> addr option \<times> 'j"
  json_object_object_get_ex :: "addr \<Rightarrow> cstring \<Rightarrow> 'j \<Rightarrow> (bool \<times> addr option) option"
  json_object_get_string :: "addr option \<Rightarrow> 'j \<Rightarrow> cstring option option"

text \<open>\<open>json_object_put\<close> of NULL does nothing.\<close>

fun json_put :: "'j json_c \<Rightarrow> addr option \<Rightarrow> 'j \<Rightarrow> 'j option" where
  "json_put J None j = Some j"
| "json_put J (Some a) j = json_object_put J a j"

section \<open>Messages\<close>

text \<open>
  The label \<open>cleanup\<close> of \<open>protocol_create_base\<close>; its first test is of \<open>msg\<close>, what it releases
  there is \<open>payload\<close>.
\<close>

definition base_cleanup ::
  "'j json_c \<Rightarrow> addr option \<Rightarrow> addr option \<Rightarrow> addr option \<Rightarrow> addr option \<Rightarrow> 'j \<Rightarrow> (addr option \<times> 'j) option" where
  "base_cleanup J msg payload status container j = do {
     j \<leftarrow> (if msg \<noteq> None then json_put J payload j else Some j);
     j \<leftarrow> json_put J payload j;
     j \<leftarrow> json_put J status j;
     j \<leftarrow> json_put J container j;
     Some (None, j) }"

text \<open>\<open>protocol_create_base\<close> from the status on.\<close>

definition base_build ::
  "'j json_c \<Rightarrow> int \<Rightarrow> addr option \<Rightarrow> addr option \<Rightarrow> 'j \<Rightarrow> (addr option \<times> 'j) option" where
  "base_build J success msg payload j =
     (case json_object_new_boolean J success j of
        (None, j) \<Rightarrow> base_cleanup J msg payload None None j
      | (Some status, j) \<Rightarrow>
         (case json_object_new_object J j of
            (None, j) \<Rightarrow> base_cleanup J msg payload (Some status) None j
          | (Some container, j) \<Rightarrow> do {
              (r, j) \<leftarrow> json_object_object_add_ex J container ''message'' msg j;
              if r \<noteq> 0 then base_cleanup J msg payload (Some status) (Some container) j
              else do {
                (r, j) \<leftarrow> json_object_object_add_ex J container ''success'' (Some status) j;
                if r \<noteq> 0 then base_cleanup J None payload (Some status) (Some container) j
                else if payload = None then Some (Some container, j)
                else do {
                  (r, j) \<leftarrow> json_object_object_add_ex J container ''payload'' payload j;
                  if r \<noteq> 0 then base_cleanup J None payload None (Some container) j
                  else Some (Some container, j) } } }))"

definition protocol_create_base ::
  "'j json_c \<Rightarrow> int \<Rightarrow> cstring option \<Rightarrow> addr option \<Rightarrow> 'j \<Rightarrow> (addr option \<times> 'j) option" where
  "protocol_create_base J success message payload j =
     (case message of
        None \<Rightarrow> base_build J success None payload j
      | Some m \<Rightarrow>
         (case json_object_new_string J m j of
            (None, j) \<Rightarrow> base_cleanup J None payload None None j
          | (Some msg, j) \<Rightarrow> base_build J success (Some msg) payload j))"

definition protocol_create_success :: "'j json_c \<Rightarrow> addr option \<Rightarrow> 'j \<Rightarrow> (addr option \<times> 'j) option" where
  "protocol_create_success J payload j = protocol_create_base J 1 None payload j"

definition protocol_create_failure :: "'j json_c \<Rightarrow> cstring \<Rightarrow> 'j \<Rightarrow> (addr option \<times> 'j) option" where
  "protocol_create_failure J error_message j = protocol_create_base J 0 (Some error_message) None j"

definition protocol_failure_fallback :: cstring where
  "protocol_failure_fallback =
     ''{\"success\": false, \"message\": \"cannot describe error\"}''"

definition protocol_failure_message :: cstring where
  "protocol_failure_message = ''cannot describe error''"

section \<open>Items\<close>

definition item_error ::
  "'j json_c \<Rightarrow> addr option \<Rightarrow> addr option \<Rightarrow> addr option \<Rightarrow> 'j \<Rightarrow> (addr option \<times> 'j) option" where
  "item_error J base val key j = do {
     j \<leftarrow> json_put J base j;
     j \<leftarrow> json_put J val j;
     j \<leftarrow> json_put J key j;
     Some (None, j) }"

definition protocol_encode_item ::
  "'j json_c \<Rightarrow> addr \<Rightarrow> 'z queue_mem_scheme \<Rightarrow> 'j \<Rightarrow> (addr option \<times> 'j) option" where
  "protocol_encode_item J item h j =
     (case json_object_new_object J j of
        (None, j) \<Rightarrow> item_error J None None None j
      | (Some base, j) \<Rightarrow> do {
          item_key \<leftarrow> queue_item_get_key item h;
          let (key, j) = (case item_key of None \<Rightarrow> (None, j) | Some k \<Rightarrow> json_object_new_string J k j);
          if item_key \<noteq> None \<and> key = None then item_error J (Some base) None None j
          else do {
            (r, j) \<leftarrow> json_object_object_add_ex J base ''key'' key j;
            if r \<noteq> 0 then item_error J (Some base) None key j
            else do {
              item_value \<leftarrow> queue_item_get_value item h;
              v \<leftarrow> item_value;
              (case json_object_new_string J v j of
                 (None, j) \<Rightarrow> item_error J (Some base) None None j
               | (Some val, j) \<Rightarrow> do {
                   (r, j) \<leftarrow> json_object_object_add_ex J base ''value'' (Some val) j;
                   if r \<noteq> 0 then item_error J (Some base) (Some val) None j
                   else Some (Some base, j) }) } } })"

section \<open>Ownership\<close>

definition gives :: "('j \<Rightarrow> addr set) \<Rightarrow> 'j \<Rightarrow> addr option \<times> 'j \<Rightarrow> bool" where
  "gives owned j res \<longleftrightarrow> (case res of
     (None, j') \<Rightarrow> owned j' = owned j
   | (Some a, j') \<Rightarrow> a \<notin> owned j \<and> owned j' = insert a (owned j))"

definition json_makes :: "'j json_c \<Rightarrow> ('j \<Rightarrow> addr set) \<Rightarrow> bool" where
  "json_makes J owned \<longleftrightarrow> (\<forall>s b j. gives owned j (json_object_new_object J j) \<and>
     gives owned j (json_object_new_array J j) \<and> gives owned j (json_object_new_string J s j) \<and>
     gives owned j (json_object_new_boolean J b j) \<and> gives owned j (json_tokener_parse J s j))"

definition json_adds :: "'j json_c \<Rightarrow> ('j \<Rightarrow> addr set) \<Rightarrow> bool" where
  "json_adds J owned \<longleftrightarrow> (\<forall>c k m j. c \<in> owned j \<and> set_option m \<subseteq> owned j - {c} \<longrightarrow>
     (\<exists>r j'. json_object_object_add_ex J c k m j = Some (r, j') \<and>
        owned j' = (if r = 0 then owned j - set_option m else owned j)))"

definition json_appends :: "'j json_c \<Rightarrow> ('j \<Rightarrow> addr set) \<Rightarrow> bool" where
  "json_appends J owned \<longleftrightarrow> (\<forall>c m j. c \<in> owned j \<and> m \<in> owned j - {c} \<longrightarrow>
     (\<exists>r j'. json_object_array_add J c m j = Some (r, j') \<and>
        owned j' = (if r = 0 then owned j - {m} else owned j)))"

definition json_puts :: "'j json_c \<Rightarrow> ('j \<Rightarrow> addr set) \<Rightarrow> bool" where
  "json_puts J owned \<longleftrightarrow> (\<forall>a j. a \<in> owned j \<longrightarrow>
     (\<exists>j'. json_object_put J a j = Some j' \<and> owned j' = owned j - {a}))"

definition json_prints :: "'j json_c \<Rightarrow> ('j \<Rightarrow> addr set) \<Rightarrow> bool" where
  "json_prints J owned \<longleftrightarrow> (\<forall>a j. set_option a \<subseteq> owned j \<longrightarrow>
     (\<exists>s j'. json_object_to_json_string J a j = Some (s, j') \<and> owned j' = owned j))"

definition json_reads :: "'j json_c \<Rightarrow> ('j \<Rightarrow> addr set) \<Rightarrow> bool" where
  "json_reads J owned \<longleftrightarrow> (\<forall>c k j. c \<in> owned j \<longrightarrow>
     (\<exists>found a. json_object_object_get_ex J c k j = Some (found, a) \<and>
        (found \<longrightarrow> json_object_get_string J a j \<noteq> None)))"

definition json_contract :: "'j json_c \<Rightarrow> ('j \<Rightarrow> addr set) \<Rightarrow> bool" where
  "json_contract J owned \<longleftrightarrow> json_makes J owned \<and> json_adds J owned \<and> json_appends J owned \<and>
     json_puts J owned \<and> json_prints J owned \<and> json_reads J owned"

text \<open>Giving back a reference one does not hold is a use of freed memory.\<close>

definition json_strict :: "'j json_c \<Rightarrow> ('j \<Rightarrow> addr set) \<Rightarrow> bool" where
  "json_strict J owned \<longleftrightarrow> (\<forall>a j. a \<notin> owned j \<longrightarrow> json_object_put J a j = None)"

lemma gives_cases:
  assumes "gives owned j res"
  obtains (none) j' where "res = (None, j')" "owned j' = owned j"
    | (some) a j' where "res = (Some a, j')" "a \<notin> owned j" "owned j' = insert a (owned j)"
  using assms by (cases res) (auto simp: gives_def split: option.splits)

lemma json_gives:
  assumes "json_contract J owned"
  shows "gives owned j (json_object_new_object J j)" "gives owned j (json_object_new_array J j)"
    "gives owned j (json_object_new_string J s j)" "gives owned j (json_object_new_boolean J b j)"
    "gives owned j (json_tokener_parse J s j)"
  using assms by (simp_all add: json_contract_def json_makes_def)

lemma json_add:
  assumes "json_contract J owned" and "c \<in> owned j" and "set_option m \<subseteq> owned j - {c}"
  obtains r j' where "json_object_object_add_ex J c k m j = Some (r, j')"
    "owned j' = (if r = 0 then owned j - set_option m else owned j)"
proof -
  from assms(1) have "json_adds J owned" by (simp add: json_contract_def)
  with assms(2,3) that show thesis unfolding json_adds_def by blast
qed

lemma json_array:
  assumes "json_contract J owned" and "c \<in> owned j" and "m \<in> owned j - {c}"
  obtains r j' where "json_object_array_add J c m j = Some (r, j')"
    "owned j' = (if r = 0 then owned j - {m} else owned j)"
proof -
  from assms(1) have "json_appends J owned" by (simp add: json_contract_def)
  with assms(2,3) that show thesis unfolding json_appends_def by blast
qed

lemma json_release:
  assumes "json_contract J owned" and "set_option a \<subseteq> owned j"
  obtains j' where "json_put J a j = Some j'" "owned j' = owned j - set_option a"
proof (cases a)
  case None
  then show thesis using that by simp
next
  case (Some x)
  with assms have "\<exists>j'. json_object_put J x j = Some j' \<and> owned j' = owned j - {x}"
    by (simp add: json_contract_def json_puts_def)
  with Some that show thesis by auto
qed

lemma json_print:
  assumes "json_contract J owned" and "set_option a \<subseteq> owned j"
  obtains s j' where "json_object_to_json_string J a j = Some (s, j')" "owned j' = owned j"
proof -
  from assms(1) have "json_prints J owned" by (simp add: json_contract_def)
  with assms(2) that show thesis unfolding json_prints_def by blast
qed

lemma base_cleanup_owned:
  assumes J: "json_contract J owned" and m: "msg = None \<or> payload = None"
    and p: "set_option payload \<subseteq> owned j" and st: "set_option status \<subseteq> owned j - set_option payload"
    and c: "set_option container \<subseteq> owned j - set_option payload - set_option status"
  obtains j' where "base_cleanup J msg payload status container j = Some (None, j')"
    "owned j' = owned j - set_option payload - set_option status - set_option container"
proof -
  obtain j1 where j1: "json_put J payload j = Some j1" "owned j1 = owned j - set_option payload"
    by (rule json_release [OF J p])
  obtain j2 where j2: "json_put J status j1 = Some j2" "owned j2 = owned j1 - set_option status"
    by (rule json_release [OF J, of status j1]) (use st j1 in auto)
  obtain j3 where j3: "json_put J container j2 = Some j3" "owned j3 = owned j2 - set_option container"
    by (rule json_release [OF J, of container j2]) (use c j1 j2 in auto)
  from m have "(if msg \<noteq> None then json_put J payload j else Some j) = Some j" by auto
  with j1 j2 j3 that show thesis by (simp add: base_cleanup_def)
qed

text \<open>
  What is owned after a message was built, or not: the message takes over its members; a failure
  releases the payload, but may leave the error text behind.
\<close>

lemma base_build_owned:
  assumes J: "json_contract J owned" and m: "msg = None \<or> payload = None"
    and p: "set_option payload \<subseteq> owned j" and ms: "set_option msg \<subseteq> owned j"
  shows "\<exists>r j'. base_build J success msg payload j = Some (r, j') \<and>
    (case r of
       Some c \<Rightarrow> c \<notin> owned j \<and> owned j' = insert c (owned j - set_option payload - set_option msg)
     | None \<Rightarrow> owned j' = owned j - set_option payload \<or> owned j' = owned j - set_option payload - set_option msg)"
  using json_gives(4) [OF J, of j success]
proof (cases rule: gives_cases)
  case (none j1)
  obtain j2 where "base_cleanup J msg payload None None j1 = Some (None, j2)" "owned j2 = owned j1 - set_option payload"
    by (rule base_cleanup_owned [OF J m, of j1 None None]) (use none p in auto)
  with none show ?thesis by (auto simp: base_build_def)
next
  case (some status j1)
  note st = some
  show ?thesis
    using json_gives(1) [OF J, of j1]
  proof (cases rule: gives_cases)
    case (none j2)
    obtain j3 where "base_cleanup J msg payload (Some status) None j2 = Some (None, j3)"
      "owned j3 = owned j2 - set_option payload - {status}"
      by (rule base_cleanup_owned [OF J m, of j2 "Some status" None]) (use none st p in auto)
    with none st p show ?thesis by (auto simp: base_build_def)
  next
    case (some container j2)
    note ct = some
    obtain r1 j3 where a1: "json_object_object_add_ex J container ''message'' msg j2 = Some (r1, j3)"
      "owned j3 = (if r1 = 0 then owned j2 - set_option msg else owned j2)"
      by (rule json_add [OF J, of container j2 msg "''message''"]) (use ct st ms in auto)
    show ?thesis
    proof (cases "r1 = 0")
      case False
      obtain j4 where "base_cleanup J msg payload (Some status) (Some container) j3 = Some (None, j4)"
        "owned j4 = owned j3 - set_option payload - {status} - {container}"
        by (rule base_cleanup_owned [OF J m, of j3 "Some status" "Some container"]) (use a1 ct st p False in auto)
      with False a1 ct st show ?thesis by (auto simp: base_build_def)
    next
      case True
      have pm: "set_option payload \<inter> set_option msg = {}" using m by auto
      obtain r2 j4 where a2: "json_object_object_add_ex J container ''success'' (Some status) j3 = Some (r2, j4)"
        "owned j4 = (if r2 = 0 then owned j3 - {status} else owned j3)"
        by (rule json_add [OF J, of container j3 "Some status" "''success''"]) (use ct st ms a1 True in auto)
      show ?thesis
      proof (cases "r2 = 0")
        case False
        obtain j5 where "base_cleanup J None payload (Some status) (Some container) j4 = Some (None, j5)"
          "owned j5 = owned j4 - set_option payload - {status} - {container}"
          by (rule base_cleanup_owned [OF J, of None payload j4 "Some status" "Some container"])
             (use a1 a2 ct st p ms pm True False in auto)
        with False True a1 a2 ct st ms show ?thesis by (auto simp: base_build_def)
      next
        case r2: True
        have o4: "owned j4 = insert container (owned j - set_option msg)" "container \<notin> owned j"
          using r2 True a1 a2 ct st ms by auto
        show ?thesis
        proof (cases payload)
          case None
          with o4 r2 True a1 a2 ct st show ?thesis by (auto simp: base_build_def)
        next
          case (Some pl)
          obtain r3 j5 where a3: "json_object_object_add_ex J container ''payload'' payload j4 = Some (r3, j5)"
            "owned j5 = (if r3 = 0 then owned j4 - {pl} else owned j4)"
            by (rule json_add [OF J, of container j4 payload "''payload''"]) (use o4 p pm Some in auto)
          show ?thesis
          proof (cases "r3 = 0")
            case True
            with a3 o4 Some r2 a1 a2 ct st \<open>r1 = 0\<close> p show ?thesis by (auto simp: base_build_def)
          next
            case False
            obtain j6 where "base_cleanup J None payload None (Some container) j5 = Some (None, j6)"
              "owned j6 = owned j5 - set_option payload - {container}"
              by (rule base_cleanup_owned [OF J, of None payload j5 None "Some container"])
                 (use a3 o4 p pm False Some in auto)
            with False a3 o4 Some r2 a1 a2 ct st \<open>r1 = 0\<close> show ?thesis by (auto simp: base_build_def)
          qed
        qed
      qed
    qed
  qed
qed

lemma create_base_owned:
  assumes J: "json_contract J owned" and m: "message = None \<or> payload = None"
    and p: "set_option payload \<subseteq> owned j"
  shows "\<exists>r j'. protocol_create_base J success message payload j = Some (r, j') \<and>
    (case r of
       Some c \<Rightarrow> c \<notin> owned j \<and> owned j' = insert c (owned j - set_option payload)
     | None \<Rightarrow> \<exists>leak. owned j' = (owned j - set_option payload) \<union> leak \<and> leak \<inter> owned j = {} \<and>
         (message = None \<longrightarrow> leak = {}))"
proof (cases message)
  case None
  from base_build_owned [OF J _ p, of None success] obtain r j' where
    "base_build J success None payload j = Some (r, j')"
    "case r of Some c \<Rightarrow> c \<notin> owned j \<and> owned j' = insert c (owned j - set_option payload)
     | None \<Rightarrow> owned j' = owned j - set_option payload" by (auto cong: option.case_cong)
  with None show ?thesis by (cases r) (auto simp: protocol_create_base_def)
next
  case (Some t)
  then have pn: "payload = None" using m by simp
  show ?thesis
    using json_gives(3) [OF J, of j t]
  proof (cases rule: gives_cases)
    case (none j1)
    with pn Some show ?thesis by (auto simp: protocol_create_base_def base_cleanup_def)
  next
    case (some a j1)
    from base_build_owned [OF J, of "Some a" None j1 success] some obtain r j' where
      r: "base_build J success (Some a) None j1 = Some (r, j')"
      "case r of Some c \<Rightarrow> c \<notin> owned j1 \<and> owned j' = insert c (owned j1 - {a})
       | None \<Rightarrow> owned j' = owned j1 \<or> owned j' = owned j1 - {a}"
      by (auto cong: option.case_cong)
    have "protocol_create_base J success message payload j = Some (r, j')"
      using Some some r pn by (simp add: protocol_create_base_def)
    moreover have "case r of
       Some c \<Rightarrow> c \<notin> owned j \<and> owned j' = insert c (owned j - set_option payload)
     | None \<Rightarrow> \<exists>leak. owned j' = (owned j - set_option payload) \<union> leak \<and> leak \<inter> owned j = {} \<and>
         (message = None \<longrightarrow> leak = {})"
    proof (cases r)
      case None
      with r(2) some have "owned j' = owned j \<union> {a} \<or> owned j' = owned j \<union> {}" by auto
      then obtain leak where "owned j' = owned j \<union> leak" "leak \<inter> owned j = {}"
        using some by (elim disjE) blast+
      with None pn Some show ?thesis by simp blast
    next
      case (Some c)
      with r(2) some pn show ?thesis by auto
    qed
    ultimately show ?thesis by blast
  qed
qed

lemma item_error_owned:
  assumes J: "json_contract J owned" and b: "set_option base \<subseteq> owned j"
    and v: "set_option val \<subseteq> owned j - set_option base"
    and k: "set_option key \<subseteq> owned j - set_option base - set_option val"
  obtains j' where "item_error J base val key j = Some (None, j')"
    "owned j' = owned j - set_option base - set_option val - set_option key"
proof -
  obtain j1 where j1: "json_put J base j = Some j1" "owned j1 = owned j - set_option base"
    by (rule json_release [OF J b])
  obtain j2 where j2: "json_put J val j1 = Some j2" "owned j2 = owned j1 - set_option val"
    by (rule json_release [OF J, of val j1]) (use v j1 in auto)
  obtain j3 where j3: "json_put J key j2 = Some j3" "owned j3 = owned j2 - set_option key"
    by (rule json_release [OF J, of key j2]) (use k j1 j2 in auto)
  from j1 j2 j3 that show thesis by (simp add: item_error_def)
qed

text \<open>Encoding an item, from its two members on.\<close>

definition owned_result :: "('j \<Rightarrow> addr set) \<Rightarrow> 'j \<Rightarrow> (addr option \<times> 'j) option \<Rightarrow> bool" where
  "owned_result owned j res \<longleftrightarrow> (\<exists>r j'. res = Some (r, j') \<and> gives owned j (r, j'))"

lemma encode_item_owned:
  assumes J: "json_contract J owned" and i: "item_at h a = Some i" "i_value i = Some v"
  shows "owned_result owned j (protocol_encode_item J a h j)"
  using json_gives(1) [OF J, of j]
proof (cases rule: gives_cases)
  case (none j1)
  then show ?thesis
    by (simp add: owned_result_def protocol_encode_item_def item_error_def gives_def)
next
  case (some base j1)
  note b = some
  let ?rest = "\<lambda>key j2. do {
      (r, j) \<leftarrow> json_object_object_add_ex J base ''key'' key j2;
      if r \<noteq> 0 then item_error J (Some base) None key j
      else (case json_object_new_string J v j of
         (None, j) \<Rightarrow> item_error J (Some base) None None j
       | (Some val, j) \<Rightarrow> do {
           (r, j) \<leftarrow> json_object_object_add_ex J base ''value'' (Some val) j;
           if r \<noteq> 0 then item_error J (Some base) (Some val) None j
           else Some (Some base, j) }) }"
  have rest: "owned_result owned j (?rest key j2)"
    if j2: "owned j2 = insert base (owned j) \<union> set_option key" and k: "set_option key \<inter> insert base (owned j) = {}"
    for key j2
  proof -
    obtain r j3 where a1: "json_object_object_add_ex J base ''key'' key j2 = Some (r, j3)"
      "owned j3 = (if r = 0 then owned j2 - set_option key else owned j2)"
      by (rule json_add [OF J, of base j2 key "''key''"]) (use j2 k in auto)
    show ?thesis
    proof (cases "r = 0")
      case False
      obtain j4 where "item_error J (Some base) None key j3 = Some (None, j4)"
        "owned j4 = owned j3 - {base} - set_option key"
        by (rule item_error_owned [OF J, of "Some base" j3 None key]) (use a1 j2 k False in auto)
      with False a1 j2 k b show ?thesis by (auto simp: owned_result_def gives_def)
    next
      case True
      then have o3: "owned j3 = insert base (owned j)" using a1 j2 k by auto
      show ?thesis
        using json_gives(3) [OF J, of j3 v]
      proof (cases rule: gives_cases)
        case (none j4)
        obtain j5 where "item_error J (Some base) None None j4 = Some (None, j5)" "owned j5 = owned j4 - {base}"
          by (rule item_error_owned [OF J, of "Some base" j4 None None]) (use none o3 in auto)
        with none True a1 o3 b show ?thesis by (auto simp: owned_result_def gives_def)
      next
        case (some val j4)
        obtain r2 j5 where a2: "json_object_object_add_ex J base ''value'' (Some val) j4 = Some (r2, j5)"
          "owned j5 = (if r2 = 0 then owned j4 - {val} else owned j4)"
          by (rule json_add [OF J, of base j4 "Some val" "''value''"]) (use some o3 in auto)
        show ?thesis
        proof (cases "r2 = 0")
          case True
          with \<open>r = 0\<close> some a1 a2 o3 b show ?thesis by (auto simp: owned_result_def gives_def)
        next
          case False
          obtain j6 where "item_error J (Some base) (Some val) None j5 = Some (None, j6)"
            "owned j6 = owned j5 - {base} - {val}"
            by (rule item_error_owned [OF J, of "Some base" j5 "Some val" None]) (use a2 some o3 False in auto)
          with False \<open>r = 0\<close> some a1 a2 o3 b show ?thesis by (auto simp: owned_result_def gives_def)
        qed
      qed
    qed
  qed
  have kv: "queue_item_get_key a h = Some (i_key i)" "queue_item_get_value a h = Some (Some v)"
    using i by (simp_all add: queue_item_get_key_def queue_item_get_value_def)
  show ?thesis
  proof (cases "i_key i")
    case None
    then have "protocol_encode_item J a h j = ?rest None j1"
      using b kv None by (simp add: protocol_encode_item_def cong: if_cong)
    with rest [of j1 None] b show ?thesis by simp
  next
    case (Some k)
    show ?thesis
      using json_gives(3) [OF J, of j1 k]
    proof (cases rule: gives_cases)
      case (none j2)
      obtain j3 where "item_error J (Some base) None None j2 = Some (None, j3)" "owned j3 = owned j2 - {base}"
        by (rule item_error_owned [OF J, of "Some base" j2 None None]) (use none b in auto)
      with none b kv Some show ?thesis
        by (auto simp: protocol_encode_item_def owned_result_def gives_def)
    next
      case (some key j2)
      have "protocol_encode_item J a h j = ?rest (Some key) j2"
        using b kv Some some by (simp add: protocol_encode_item_def cong: if_cong)
      with rest [of j2 "Some key"] b some show ?thesis by auto
    qed
  qed
qed

section \<open>A json-c for the witnesses\<close>

text \<open>
  Its state is the list of the objects the program owns; strings print as themselves.
\<close>

definition fresh_object :: "addr list \<Rightarrow> addr" where
  "fresh_object j = Suc (foldr max j 0)"

definition list_json :: "addr list json_c" where
  "list_json = \<lparr>
     json_object_new_object = (\<lambda>j. (Some (fresh_object j), fresh_object j # j)),
     json_object_new_array = (\<lambda>j. (Some (fresh_object j), fresh_object j # j)),
     json_object_new_string = (\<lambda>s j. (Some (fresh_object j), fresh_object j # j)),
     json_object_new_boolean = (\<lambda>b j. (Some (fresh_object j), fresh_object j # j)),
     json_object_object_add_ex = (\<lambda>c k m j. Some (0, case m of None \<Rightarrow> j | Some a \<Rightarrow> removeAll a j)),
     json_object_array_add = (\<lambda>c m j. Some (0, removeAll m j)),
     json_object_put = (\<lambda>a j. if a \<in> set j then Some (removeAll a j) else None),
     json_object_to_json_string = (\<lambda>a j. Some (Some ''{}'', j)),
     json_tokener_parse = (\<lambda>s j. (Some (fresh_object j), fresh_object j # j)),
     json_object_object_get_ex = (\<lambda>c k j. Some (True, None)),
     json_object_get_string = (\<lambda>a j. Some (Some ''i''))\<rparr>"

lemma foldr_max: "a \<in> set j \<Longrightarrow> a \<le> foldr max j (0 :: nat)"
  by (induction j) auto

lemma fresh_object_notin: "fresh_object j \<notin> set j"
  using foldr_max [of "fresh_object j" j] by (auto simp: fresh_object_def)

lemma list_json_contract: "json_contract list_json set"
  by (auto simp: json_contract_def json_makes_def json_adds_def json_appends_def json_puts_def json_prints_def
      json_reads_def gives_def list_json_def fresh_object_notin split: option.splits)

lemma list_json_strict: "json_strict list_json set"
  by (simp add: json_strict_def list_json_def)

section \<open>Properties\<close>



end
