(* ===== verification/Connection_Http.thy ===== *)
theory Connection_Http
  imports Protocol Auth_Plaintext
begin

text \<open>
  The HTTP handlers of \<open>src/connection-http.c\<close>, whole: reading the parameters of a request, finding
  the queue it names, working on it, and answering.  The memory of the manager is extended by the
  state of json-c and by the authentications of the configuration.

  libevent is not part of the repository: the functions the handlers call on headers and buffers are
  the record \<open>libevent\<close>.  A request is a value; \<open>evhttp_send_reply\<close> appends to its list of replies.
  The handlers' local \<open>struct evkeyvalq params\<close> is passed along and returned as the handler leaves it.
\<close>

section \<open>Requests\<close>

datatype http_command = EVHTTP_REQ_GET | EVHTTP_REQ_POST | EVHTTP_REQ_DELETE | EVHTTP_REQ_OTHER

type_synonym headers = "(cstring \<times> cstring) list"

record http_reply =
  reply_code :: int
  reply_headers :: headers
  reply_body :: cstring

record http_request =
  http_command :: http_command
  input_headers :: headers
  input_buffer :: "char list"
  output_headers :: headers
  output_buffer :: "char list"
  replies :: "http_reply list"

record libevent =
  evhttp_find_header :: "headers \<Rightarrow> cstring \<Rightarrow> cstring option"
  evhttp_add_header :: "headers \<Rightarrow> cstring \<Rightarrow> cstring \<Rightarrow> headers"
  evhttp_parse_query_str :: "cstring \<Rightarrow> headers \<Rightarrow> int \<times> headers"
  evbuffer_copyout :: "char list \<Rightarrow> nat \<Rightarrow> int \<times> char list"
  evbuffer_add :: "char list \<Rightarrow> cstring \<Rightarrow> char list"

record 'j server_mem = manager_mem +
  json_st :: 'j
  auth_at :: "addr \<Rightarrow> auth option"

text \<open>
  What the program is linked with: \<open>long_size\<close> is \<open>sizeof(unsigned long)\<close>, \<open>stack_junk\<close> what an
  uninitialised buffer holds.
\<close>

record 'j libs =
  lib_ev :: libevent
  lib_json :: "'j json_c"
  lib_files :: files
  lib_ssl :: openssl
  long_size :: nat
  stack_junk :: "byte list"

type_synonym ('j, 'z) server = "('j, 'z) server_mem_scheme"
type_synonym ('j, 'z) server_runner = "(('j, 'z) server_mem_ext manager_mem_ext) runner"
type_synonym ('j, 'z) handled = "(http_request \<times> headers option \<times> ('j, 'z) server) option"

definition HTTP_OK :: int where "HTTP_OK = 200"
definition HTTP_BADREQUEST :: int where "HTTP_BADREQUEST = 400"
definition HTTP_NOTFOUND :: int where "HTTP_NOTFOUND = 404"
definition HTTP_BADMETHOD :: int where "HTTP_BADMETHOD = 405"
definition HTTP_INTERNAL :: int where "HTTP_INTERNAL = 500"

definition evhttp_send_reply :: "int \<Rightarrow> http_request \<Rightarrow> http_request" where
  "evhttp_send_reply code rq = rq\<lparr>replies := replies rq @
     [\<lparr>reply_code = code, reply_headers = output_headers rq, reply_body = output_buffer rq\<rparr>]\<rparr>"

text \<open>A lookup in the parameters, which are a NULL pointer when \<open>None\<close>.\<close>

definition find_param :: "'j libs \<Rightarrow> headers option \<Rightarrow> cstring \<Rightarrow> cstring option option" where
  "find_param W params name = do { ps \<leftarrow> params; Some (evhttp_find_header (lib_ev W) ps name) }"

text \<open>A call of json-c inside the server's memory.\<close>

definition with_json ::
  "('j \<Rightarrow> ('a \<times> 'j) option) \<Rightarrow> ('j, 'z) server \<Rightarrow> ('a \<times> ('j, 'z) server) option" where
  "with_json f h = do { (r, j) \<leftarrow> f (json_st h); Some (r, h\<lparr>json_st := j\<rparr>) }"

definition put_json :: "'j libs \<Rightarrow> addr option \<Rightarrow> ('j, 'z) server \<Rightarrow> ('j, 'z) server option" where
  "put_json W a h = do { j \<leftarrow> json_put (lib_json W) a (json_st h); Some (h\<lparr>json_st := j\<rparr>) }"

section \<open>Answers\<close>

text \<open>\<open>evhttp_clear_headers\<close> of the parameters, when there are any.\<close>

definition clear_params :: "headers option \<Rightarrow> headers option" where
  "clear_params params = map_option (\<lambda>_. []) params"

definition connection_http_json ::
  "'j libs \<Rightarrow> http_request \<Rightarrow> headers option \<Rightarrow> int \<Rightarrow> addr option \<Rightarrow> ('j, 'z) server \<Rightarrow> ('j, 'z) handled" where
  "connection_http_json W rq params code object h = do {
     (repr, h) \<leftarrow> with_json (json_object_to_json_string (lib_json W) object) h;
     let (code, text) = (if repr = None \<or> object = None then (HTTP_INTERNAL, protocol_failure_fallback)
                         else (code, the repr));
     let rq = rq\<lparr>output_headers := evhttp_add_header (lib_ev W) (output_headers rq) ''Content-Type'' ''application/json'',
                 output_buffer := evbuffer_add (lib_ev W) (output_buffer rq) text\<rparr>;
     let rq = evhttp_send_reply code rq;
     h \<leftarrow> put_json W object h;
     Some (rq, clear_params params, h) }"

definition connection_http_error ::
  "'j libs \<Rightarrow> http_request \<Rightarrow> headers option \<Rightarrow> int \<Rightarrow> cstring \<Rightarrow> ('j, 'z) server \<Rightarrow> ('j, 'z) handled" where
  "connection_http_error W rq params code message h = do {
     let code = (if code = 0 then HTTP_INTERNAL else code);
     (object, h) \<leftarrow> with_json (protocol_create_failure (lib_json W) message) h;
     connection_http_json W rq params code object h }"

definition connection_http_payload ::
  "'j libs \<Rightarrow> http_request \<Rightarrow> headers option \<Rightarrow> addr option \<Rightarrow> ('j, 'z) server \<Rightarrow> ('j, 'z) handled" where
  "connection_http_payload W rq params payload h = do {
     (object, h) \<leftarrow> with_json (protocol_create_success (lib_json W) payload) h;
     if object = None then do {
       h \<leftarrow> put_json W payload h;
       connection_http_error W rq params 0 ''failed to encode payload'' h }
     else connection_http_json W rq params HTTP_OK object h }"

definition BASIC_HEADER :: cstring where "BASIC_HEADER = ''Basic realm=\"''"
definition BASIC_DEFAULT :: cstring where "BASIC_DEFAULT = BASIC_HEADER @ ''auth\"''"

definition connection_http_auth_required ::
  "'j libs \<Rightarrow> http_request \<Rightarrow> cstring \<Rightarrow> ('j, 'z) server \<Rightarrow> http_request \<times> ('j, 'z) server" where
  "connection_http_auth_required W rq realm h =
     (case alloc_block h of
        (False, h) \<Rightarrow> (rq\<lparr>output_headers :=
          evhttp_add_header (lib_ev W) (output_headers rq) ''WWW-Authenticate'' BASIC_DEFAULT\<rparr>, h)
      | (True, h) \<Rightarrow> (rq\<lparr>output_headers :=
          evhttp_add_header (lib_ev W) (output_headers rq) ''WWW-Authenticate'' (BASIC_HEADER @ realm @ ''\"'')\<rparr>, h))"

section \<open>Reading and validating\<close>

text \<open>The label \<open>error\<close> of \<open>connection_http_read_\<close>.\<close>

definition read_error ::
  "'j libs \<Rightarrow> http_request \<Rightarrow> headers option \<Rightarrow> ('j, 'z) server \<Rightarrow>
   (int \<times> http_request \<times> headers option \<times> ('j, 'z) server) option" where
  "read_error W rq params h = do {
     (rq, params, h) \<leftarrow> connection_http_error W rq params 0 ''failed to read post body'' h;
     Some (0, rq, params, h) }"

definition connection_http_read ::
  "'j libs \<Rightarrow> http_request \<Rightarrow> headers option \<Rightarrow> ('j, 'z) server \<Rightarrow>
   (int \<times> http_request \<times> headers option \<times> ('j, 'z) server) option" where
  "connection_http_read W rq params h =
     (let bodylength = length (input_buffer rq) in
      case alloc_block h of
        (False, h) \<Rightarrow> read_error W rq params h
      | (True, h) \<Rightarrow>
         (let (n, body) = evbuffer_copyout (lib_ev W) (input_buffer rq) bodylength in
          if n \<noteq> int bodylength then read_error W rq params h
          else do {
            ps \<leftarrow> params;
            let (r, ps) = evhttp_parse_query_str (lib_ev W) (c_string body) ps;
            if r \<noteq> 0 then read_error W rq (Some ps) h else Some (1, rq, Some ps, h) }))"

definition connection_http_validate ::
  "'j libs \<Rightarrow> http_request \<Rightarrow> bool \<Rightarrow> headers option \<Rightarrow> ('j, 'z) server \<Rightarrow>
   (addr option \<times> http_request \<times> headers option \<times> ('j, 'z) server) option" where
  "connection_http_validate W rq create_new params h = do {
     name \<leftarrow> find_param W params ''name'';
     if (case name of None \<Rightarrow> False | Some s \<Rightarrow> length s \<noteq> QUEUE_UUID_STR_LEN) then do {
       (rq, params, h) \<leftarrow> connection_http_error W rq params HTTP_BADREQUEST ''invalid queue id'' h;
       Some (None, rq, params, h) }
     else do {
       (queue, h) \<leftarrow> manager_queue_get (long_size W) (stack_junk W) name create_new h;
       case queue of
         None \<Rightarrow> do {
           (rq, params, h) \<leftarrow> (if create_new
             then connection_http_error W rq params 0 ''failed to create new queue'' h
             else connection_http_error W rq params HTTP_NOTFOUND ''queue does not exist'' h);
           Some (None, rq, params, h) }
       | Some m \<Rightarrow> Some (Some m, rq, params, h) } }"

text \<open>The condition most handlers start with; the result is \<open>None\<close> when they return.\<close>

definition read_and_validate ::
  "'j libs \<Rightarrow> http_request \<Rightarrow> bool \<Rightarrow> headers option \<Rightarrow> ('j, 'z) server \<Rightarrow>
   (addr option \<times> http_request \<times> headers option \<times> ('j, 'z) server) option" where
  "read_and_validate W rq create_new params h = do {
     (ok, rq, params, h) \<leftarrow> connection_http_read W rq params h;
     if ok \<noteq> 1 then Some (None, rq, params, h)
     else connection_http_validate W rq create_new params h }"

section \<open>Handlers\<close>

definition connection_http_callback_take ::
  "'j libs \<Rightarrow> http_request \<Rightarrow> ('j, 'z) server \<Rightarrow> ('j, 'z) handled" where
  "connection_http_callback_take W rq h = do {
     (queue, rq, params, h) \<leftarrow> read_and_validate W rq False (Some []) h;
     case queue of
       None \<Rightarrow> Some (rq, params, h)
     | Some m \<Rightarrow> do {
         key \<leftarrow> find_param W params ''key'';
         mq \<leftarrow> manager_queue_get_queue m h;
         q \<leftarrow> mq;
         (item, h) \<leftarrow> queue_take q key h;
         case item of
           None \<Rightarrow> connection_http_error W rq params HTTP_NOTFOUND ''no item to take'' h
         | Some a \<Rightarrow> do {
             (object, h) \<leftarrow> with_json (protocol_encode_item (lib_json W) a h) h;
             (rq, params, h) \<leftarrow> (if object = None
               then connection_http_error W rq params 0 ''failed to encode item'' h
               else connection_http_payload W rq params object h);
             h \<leftarrow> queue_item_free a h;
             Some (rq, params, h) } } }"

definition connection_http_callback_peek ::
  "'j libs \<Rightarrow> http_request \<Rightarrow> ('j, 'z) server \<Rightarrow> ('j, 'z) handled" where
  "connection_http_callback_peek W rq h = do {
     (queue, rq, params, h) \<leftarrow> read_and_validate W rq False (Some []) h;
     case queue of
       None \<Rightarrow> Some (rq, params, h)
     | Some m \<Rightarrow> do {
         key \<leftarrow> find_param W params ''key'';
         mq \<leftarrow> manager_queue_get_queue m h;
         q \<leftarrow> mq;
         item \<leftarrow> queue_peek q key h;
         case item of
           None \<Rightarrow> connection_http_error W rq params HTTP_NOTFOUND ''no item to peek'' h
         | Some a \<Rightarrow> do {
             (_, h) \<leftarrow> queue_item_lock a h;
             (object, h) \<leftarrow> with_json (protocol_encode_item (lib_json W) a h) h;
             (rq, params, h) \<leftarrow> (if object = None
               then connection_http_error W rq params 0 ''failed to encode item'' h
               else connection_http_payload W rq params object h);
             h \<leftarrow> queue_item_unlock a h;
             Some (rq, params, h) } } }"

definition connection_http_callback_put ::
  "'j libs \<Rightarrow> ('j, 'z) server_runner \<Rightarrow> http_request \<Rightarrow> ('j, 'z) server \<Rightarrow> ('j, 'z) handled" where
  "connection_http_callback_put W run rq h = do {
     (queue, rq, params, h) \<leftarrow> read_and_validate W rq False (Some []) h;
     case queue of
       None \<Rightarrow> Some (rq, params, h)
     | Some m \<Rightarrow> do {
         key \<leftarrow> find_param W params ''key'';
         val \<leftarrow> find_param W params ''value'';
         case val of
           None \<Rightarrow> connection_http_error W rq params HTTP_BADREQUEST (''missing parameter '' @ [CHR 0x27] @ ''value'' @ [CHR 0x27]) h
         | Some v \<Rightarrow> do {
             mq \<leftarrow> manager_queue_get_queue m h;
             q \<leftarrow> mq;
             (r, h) \<leftarrow> queue_put run q key v h;
             if r < 0 then connection_http_error W rq params 0 ''failed to put item'' h
             else connection_http_payload W rq params None h } } }"

definition list_foreach_callback ::
  "'j libs \<Rightarrow> ('j, 'z) server \<Rightarrow> addr \<Rightarrow> addr \<Rightarrow> 'j \<Rightarrow> (int \<times> 'j) option" where
  "list_foreach_callback W h list queue j = do {
     i \<leftarrow> manager_queue_get_id queue h;
     case json_object_new_string (lib_json W) i j of
       (None, j) \<Rightarrow> Some (0, j)
     | (Some str, j) \<Rightarrow> do {
         (r, j) \<leftarrow> json_object_array_add (lib_json W) list str j;
         if r \<noteq> 0 then do { j \<leftarrow> json_put (lib_json W) (Some str) j; Some (0, j) }
         else Some (1, j) } }"

definition connection_http_callback_list ::
  "'j libs \<Rightarrow> http_request \<Rightarrow> ('j, 'z) server \<Rightarrow> ('j, 'z) handled" where
  "connection_http_callback_list W rq h = do {
     (ok, rq, params, h) \<leftarrow> connection_http_read W rq (Some []) h;
     if ok \<noteq> 1 then Some (rq, params, h)
     else do {
       (list, h) \<leftarrow> with_json (\<lambda>j. Some (json_object_new_array (lib_json W) j)) h;
       case list of
         None \<Rightarrow> connection_http_error W rq params 0 ''failed to create list'' h
       | Some l \<Rightarrow> do {
           (r, h) \<leftarrow> with_json (\<lambda>j. manager_queue_foreach (list_foreach_callback W h l) j h) h;
           if r \<noteq> 1 then do {
             h \<leftarrow> put_json W (Some l) h;
             connection_http_error W rq params 0 ''failed to list queues'' h }
           else connection_http_payload W rq params (Some l) h } } }"

definition connection_http_callback_new ::
  "'j libs \<Rightarrow> http_request \<Rightarrow> ('j, 'z) server \<Rightarrow> ('j, 'z) handled" where
  "connection_http_callback_new W rq h = do {
     (queue, rq, params, h) \<leftarrow> read_and_validate W rq True (Some []) h;
     case queue of
       None \<Rightarrow> Some (rq, params, h)
     | Some m \<Rightarrow> do {
         i \<leftarrow> manager_queue_get_id m h;
         (name, h) \<leftarrow> with_json (\<lambda>j. Some (json_object_new_string (lib_json W) i j)) h;
         if name = None then do {
           h \<leftarrow> manager_queue_free m h;
           connection_http_error W rq params 0 ''failed to encode queue name'' h }
         else connection_http_payload W rq params name h } }"

text \<open>The label \<open>cleanup\<close> of \<open>connection_http_callback_info_\<close>.\<close>

definition info_cleanup ::
  "'j libs \<Rightarrow> http_request \<Rightarrow> headers option \<Rightarrow> addr option \<Rightarrow> addr option \<Rightarrow> ('j, 'z) server \<Rightarrow> ('j, 'z) handled" where
  "info_cleanup W rq params info detail h = do {
     h \<leftarrow> put_json W info h;
     h \<leftarrow> put_json W detail h;
     connection_http_error W rq params 0 ''failed to encode queue info'' h }"

definition connection_http_callback_info ::
  "'j libs \<Rightarrow> http_request \<Rightarrow> ('j, 'z) server \<Rightarrow> ('j, 'z) handled" where
  "connection_http_callback_info W rq h = do {
     (queue, rq, params, h) \<leftarrow> read_and_validate W rq False (Some []) h;
     case queue of
       None \<Rightarrow> Some (rq, params, h)
     | Some m \<Rightarrow> do {
         i \<leftarrow> manager_queue_get_id m h;
         (detail, h) \<leftarrow> with_json (\<lambda>j. Some (json_object_new_string (lib_json W) i j)) h;
         if detail = None then info_cleanup W rq params None None h
         else do {
           (info, h) \<leftarrow> with_json (\<lambda>j. Some (json_object_new_object (lib_json W) j)) h;
           case info of
             None \<Rightarrow> info_cleanup W rq params None detail h
           | Some c \<Rightarrow> do {
               (r, h) \<leftarrow> with_json (json_object_object_add_ex (lib_json W) c ''name'' detail) h;
               if r \<noteq> 0 then info_cleanup W rq params (Some c) detail h
               else connection_http_payload W rq params (Some c) h } } } }"

definition connection_http_callback_delete ::
  "'j libs \<Rightarrow> http_request \<Rightarrow> ('j, 'z) server \<Rightarrow> ('j, 'z) handled" where
  "connection_http_callback_delete W rq h = do {
     (queue, rq, params, h) \<leftarrow> read_and_validate W rq True (Some []) h;
     case queue of
       None \<Rightarrow> Some (rq, params, h)
     | Some m \<Rightarrow> do {
         h \<leftarrow> manager_queue_want_remove m h;
         h \<leftarrow> manager_queue_free m h;
         connection_http_payload W rq params None h } }"

definition connection_http_callback_queues ::
  "'j libs \<Rightarrow> http_request \<Rightarrow> ('j, 'z) server \<Rightarrow> ('j, 'z) handled" where
  "connection_http_callback_queues W rq h =
     (case http_command rq of
        EVHTTP_REQ_GET \<Rightarrow> connection_http_callback_list W rq h
      | EVHTTP_REQ_POST \<Rightarrow> connection_http_callback_new W rq h
      | _ \<Rightarrow> connection_http_error W rq None HTTP_BADMETHOD ''method not supported'' h)"

definition connection_http_callback_queue ::
  "'j libs \<Rightarrow> http_request \<Rightarrow> ('j, 'z) server \<Rightarrow> ('j, 'z) handled" where
  "connection_http_callback_queue W rq h =
     (case http_command rq of
        EVHTTP_REQ_POST \<Rightarrow> connection_http_callback_info W rq h
      | EVHTTP_REQ_DELETE \<Rightarrow> connection_http_callback_delete W rq h
      | _ \<Rightarrow> connection_http_error W rq None HTTP_BADMETHOD ''method not supported'' h)"

section \<open>Dispatch and authentication\<close>

text \<open>The function an \<open>endpoint\<close> names.\<close>

fun call_endpoint ::
  "'j libs \<Rightarrow> ('j, 'z) server_runner \<Rightarrow> endpoint \<Rightarrow> http_request \<Rightarrow> ('j, 'z) server \<Rightarrow> ('j, 'z) handled" where
  "call_endpoint W run Callback_queues rq h = connection_http_callback_queues W rq h"
| "call_endpoint W run Callback_queue rq h = connection_http_callback_queue W rq h"
| "call_endpoint W run Callback_take rq h = connection_http_callback_take W rq h"
| "call_endpoint W run Callback_peek rq h = connection_http_callback_peek W rq h"
| "call_endpoint W run Callback_put rq h = connection_http_callback_put W run rq h"

text \<open>\<open>auth_verify\<close> of an authentication in the store.\<close>

definition verify_at ::
  "'j libs \<Rightarrow> addr \<Rightarrow> cstring \<Rightarrow> ('j, 'z) server \<Rightarrow> (int \<times> ('j, 'z) server) option" where
  "verify_at W a header h = do {
     A \<leftarrow> auth_at h a;
     (r, A, h) \<leftarrow> auth_verify (lib_files W) (lib_ssl W) A header h;
     Some (r, h\<lparr>auth_at := (auth_at h)(a \<mapsto> A)\<rparr>) }"

definition connection_http_authenticated ::
  "'j libs \<Rightarrow> ('j, 'z) server_runner \<Rightarrow> http_request \<Rightarrow> addr option \<Rightarrow> ('j, 'z) server \<Rightarrow> ('j, 'z) handled" where
  "connection_http_authenticated W run rq user h = do {
     p \<leftarrow> user;
     P \<leftarrow> params_at h p;
     case evhttp_find_header (lib_ev W) (input_headers rq) ''Authorization'' of
       None \<Rightarrow>
         (let (rq, h) = connection_http_auth_required W rq (cp_realm P) h
          in connection_http_error W rq None 401 ''authentication required'' h)
     | Some authstring \<Rightarrow> do {
         (r, h) \<leftarrow> verify_at W (cp_auth P) authstring h;
         if r = 0 then connection_http_error W rq None 403 ''authentication failed'' h
         else do {
           cb \<leftarrow> cp_cb P;
           call_endpoint W run cb rq h } } }"

text \<open>What \<open>evhttp_set_cb\<close> has been given for a path, called on a request.\<close>

fun call_route ::
  "'j libs \<Rightarrow> ('j, 'z) server_runner \<Rightarrow> route \<Rightarrow> http_request \<Rightarrow> ('j, 'z) server \<Rightarrow> ('j, 'z) handled" where
  "call_route W run (Plain e) rq h = call_endpoint W run e rq h"
| "call_route W run (Authenticated p) rq h = connection_http_authenticated W run rq p h"

end
