(* ===== verification/Connection_Http_Correct.thy ===== *)
theory Connection_Http_Correct
  imports Connection_Http
begin

text \<open>
  What the HTTP handlers do.  A request is served when it has got exactly one reply, the parameters
  have been released, every json-c object the handler owned has been given back, and the manager is
  in order; each handler is shown to serve its requests, with the code and the effect it has.
\<close>

section \<open>The server's memory\<close>

lemma server_more:
  "manager_mem.more h' = manager_mem.more (h :: ('j, 'z) server) \<longleftrightarrow>
     json_st h' = json_st h \<and> auth_at h' = auth_at h \<and> server_mem.more h' = server_mem.more h"
  by (cases h rule: server_mem.cases_scheme; cases h' rule: server_mem.cases_scheme) auto

lemma server_frame_json [simp]: "server_frame h (h\<lparr>json_st := j\<rparr>)"
  by (simp add: server_frame_def)

lemma server_frame_refl [simp]: "server_frame h h"
  by (simp add: server_frame_def)

lemma good_json [simp]: "manager_good L (h\<lparr>json_st := j\<rparr>) \<longleftrightarrow> manager_good L h"
proof
  assume g: "manager_good L (h\<lparr>json_st := j\<rparr>)"
  have "server_frame (h\<lparr>json_st := j\<rparr>) h" by (simp add: server_frame_def)
  with g show "manager_good L h" by (rule server_frame_good)
qed (erule server_frame_good, simp)

section \<open>Answers\<close>

text \<open>
  A json-c that wraps: the calls that build an answer around a payload do not fail.  A roomy json-c
  fails nowhere but in parsing.
\<close>

definition json_wraps :: "'j json_c \<Rightarrow> bool" where
  "json_wraps J \<longleftrightarrow> (\<forall>b j. fst (json_object_new_boolean J b j) \<noteq> None) \<and>
     (\<forall>j. fst (json_object_new_object J j) \<noteq> None) \<and>
     (\<forall>c k m j r j'. json_object_object_add_ex J c k m j = Some (r, j') \<longrightarrow> r = 0)"

definition json_roomy :: "'j json_c \<Rightarrow> bool" where
  "json_roomy J \<longleftrightarrow> json_wraps J \<and> (\<forall>s j. fst (json_object_new_string J s j) \<noteq> None) \<and>
     (\<forall>j. fst (json_object_new_array J j) \<noteq> None) \<and>
     (\<forall>c m j r j'. json_object_array_add J c m j = Some (r, j') \<longrightarrow> r = 0) \<and>
     (\<forall>a j s j'. json_object_to_json_string J a j = Some (s, j') \<longrightarrow> s \<noteq> None)"

text \<open>The codes an answer may have that is meant to have the code \<open>c\<close>.\<close>

definition codes :: "'j json_c \<Rightarrow> int \<Rightarrow> int set" where
  "codes J c = (if json_roomy J then {c} else {c, HTTP_INTERNAL})"

definition one_reply :: "int set \<Rightarrow> http_request \<Rightarrow> http_request \<Rightarrow> bool" where
  "one_reply C rq rq' \<longleftrightarrow> (\<exists>r. replies rq' = replies rq @ [r] \<and> reply_code r \<in> C)"

definition answered ::
  "('j \<Rightarrow> addr set) \<Rightarrow> int set \<Rightarrow> http_request \<Rightarrow> headers option \<Rightarrow> ('j, 'z) server \<Rightarrow> addr set \<Rightarrow>
   ('j, 'z) handled \<Rightarrow> bool" where
  "answered owned C rq params h S res \<longleftrightarrow> (\<exists>rq' j'. res = Some (rq', clear_params params, h\<lparr>json_st := j'\<rparr>) \<and>
     owned j' = S \<and> one_reply C rq rq')"

lemma answeredI:
  "res = Some (rq', clear_params params, h\<lparr>json_st := j'\<rparr>) \<Longrightarrow> owned j' = S \<Longrightarrow> one_reply C rq rq' \<Longrightarrow>
   answered owned C rq params h S res"
  unfolding answered_def by blast

lemma answered_cases:
  assumes "answered owned C rq params h S res"
  obtains rq' j' where "res = Some (rq', clear_params params, h\<lparr>json_st := j'\<rparr>)" "owned j' = S"
    "one_reply C rq rq'"
  using assms unfolding answered_def by blast

definition sent :: "'j libs \<Rightarrow> int \<Rightarrow> cstring \<Rightarrow> http_request \<Rightarrow> http_request" where
  "sent W code text rq = evhttp_send_reply code (rq\<lparr>output_headers :=
       evhttp_add_header (lib_ev W) (output_headers rq) ''Content-Type'' ''application/json'',
     output_buffer := evbuffer_add (lib_ev W) (output_buffer rq) text\<rparr>)"

lemma one_reply_sent [simp]: "one_reply C rq (sent W code text rq) \<longleftrightarrow> code \<in> C"
  by (simp add: one_reply_def sent_def evhttp_send_reply_def)

lemma http_json_answered:
  assumes J: "json_contract (lib_json W) owned" and o: "set_option object \<subseteq> owned (json_st h)"
  shows "answered owned (codes (lib_json W) (if object = None then HTTP_INTERNAL else code)) rq params h
    (owned (json_st h) - set_option object) (connection_http_json W rq params code object h)"
proof -
  obtain s j1 where p: "json_object_to_json_string (lib_json W) object (json_st h) = Some (s, j1)"
    "owned j1 = owned (json_st h)" by (rule json_print [OF J o])
  obtain j2 where r: "json_put (lib_json W) object j1 = Some j2" "owned j2 = owned j1 - set_option object"
    by (rule json_release [OF J, of object j1]) (use o p in auto)
  have s: "json_roomy (lib_json W) \<Longrightarrow> s \<noteq> None" using p(1) unfolding json_roomy_def by blast
  show ?thesis
  proof (cases "s = None \<or> object = None")
    case True
    with p(1) r(1) have "connection_http_json W rq params code object h =
        Some (sent W HTTP_INTERNAL protocol_failure_fallback rq, clear_params params, h\<lparr>json_st := j2\<rparr>)"
      by (simp add: connection_http_json_def with_json_def put_json_def sent_def)
    then show ?thesis by (rule answeredI) (use True p(2) r(2) s in \<open>auto simp: codes_def\<close>)
  next
    case False
    then obtain t a where "s = Some t" "object = Some a" by auto
    with p(1) r(1) have "connection_http_json W rq params code object h =
        Some (sent W code (the s) rq, clear_params params, h\<lparr>json_st := j2\<rparr>)"
      by (simp add: connection_http_json_def with_json_def put_json_def sent_def)
    then show ?thesis by (rule answeredI) (use False p(2) r(2) in \<open>auto simp: codes_def\<close>)
  qed
qed

lemma base_build_wraps:
  assumes w: "json_wraps J" and b: "base_build J success msg payload j = Some (r, j')"
  shows "r \<noteq> None"
proof -
  obtain st j1 where 1: "json_object_new_boolean J success j = (Some st, j1)"
    using w unfolding json_wraps_def by (metis option.exhaust prod.collapse)
  obtain c j2 where 2: "json_object_new_object J j1 = (Some c, j2)"
    using w unfolding json_wraps_def by (metis option.exhaust prod.collapse)
  have 3: "r = 0" if "json_object_object_add_ex J c k m j = Some (r, j')" for c k m j r j'
    using w that unfolding json_wraps_def by blast
  from b 1 2 3 show ?thesis
    by (auto simp: base_build_def split: Option.bind_splits if_splits dest!: 3)
qed

lemma created_object:
  assumes J: "json_contract J owned" and w: "json_wraps J"
    and m: "message = None \<or> payload = None" and p: "set_option payload \<subseteq> owned j"
  obtains r j' where "protocol_create_base J success message payload j = Some (r, j')"
    "set_option r \<subseteq> owned j'" "owned j' - set_option r = owned j - set_option payload"
    "r = None \<longrightarrow> message \<noteq> None \<and> \<not> json_roomy J"
proof -
  from create_base_owned [OF J m p, of success] obtain r j' where
    c: "protocol_create_base J success message payload j = Some (r, j')"
    "case r of Some c \<Rightarrow> c \<notin> owned j \<and> owned j' = insert c (owned j - set_option payload)
     | None \<Rightarrow> \<exists>leak. owned j' = (owned j - set_option payload) \<union> leak \<and> leak \<inter> owned j = {} \<and>
         (message = None \<longrightarrow> leak = {})" by blast
  show thesis
  proof (cases r)
    case (Some c)
    with c that [of "Some c" j'] show thesis by auto
  next
    case None
    have "\<exists>t. message = Some t \<and> fst (json_object_new_string J t j) = None"
      using c(1) None
      by (auto simp: protocol_create_base_def split: option.splits prod.splits dest!: base_build_wraps [OF w])
    then obtain t j1 where t: "message = Some t" "json_object_new_string J t j = (None, j1)"
      by (metis prod.collapse)
    with c(1) m have "j' = j1" by (simp add: protocol_create_base_def base_cleanup_def)
    moreover have "owned j1 = owned j"
      using json_gives(3) [OF J, of j t] t by (auto simp: gives_def)
    moreover have "\<not> json_roomy J" using t unfolding json_roomy_def by (metis fst_conv)
    ultimately show thesis using c(1) None t m that [of None j'] by auto
  qed
qed

lemma http_error_answered:
  assumes J: "json_contract (lib_json W) owned" and w: "json_wraps (lib_json W)"
  shows "answered owned (codes (lib_json W) (if code = 0 then HTTP_INTERNAL else code)) rq params h
    (owned (json_st h)) (connection_http_error W rq params code message h)"
proof -
  obtain r j' where c: "protocol_create_base (lib_json W) 0 (Some message) None (json_st h) = Some (r, j')"
    "set_option r \<subseteq> owned j'" "owned j' - set_option r = owned (json_st h) - set_option None"
    "r = None \<longrightarrow> Some message \<noteq> None \<and> \<not> json_roomy (lib_json W)"
    by (rule created_object [OF J w, of "Some message" None "json_st h" 0]) auto
  let ?code = "if code = 0 then HTTP_INTERNAL else code"
  let ?h = "h\<lparr>json_st := j'\<rparr>"
  obtain rq' j2 where a: "connection_http_json W rq params ?code r ?h = Some (rq', clear_params params, ?h\<lparr>json_st := j2\<rparr>)"
    "owned j2 = owned (json_st ?h) - set_option r"
    "one_reply (codes (lib_json W) (if r = None then HTTP_INTERNAL else ?code)) rq rq'"
    by (rule answered_cases [OF http_json_answered [OF J, of r ?h]]) (use c in simp)
  have "connection_http_error W rq params code message h = Some (rq', clear_params params, h\<lparr>json_st := j2\<rparr>)"
    using a(1) c(1) by (simp add: connection_http_error_def protocol_create_failure_def with_json_def)
  then show ?thesis
    by (rule answeredI) (use a c in \<open>auto simp: codes_def one_reply_def split: if_splits\<close>)
qed

lemma http_payload_answered:
  assumes J: "json_contract (lib_json W) owned" and w: "json_wraps (lib_json W)"
    and p: "set_option payload \<subseteq> owned (json_st h)"
  shows "answered owned (codes (lib_json W) HTTP_OK) rq params h
    (owned (json_st h) - set_option payload) (connection_http_payload W rq params payload h)"
proof -
  obtain r j' where c: "protocol_create_base (lib_json W) 1 None payload (json_st h) = Some (r, j')"
    "set_option r \<subseteq> owned j'" "owned j' - set_option r = owned (json_st h) - set_option payload" "r \<noteq> None"
    by (rule created_object [OF J w, of None payload "json_st h" 1]) (use p in auto)
  let ?h = "h\<lparr>json_st := j'\<rparr>"
  obtain rq' j2 where a: "connection_http_json W rq params HTTP_OK r ?h = Some (rq', clear_params params, ?h\<lparr>json_st := j2\<rparr>)"
    "owned j2 = owned (json_st ?h) - set_option r"
    "one_reply (codes (lib_json W) (if r = None then HTTP_INTERNAL else HTTP_OK)) rq rq'"
    by (rule answered_cases [OF http_json_answered [OF J, of r ?h]]) (use c in simp)
  have "connection_http_payload W rq params payload h = Some (rq', clear_params params, h\<lparr>json_st := j2\<rparr>)"
    using a(1) c(1,4) by (auto simp: connection_http_payload_def protocol_create_success_def with_json_def)
  then show ?thesis by (rule answeredI) (use a c in simp_all)
qed

section \<open>Reading and validating a request\<close>

definition charged :: "('j, 'z) server \<Rightarrow> ('j, 'z) server" where
  "charged h = h\<lparr>alloc_count := Suc (alloc_count h)\<rparr>"

lemma charged_simps [simp]:
  "json_st (charged h) = json_st h" "auth_at (charged h) = auth_at h" "item_at (charged h) = item_at h"
  "queue_at (charged h) = queue_at h" "callback_at (charged h) = callback_at h" "mqueue_at (charged h) = mqueue_at h"
  "ctx_queues (charged h) = ctx_queues h" "rand_bytes (charged h) = rand_bytes h"
  "alloc_ok (charged h) = alloc_ok h" "next_addr (charged h) = next_addr h"
  "manager_mem.more (charged h) = manager_mem.more h" "params_at (charged h) = params_at h"
  "want_at (charged h) = want_at h" "ctx_wants (charged h) = ctx_wants h" "ctx_servers (charged h) = ctx_servers h"
  by (simp_all add: charged_def)

lemma alloc_block_charged: "alloc_block h = (alloc_ok h (alloc_count h), charged h)"
  by (simp add: alloc_block_def charged_def)

lemma charged_frame [simp]: "server_frame h (charged h)"
  by (simp add: server_frame_def)

lemma charged_good: "manager_good L h \<Longrightarrow> manager_good L (charged h)"
  by (erule server_frame_good) simp

lemma charged_queue_id [simp]: "queue_id (charged h) = queue_id h"
  by (simp add: queue_id_def fun_eq_iff)

text \<open>The parameters of a request, when they can be read.\<close>

definition body_params :: "'j libs \<Rightarrow> http_request \<Rightarrow> ('j, 'z) server \<Rightarrow> headers option" where
  "body_params W rq h = (let len = length (input_buffer rq); (n, body) = evbuffer_copyout (lib_ev W) (input_buffer rq) len;
       (r, ps) = evhttp_parse_query_str (lib_ev W) (c_string body) []
     in if alloc_ok h (alloc_count h) \<and> n = int len \<and> r = 0 then Some ps else None)"

text \<open>The code of a rejected request, and the queue an accepted one names.\<close>

definition reject_code :: "'j libs \<Rightarrow> bool \<Rightarrow> http_request \<Rightarrow> ('j, 'z) server \<Rightarrow> int" where
  "reject_code W create_new rq h = (case body_params W rq h of None \<Rightarrow> HTTP_INTERNAL
     | Some ps \<Rightarrow> (case evhttp_find_header (lib_ev W) ps ''name'' of
          Some s \<Rightarrow> if length s \<noteq> 36 then HTTP_BADREQUEST else if create_new then HTTP_INTERNAL else HTTP_NOTFOUND
        | None \<Rightarrow> if create_new then HTTP_INTERNAL else HTTP_NOTFOUND))"

definition queue_named :: "('j, 'z) server \<Rightarrow> cstring \<Rightarrow> addr option" where
  "queue_named h s = (if length s = 36 then List.find (\<lambda>m. strcasecmp (queue_id h m) s = 0) (ctx_queues h) else None)"

definition request_queue :: "'j libs \<Rightarrow> http_request \<Rightarrow> ('j, 'z) server \<Rightarrow> addr option" where
  "request_queue W rq h = do {
     ps \<leftarrow> body_params W rq h;
     s \<leftarrow> evhttp_find_header (lib_ev W) ps ''name'';
     queue_named h s }"

lemma read_error_answered:
  assumes J: "json_contract (lib_json W) owned" and w: "json_wraps (lib_json W)"
  obtains rq' j' where "read_error W rq params h = Some (0, rq', clear_params params, h\<lparr>json_st := j'\<rparr>)"
    "owned j' = owned (json_st h)" "one_reply (codes (lib_json W) HTTP_INTERNAL) rq rq'"
proof -
  obtain rq' j' where a: "connection_http_error W rq params 0 ''failed to read post body'' h =
      Some (rq', clear_params params, h\<lparr>json_st := j'\<rparr>)" "owned j' = owned (json_st h)"
    "one_reply (codes (lib_json W) (if 0 = (0 :: int) then HTTP_INTERNAL else 0)) rq rq'"
    by (rule answered_cases [OF http_error_answered [OF J w, of 0]])
  show thesis by (rule that [of rq' j']) (use a in \<open>simp_all add: read_error_def\<close>)
qed

lemma read_cases:
  assumes J: "json_contract (lib_json W) owned" and w: "json_wraps (lib_json W)"
  obtains (rejected) rq' j' where
      "connection_http_read W rq (Some []) h = Some (0, rq', Some [], (charged h)\<lparr>json_st := j'\<rparr>)"
      "owned j' = owned (json_st h)" "one_reply (codes (lib_json W) HTTP_INTERNAL) rq rq'" "body_params W rq h = None"
    | (parsed) ps where "connection_http_read W rq (Some []) h = Some (1, rq, Some ps, charged h)"
      "body_params W rq h = Some ps"
proof -
  obtain n body where c: "evbuffer_copyout (lib_ev W) (input_buffer rq) (length (input_buffer rq)) = (n, body)"
    by force
  obtain r ps where p: "evhttp_parse_query_str (lib_ev W) (c_string body) [] = (r, ps)" by force
  have bp: "body_params W rq h = (if alloc_ok h (alloc_count h) \<and> n = int (length (input_buffer rq)) \<and> r = 0 then Some ps else None)"
    by (simp add: body_params_def c p)
  show thesis
  proof (cases "alloc_ok h (alloc_count h) \<and> n = int (length (input_buffer rq)) \<and> r = 0")
    case True
    with bp c p show thesis by (intro parsed [of ps]) (simp_all add: connection_http_read_def alloc_block_charged Let_def)
  next
    case False
    then have "connection_http_read W rq (Some []) h = read_error W rq
        (Some (if alloc_ok h (alloc_count h) \<and> n = int (length (input_buffer rq)) then ps else [])) (charged h)"
      using c p by (cases "alloc_ok h (alloc_count h)") (auto simp: connection_http_read_def alloc_block_charged Let_def)
    then obtain params where e: "connection_http_read W rq (Some []) h = read_error W rq (Some params) (charged h)" ..
    obtain rq' j' where a: "read_error W rq (Some params) (charged h) =
        Some (0, rq', clear_params (Some params), (charged h)\<lparr>json_st := j'\<rparr>)"
      "owned j' = owned (json_st (charged h))" "one_reply (codes (lib_json W) HTTP_INTERNAL) rq rq'"
      by (rule read_error_answered [OF J w])
    show thesis
      by (rule rejected [of rq' j']) (use a e bp False in \<open>auto simp: clear_params_def\<close>)
  qed
qed

text \<open>Where the program runs.\<close>

definition libs_ok :: "'j libs \<Rightarrow> ('j \<Rightarrow> addr set) \<Rightarrow> bool" where
  "libs_ok W owned \<longleftrightarrow> json_contract (lib_json W) owned \<and> json_wraps (lib_json W) \<and>
     (long_size W = 4 \<or> long_size W = 8) \<and> length (stack_junk W) = 16"

lemma libs_okD:
  assumes "libs_ok W owned"
  shows "json_contract (lib_json W) owned" "json_wraps (lib_json W)" "long_size W = 4 \<or> long_size W = 8"
    "length (stack_junk W) = 16"
  using assms by (simp_all add: libs_ok_def)

lemma server_store_frame: "same_store h h' \<Longrightarrow> server_frame h h' \<and> json_st h' = json_st h"
  by (auto simp: server_frame_def same_store_def manager_more server_more)

lemma enter_cases:
  assumes ok: "libs_ok W owned" and g: "manager_good (long_size W) h"
  obtains (rejected) rq' h' where "read_and_validate W rq c (Some []) h = Some (None, rq', Some [], h')"
      "server_frame h h'" "owned (json_st h') = owned (json_st h)"
      "one_reply (codes (lib_json W) (reject_code W c rq h)) rq rq'" "request_queue W rq h = None"
    | (found) ps m where "read_and_validate W rq c (Some []) h = Some (Some m, rq, Some ps, charged h)"
      "body_params W rq h = Some ps" "request_queue W rq h = Some m" "m \<in> set (ctx_queues h)"
    | (new) ps m q u h' where "c" "read_and_validate W rq c (Some []) h = Some (Some m, rq, Some ps, h')"
      "body_params W rq h = Some ps" "request_queue W rq h = None"
      "created (long_size W) m q u (charged h) h'" "length u = 16"
proof -
  note J = libs_okD(1,2) [OF ok]
  from J show thesis
  proof (cases rule: read_cases [where rq = rq and h = h])
    case (rejected rq' j')
    have "server_frame h ((charged h)\<lparr>json_st := j'\<rparr>)" by (simp add: server_frame_def)
    with rejected that(1) show thesis
      by (simp add: read_and_validate_def request_queue_def reject_code_def)
  next
    case (parsed ps)
    let ?name = "evhttp_find_header (lib_ev W) ps ''name''"
    have v: "read_and_validate W rq c (Some []) h = connection_http_validate W rq c (Some ps) (charged h)"
      using parsed by (simp add: read_and_validate_def)
    have fail: thesis
      if "read_and_validate W rq c (Some []) h = do {
          (rq, params, h) \<leftarrow> connection_http_error W rq (Some ps) code message h1; Some (None, rq, params, h) }"
        "same_store (charged h) h1" "reject_code W c rq h = (if code = 0 then HTTP_INTERNAL else code)"
        "request_queue W rq h = None" for code message h1
    proof -
      obtain rq' j' where a: "connection_http_error W rq (Some ps) code message h1 =
          Some (rq', clear_params (Some ps), h1\<lparr>json_st := j'\<rparr>)" "owned j' = owned (json_st h1)"
        "one_reply (codes (lib_json W) (if code = 0 then HTTP_INTERNAL else code)) rq rq'"
        by (rule answered_cases [OF http_error_answered [OF J]])
      have f: "server_frame h h1" "json_st h1 = json_st h"
        using server_store_frame [OF that(2)] server_frame_trans [OF charged_frame] by auto
      then have "server_frame h (h1\<lparr>json_st := j'\<rparr>)" by (intro server_frame_trans [OF f(1) server_frame_json])
      show thesis
        by (rule rejected [of rq' "h1\<lparr>json_st := j'\<rparr>"])
           (use a f \<open>server_frame h (h1\<lparr>json_st := j'\<rparr>)\<close> that(1,3,4) in \<open>simp_all add: clear_params_def\<close>)
    qed
    show thesis
    proof (cases "case ?name of None \<Rightarrow> False | Some s \<Rightarrow> length s \<noteq> 36")
      case True
      then obtain s where s: "?name = Some s" "length s \<noteq> 36" by (auto split: option.splits)
      show thesis
        by (rule fail [of HTTP_BADREQUEST "''invalid queue id''" "charged h"])
           (use v s parsed in \<open>simp_all add: connection_http_validate_def find_param_def QUEUE_UUID_STR_LEN_def
              reject_code_def request_queue_def queue_named_def HTTP_BADREQUEST_def\<close>)
    next
      case name: False
      have inv: "manager_inv (long_size W) (charged h)" and rnd: "rand_ok (charged h)"
        using charged_good [OF g] by (simp_all add: manager_good_def)
      note un = connection_http_validate_def find_param_def QUEUE_UUID_STR_LEN_def
      from inv libs_okD(4,3) [OF ok] rnd show thesis
      proof (cases rule: manager_get_cases [where name = ?name and c = c])
        case (found s m)
        with v parsed name that(2) [of m ps] show thesis
          by (simp add: un request_queue_def queue_named_def)
      next
        case (null h')
        have nq: "request_queue W rq h = None"
        proof (rule ccontr)
          assume "request_queue W rq h \<noteq> None"
          with parsed obtain s m where "?name = Some s" "length s = 36"
            "List.find (\<lambda>m. strcasecmp (queue_id (charged h) m) s = 0) (ctx_queues (charged h)) = Some m"
            by (auto simp: request_queue_def queue_named_def split: if_splits Option.bind_splits)
          with found_again [OF charged_good [OF g]] null(1) show False by simp
        qed
        show thesis
        proof (cases c)
          case True
          show thesis
            by (rule fail [of 0 "''failed to create new queue''" h'])
               (use v null True name nq parsed in \<open>simp_all add: un reject_code_def split: option.splits\<close>)
        next
          case False
          show thesis
            by (rule fail [of HTTP_NOTFOUND "''queue does not exist''" h'])
               (use v null False name nq parsed in \<open>simp_all add: un reject_code_def HTTP_NOTFOUND_def split: option.splits\<close>)
        qed
      next
        case (new m q u h')
        with v parsed name that(3) [of m ps h' q u] show thesis
          by (auto simp: un request_queue_def queue_named_def find_None_iff split: option.splits)
      qed
    qed
  qed
qed

section \<open>Handlers\<close>

text \<open>
  A request has been served: one reply with a code of \<open>C\<close>, the parameters released, the references of
  json-c balanced, and the manager in order.
\<close>

definition served ::
  "nat \<Rightarrow> ('j \<Rightarrow> addr set) \<Rightarrow> int set \<Rightarrow> http_request \<Rightarrow> ('j, 'z) server \<Rightarrow> ('j, 'z) server \<Rightarrow>
   ('j, 'z) handled \<Rightarrow> bool" where
  "served L owned C rq h h' res \<longleftrightarrow> (\<exists>rq' params'. res = Some (rq', params', h') \<and>
     (params' = None \<or> params' = Some []) \<and> one_reply C rq rq' \<and>
     owned (json_st h') = owned (json_st h) \<and> manager_good L h')"

lemma servedI:
  "res = Some (rq', params', h') \<Longrightarrow> params' = None \<or> params' = Some [] \<Longrightarrow> one_reply C rq rq' \<Longrightarrow>
   owned (json_st h') = owned (json_st h) \<Longrightarrow> manager_good L h' \<Longrightarrow> served L owned C rq h h' res"
  unfolding served_def by blast

lemma clear_params_cases: "clear_params params = None \<or> clear_params params = Some []"
  by (cases params) (simp_all add: clear_params_def)

lemma answered_served:
  assumes "answered owned C rq params h1 (owned (json_st h)) res" and "manager_good L h1"
  obtains j' where "served L owned C rq h (h1\<lparr>json_st := j'\<rparr>) res"
proof -
  obtain rq' j' where a: "res = Some (rq', clear_params params, h1\<lparr>json_st := j'\<rparr>)" "owned j' = owned (json_st h)"
    "one_reply C rq rq'" by (rule answered_cases [OF assms(1)])
  show thesis
    by (rule that [of j'], rule servedI [OF a(1) clear_params_cases a(3)]) (use a assms(2) in simp_all)
qed

lemma server_frame_content:
  assumes "server_frame h h'"
  shows "content h' = content h" "waiters h' = waiters h" "queue_at h' = queue_at h" "item_at h' = item_at h"
    "managed h' = managed h"
proof -
  show eq: "queue_at h' = queue_at h" "item_at h' = item_at h" using assms by (simp_all add: server_frame_def)
  have "entry_of h' = entry_of h" "waiter_of h' = waiter_of h"
    using assms by (simp_all add: server_frame_def entry_of_def waiter_of_def fun_eq_iff)
  then show "content h' = content h" "waiters h' = waiters h"
    using eq by (auto simp only: content_def [abs_def] waiters_def [abs_def])
  show "managed h' = managed h" using assms by (simp add: managed_def server_frame_def fun_eq_iff)
qed

lemma json_content [simp]:
  "content (h\<lparr>json_st := j\<rparr>) = content h" "content (charged h) = content h"
  by (rule server_frame_content, simp)+

text \<open>Encoding an item and answering with it.\<close>

lemma new_string_roomy:
  assumes "json_roomy J" shows "\<exists>a j'. json_object_new_string J s j = (Some a, j')"
proof -
  have "fst (json_object_new_string J s j) \<noteq> None" using assms unfolding json_roomy_def by blast
  then show ?thesis by (cases "json_object_new_string J s j") auto
qed

lemma new_object_wraps:
  assumes "json_wraps J" shows "\<exists>a j'. json_object_new_object J j = (Some a, j')"
proof -
  have "fst (json_object_new_object J j) \<noteq> None" using assms unfolding json_wraps_def by blast
  then show ?thesis by (cases "json_object_new_object J j") auto
qed

lemma add_wraps: "json_wraps J \<Longrightarrow> json_object_object_add_ex J c k m j = Some (r, j') \<Longrightarrow> r = 0"
  unfolding json_wraps_def by blast

lemma encode_item_roomy:
  assumes r: "json_roomy J" and e: "protocol_encode_item J a h j = Some (res, j')"
  shows "res \<noteq> None"
proof
  assume none: "res = None"
  have w: "json_wraps J" using r by (simp add: json_roomy_def)
  obtain base j1 where 1: "json_object_new_object J j = (Some base, j1)" using new_object_wraps [OF w] by blast
  obtain k where k: "queue_item_get_key a h = Some k"
    using e 1 by (auto simp: protocol_encode_item_def split: Option.bind_splits)
  have *: False
    if "do { (r, j) \<leftarrow> json_object_object_add_ex J base ''key'' key j2;
      if r \<noteq> 0 then item_error J (Some base) None key j
      else do { item_value \<leftarrow> queue_item_get_value a h; v \<leftarrow> item_value;
        case json_object_new_string J v j of
           (None, j) \<Rightarrow> item_error J (Some base) None None j
         | (Some val, j) \<Rightarrow> do {
           (r, j) \<leftarrow> json_object_object_add_ex J base ''value'' (Some val) j;
           if r \<noteq> 0 then item_error J (Some base) (Some val) None j
           else Some (Some base, j) } } } = Some (None, j')" for key j2
  proof -
    from that obtain j3 v where "json_object_object_add_ex J base ''key'' key j2 = Some (0, j3)"
      "queue_item_get_value a h = Some (Some v)"
      by (auto split: Option.bind_splits if_splits dest!: add_wraps [OF w])
    moreover obtain s j4 where "json_object_new_string J v j3 = (Some s, j4)" using new_string_roomy [OF r] by blast
    ultimately show False using that
      by (auto split: Option.bind_splits if_splits dest!: add_wraps [OF w])
  qed
  show False
  proof (cases k)
    case None
    with e 1 k none show False by (intro * [of None j1]) (simp add: protocol_encode_item_def cong: if_cong)
  next
    case (Some t)
    obtain s j2 where "json_object_new_string J t j1 = (Some s, j2)" using new_string_roomy [OF r] by blast
    with e 1 k none Some show False
      by (intro * [of "Some s" j2]) (simp add: protocol_encode_item_def cong: if_cong)
  qed
qed

lemma item_answered:
  assumes J: "json_contract (lib_json W) owned" and w: "json_wraps (lib_json W)"
    and i: "item_at h a = Some i" "i_value i = Some v"
  shows "answered owned (codes (lib_json W) HTTP_OK) rq params h (owned (json_st h))
    (do { (object, h) \<leftarrow> with_json (protocol_encode_item (lib_json W) a h) h;
          if object = None then connection_http_error W rq params 0 ''failed to encode item'' h
          else connection_http_payload W rq params object h })"
proof -
  obtain r j' where e: "protocol_encode_item (lib_json W) a h (json_st h) = Some (r, j')"
    "gives owned (json_st h) (r, j')"
    using encode_item_owned [OF J i, of "json_st h"] by (auto simp: owned_result_def)
  let ?h = "h\<lparr>json_st := j'\<rparr>"
  have j2: "?h\<lparr>json_st := j\<rparr> = h\<lparr>json_st := j\<rparr>" for j by simp
  show ?thesis
  proof (cases r)
    case None
    obtain rq' j'' where a: "connection_http_error W rq params 0 ''failed to encode item'' ?h =
        Some (rq', clear_params params, ?h\<lparr>json_st := j''\<rparr>)" "owned j'' = owned (json_st ?h)"
      "one_reply (codes (lib_json W) (if 0 = (0 :: int) then HTTP_INTERNAL else 0)) rq rq'"
      by (rule answered_cases [OF http_error_answered [OF J w]])
    have "\<not> json_roomy (lib_json W)" using encode_item_roomy [OF _ e(1)] None by blast
    then show ?thesis
      by (intro answeredI [where rq' = rq' and j' = j'']) (use e a None in \<open>auto simp: with_json_def gives_def codes_def one_reply_def\<close>)
  next
    case (Some c)
    obtain rq' j'' where a: "connection_http_payload W rq params r ?h =
        Some (rq', clear_params params, ?h\<lparr>json_st := j''\<rparr>)" "owned j'' = owned (json_st ?h) - set_option r"
      "one_reply (codes (lib_json W) HTTP_OK) rq rq'"
      by (rule answered_cases [OF http_payload_answered [OF J w, of r ?h]]) (use e Some in \<open>auto simp: gives_def\<close>)
    show ?thesis
      by (intro answeredI [where rq' = rq' and j' = j'']) (use e a Some in \<open>auto simp: with_json_def gives_def\<close>)
  qed
qed

lemma item_answer_cases:
  assumes "json_contract (lib_json W) owned" "json_wraps (lib_json W)" "item_at h a = Some i" "i_value i = Some v"
  obtains object h2 rq' j' where "with_json (protocol_encode_item (lib_json W) a h) h = Some (object, h2)"
    "(if object = None then connection_http_error W rq params 0 ''failed to encode item'' h2
      else connection_http_payload W rq params object h2) = Some (rq', clear_params params, h\<lparr>json_st := j'\<rparr>)"
    "owned j' = owned (json_st h)" "one_reply (codes (lib_json W) HTTP_OK) rq rq'"
proof -
  obtain rq' j' where b: "do { (object, h) \<leftarrow> with_json (protocol_encode_item (lib_json W) a h) h;
        if object = None then connection_http_error W rq params 0 ''failed to encode item'' h
        else connection_http_payload W rq params object h } = Some (rq', clear_params params, h\<lparr>json_st := j'\<rparr>)"
    "owned j' = owned (json_st h)" "one_reply (codes (lib_json W) HTTP_OK) rq rq'"
    by (rule answered_cases [OF item_answered [OF assms]])
  from b(1) obtain object h2 where "with_json (protocol_encode_item (lib_json W) a h) h = Some (object, h2)"
    "(if object = None then connection_http_error W rq params 0 ''failed to encode item'' h2
      else connection_http_payload W rq params object h2) = Some (rq', clear_params params, h\<lparr>json_st := j'\<rparr>)"
    by (auto split: Option.bind_splits)
  with b(2,3) that show thesis by blast
qed

text \<open>Errors and payloads as the last thing a handler does.\<close>

lemma error_served:
  assumes ok: "libs_ok W owned" and "manager_good L h1" and "owned (json_st h1) = owned (json_st h)" and "code \<noteq> 0"
  obtains j' where "served L owned (codes (lib_json W) code) rq h (h1\<lparr>json_st := j'\<rparr>)
    (connection_http_error W rq params code message h1)"
  by (rule answered_served [of owned "codes (lib_json W) code" rq params h1 h])
     (use http_error_answered [OF libs_okD(1,2) [OF ok], of code rq params h1 message] assms in auto)

lemma failure_served:
  assumes ok: "libs_ok W owned" and "manager_good L h1" and "owned (json_st h1) = owned (json_st h)"
  obtains j' where "served L owned (codes (lib_json W) HTTP_INTERNAL) rq h (h1\<lparr>json_st := j'\<rparr>)
    (connection_http_error W rq params 0 message h1)"
  by (rule answered_served [of owned "codes (lib_json W) HTTP_INTERNAL" rq params h1 h])
     (use http_error_answered [OF libs_okD(1,2) [OF ok], of 0 rq params h1 message] assms in auto)

lemma payload_served:
  assumes ok: "libs_ok W owned" and "manager_good L h1" and "set_option payload \<subseteq> owned (json_st h1)"
    and "owned (json_st h1) - set_option payload = owned (json_st h)"
  obtains j' where "served L owned (codes (lib_json W) HTTP_OK) rq h (h1\<lparr>json_st := j'\<rparr>)
    (connection_http_payload W rq params payload h1)"
  by (rule answered_served [of owned "codes (lib_json W) HTTP_OK" rq params h1 h])
     (use http_payload_answered [OF libs_okD(1,2) [OF ok], of payload h1 rq params] assms in auto)

lemma served_mono: "served L owned C rq h h' res \<Longrightarrow> C \<subseteq> D \<Longrightarrow> served L owned D rq h h' res"
  unfolding served_def one_reply_def by blast

lemma codes_internal: "\<not> json_roomy J \<Longrightarrow> codes J HTTP_INTERNAL \<subseteq> codes J c"
  by (simp add: codes_def)

lemma server_updates [simp]:
  "json_st (set_queue q Q h) = json_st h" "auth_at (set_queue q Q h) = auth_at h"
  "json_st (set_item a i h) = json_st h" "auth_at (set_item a i h) = auth_at h"
  "json_st (set_callback c cb h) = json_st h" "auth_at (set_callback c cb h) = auth_at h"
  "json_st (drop_item a h) = json_st h" "auth_at (drop_item a h) = auth_at h"
  "json_st (taken q Q a i h) = json_st h" "auth_at (taken q Q a i h) = auth_at h"
  for h :: "('j, 'z) server"
  by (simp_all add: set_queue_def set_item_def set_callback_def drop_item_def taken_def)

lemma queue_of:
  assumes "manager_inv L h" and "m \<in> set (ctx_queues h)"
  obtains M q Q where "mqueue_at h m = Some M" "mq_q M = Some q" "queue_at h q = Some Q"
    "manager_queue_get_queue m h = Some (Some q)" "manager_queue_get_id m h = Some (mq_id M)" "managed h m q"
  by (rule manager_inv_mqueue [OF assms])
     (simp add: manager_queue_get_queue_def manager_queue_get_id_def managed_def)

lemma good_item:
  assumes "manager_good L h" and "queue_at h q = Some Q" and "a \<in> set (items Q)"
  obtains i v where "item_at h a = Some i" "i_value i = Some v" "i_inserted i" "i_lockcount i = 0"
proof -
  from heap_inv_queue [OF manager_good_heap [OF assms(1)] assms(2)] assms(3) have "item_linked h q a"
    by (simp add: queue_ok_def)
  with assms(1) that show thesis
    by (auto simp: item_linked_def manager_good_def all_unlocked_def split: option.splits)
qed

text \<open>A request that is rejected, for every handler that starts with \<open>read_and_validate\<close>.\<close>

lemma rejected_served:
  assumes "server_frame h h'" and "owned (json_st h') = owned (json_st h)" and "manager_good L h"
    and "one_reply C rq rq'" and "res = Some (rq', Some [], h')"
  shows "\<exists>h'. served L owned C rq h h' res \<and> server_frame h h'"
  using servedI [OF assms(5) _ assms(4,2) server_frame_good [OF assms(3,1)]] assms(1) by blast

lemma take_served:
  assumes ok: "libs_ok W owned" and g: "manager_good (long_size W) h"
  shows "case request_queue W rq h of
      None \<Rightarrow> \<exists>h'. served (long_size W) owned (codes (lib_json W) (reject_code W False rq h)) rq h h'
        (connection_http_callback_take W rq h) \<and> server_frame h h'
    | Some m \<Rightarrow> \<exists>q ps. managed h m q \<and> body_params W rq h = Some ps \<and>
        (case pick (wanted (evhttp_find_header (lib_ev W) ps ''key'')) (content h q) of
           None \<Rightarrow> \<exists>h'. served (long_size W) owned (codes (lib_json W) HTTP_NOTFOUND) rq h h'
             (connection_http_callback_take W rq h) \<and> server_frame h h'
         | Some (e, es) \<Rightarrow> \<exists>h'. served (long_size W) owned (codes (lib_json W) HTTP_OK) rq h h'
             (connection_http_callback_take W rq h) \<and> content h' q = es \<and>
             (\<forall>p. p \<noteq> q \<longrightarrow> content h' p = content h p))"
  using ok g
proof (cases rule: enter_cases [where rq = rq and c = False])
  case (rejected rq' h')
  have "connection_http_callback_take W rq h = Some (rq', Some [], h')"
    using rejected(1) by (simp add: connection_http_callback_take_def)
  from rejected_served [OF rejected(2,3) g rejected(4) this] rejected(5) show ?thesis by simp
next
  case (new ps m q u h')
  then show ?thesis by simp
next
  case (found ps m)
  let ?key = "evhttp_find_header (lib_ev W) ps ''key''"
  let ?h = "charged h"
  note J = libs_okD(1,2) [OF ok] and g1 = charged_good [OF g]
  note inv = manager_good_heap [OF g1]
  obtain M q Q where q: "queue_at ?h q = Some Q" "manager_queue_get_queue m ?h = Some (Some q)" "managed ?h m q"
    by (rule queue_of [OF manager_good_inv [OF g1], of m]) (use found in auto)
  have mg: "managed h m q" using q(3) server_frame_content(5) [OF charged_frame, of h] by simp
  note ref = queue_take_refines_lemma [OF inv q(1), of ?key, unfolded wanted_fold json_content]
  have "case pick (wanted ?key) (content h q) of
           None \<Rightarrow> \<exists>h'. served (long_size W) owned (codes (lib_json W) HTTP_NOTFOUND) rq h h'
             (connection_http_callback_take W rq h) \<and> server_frame h h'
         | Some (e, es) \<Rightarrow> \<exists>h'. served (long_size W) owned (codes (lib_json W) HTTP_OK) rq h h'
             (connection_http_callback_take W rq h) \<and> content h' q = es \<and>
             (\<forall>p. p \<noteq> q \<longrightarrow> content h' p = content h p)"
  proof (cases "pick (wanted ?key) (content h q)")
    case None
    with ref have t: "queue_take q ?key ?h = Some (None, ?h)" by simp
    obtain j' where "served (long_size W) owned (codes (lib_json W) HTTP_NOTFOUND)
        rq h (?h\<lparr>json_st := j'\<rparr>) (connection_http_error W rq (Some ps) HTTP_NOTFOUND ''no item to take'' ?h)"
      by (rule error_served [OF ok g1, of h HTTP_NOTFOUND]) (simp_all add: HTTP_NOTFOUND_def)
    then have "served (long_size W) owned (codes (lib_json W) HTTP_NOTFOUND) rq h (?h\<lparr>json_st := j'\<rparr>)
        (connection_http_callback_take W rq h)"
      using found q t by (simp add: connection_http_callback_take_def find_param_def)
    moreover have "server_frame h (?h\<lparr>json_st := j'\<rparr>)" by (rule server_frame_trans [OF charged_frame server_frame_json])
    ultimately show ?thesis using None by auto
  next
    case (Some p)
    obtain e es where p: "p = (e, es)" by (cases p)
    with ref Some obtain a i where a: "a \<in> set (items Q)" "item_at ?h a = Some i"
      and t: "queue_take q ?key ?h = Some (Some a, taken q Q a i ?h)" "content (taken q Q a i ?h) q = es" by auto
    let ?t = "taken q Q a i ?h"
    have g2: "manager_good (long_size W) ?t" and l: "loose ?t a" by (rule taken_good [OF g1 q(1) a(2,1)])+
    obtain i' v where i': "item_at ?t a = Some i'" "i_value i' = Some v"
      using l by (auto simp: loose_def split: option.splits)
    have js: "json_st ?t = json_st h" by simp
    obtain object h2 rq' j' where
      b: "with_json (protocol_encode_item (lib_json W) a ?t) ?t = Some (object, h2)"
        "(if object = None then connection_http_error W rq (Some ps) 0 ''failed to encode item'' h2
          else connection_http_payload W rq (Some ps) object h2) = Some (rq', clear_params (Some ps), ?t\<lparr>json_st := j'\<rparr>)"
      and j': "owned j' = owned (json_st ?t)" "one_reply (codes (lib_json W) HTTP_OK) rq rq'"
      by (rule item_answer_cases [OF J i'])
    let ?f = "?t\<lparr>json_st := j'\<rparr>"
    have l': "loose ?f a" using l by (simp add: loose_def)
    have g3: "manager_good (long_size W) ?f" using g2 by simp
    have "connection_http_callback_take W rq h = Some (rq', clear_params (Some ps), drop_item a ?f)"
      using found q t b queue_item_free_loose [OF l'] by (simp add: connection_http_callback_take_def find_param_def)
    then have "served (long_size W) owned (codes (lib_json W) HTTP_OK) rq h (drop_item a ?f) (connection_http_callback_take W rq h)"
      by (rule servedI [OF _ clear_params_cases j'(2)])
         (use j'(1) js drop_item_good [OF g3 l'] in \<open>simp_all add: drop_item_def\<close>)
    moreover have "content (drop_item a ?f) p = content ?t p" for p
      using drop_item_view [OF manager_good_heap [OF g3] l', of p] by (simp add: same_view_def)
    moreover have "content ?t p = content h p" if "p \<noteq> q" for p
      using taken_view [OF inv q(1) a(2,1) that] by (simp add: same_view_def)
    ultimately show ?thesis using Some p t(2) by auto
  qed
  with found mg show ?thesis by auto
qed

lemma peek_served:
  assumes ok: "libs_ok W owned" and g: "manager_good (long_size W) h"
  shows "case request_queue W rq h of
      None \<Rightarrow> \<exists>h'. served (long_size W) owned (codes (lib_json W) (reject_code W False rq h)) rq h h'
        (connection_http_callback_peek W rq h) \<and> server_frame h h'
    | Some m \<Rightarrow> \<exists>q ps. managed h m q \<and> body_params W rq h = Some ps \<and>
        (\<exists>h'. served (long_size W) owned (codes (lib_json W)
            (case pick (wanted (evhttp_find_header (lib_ev W) ps ''key'')) (content h q) of
               None \<Rightarrow> HTTP_NOTFOUND | Some _ \<Rightarrow> HTTP_OK)) rq h h'
          (connection_http_callback_peek W rq h) \<and> server_frame h h')"
  using ok g
proof (cases rule: enter_cases [where rq = rq and c = False])
  case (rejected rq' h')
  have "connection_http_callback_peek W rq h = Some (rq', Some [], h')"
    using rejected(1) by (simp add: connection_http_callback_peek_def)
  from rejected_served [OF rejected(2,3) g rejected(4) this] rejected(5) show ?thesis by simp
next
  case (new ps m q u h')
  then show ?thesis by simp
next
  case (found ps m)
  let ?key = "evhttp_find_header (lib_ev W) ps ''key''"
  let ?h = "charged h"
  note J = libs_okD(1,2) [OF ok] and g1 = charged_good [OF g]
  note inv = manager_good_heap [OF g1]
  obtain M q Q where q: "queue_at ?h q = Some Q" "manager_queue_get_queue m ?h = Some (Some q)" "managed ?h m q"
    by (rule queue_of [OF manager_good_inv [OF g1], of m]) (use found in auto)
  have mg: "managed h m q" using q(3) server_frame_content(5) [OF charged_frame, of h] by simp
  have ct: "content h q = map (entry_of ?h) (items Q)" using q(1) by (simp add: content_def entry_of_def [abs_def])
  from inv q(1) show ?thesis
  proof (cases rule: queue_take_cases [where key = ?key])
    case none
    have pn: "pick (wanted ?key) (content h q) = None"
      using none(3) unfolding ct pick_None by (auto simp: wanted_def)
    obtain j' where "served (long_size W) owned (codes (lib_json W) HTTP_NOTFOUND)
        rq h (?h\<lparr>json_st := j'\<rparr>) (connection_http_error W rq (Some ps) HTTP_NOTFOUND ''no item to peek'' ?h)"
      by (rule error_served [OF ok g1, of h HTTP_NOTFOUND]) (simp_all add: HTTP_NOTFOUND_def)
    then have "served (long_size W) owned (codes (lib_json W) HTTP_NOTFOUND) rq h (?h\<lparr>json_st := j'\<rparr>)
        (connection_http_callback_peek W rq h)"
      using found q none by (simp add: connection_http_callback_peek_def find_param_def)
    moreover have "server_frame h (?h\<lparr>json_st := j'\<rparr>)" by (rule server_frame_trans [OF charged_frame server_frame_json])
    ultimately have "\<exists>h'. served (long_size W) owned (codes (lib_json W) HTTP_NOTFOUND) rq h h'
        (connection_http_callback_peek W rq h) \<and> server_frame h h'" by blast
    with pn found(2,3) mg show ?thesis by (simp del: split_paired_Ex) (rule exI [of _ q], simp)
  next
    case (some xs a ys i)
    have "pick (wanted ?key) (content h q) \<noteq> None"
      using some(1-4) unfolding ct pick_None by (auto simp: wanted_def item_key_def)
    obtain v where v: "i_value i = Some v" and i: "i_inserted i" "i_lockcount i = 0"
      by (rule good_item [OF g1 q(1), of a]) (use some(1,2) in auto)
    let ?i = "i\<lparr>i_lockcount := i_lockcount i + 1\<rparr>"
    let ?l = "set_item a ?i ?h"
    have iv: "item_at ?l a = Some ?i" "i_value ?i = Some v" using v by simp_all
    obtain object h2 rq' j' where
      b: "with_json (protocol_encode_item (lib_json W) a ?l) ?l = Some (object, h2)"
        "(if object = None then connection_http_error W rq (Some ps) 0 ''failed to encode item'' h2
          else connection_http_payload W rq (Some ps) object h2) = Some (rq', clear_params (Some ps), ?l\<lparr>json_st := j'\<rparr>)"
      and j': "owned j' = owned (json_st ?l)" "one_reply (codes (lib_json W) HTTP_OK) rq rq'"
      by (rule item_answer_cases [OF J iv])
    let ?f = "?h\<lparr>json_st := j'\<rparr>"
    have "queue_item_unlock a (?l\<lparr>json_st := j'\<rparr>) = Some ?f"
      using some(2) i by (simp add: queue_item_unlock_def set_item_def fun_upd_idem)
    then have "connection_http_callback_peek W rq h = Some (rq', clear_params (Some ps), ?f)"
      using found q some(2,6) b by (simp add: connection_http_callback_peek_def find_param_def queue_item_lock_def)
    then have "served (long_size W) owned (codes (lib_json W) HTTP_OK) rq h ?f (connection_http_callback_peek W rq h)"
      by (rule servedI [OF _ clear_params_cases j'(2)]) (use j'(1) g1 in simp_all)
    moreover have "server_frame h ?f" by (rule server_frame_trans [OF charged_frame server_frame_json])
    ultimately have "\<exists>h'. served (long_size W) owned (codes (lib_json W) HTTP_OK) rq h h'
        (connection_http_callback_peek W rq h) \<and> server_frame h h'" by blast
    with found(2,3) mg \<open>pick (wanted ?key) (content h q) \<noteq> None\<close> show ?thesis
      by (simp del: split_paired_Ex) (rule exI [of _ q], auto)
  qed
qed

text \<open>The contract of a waiter's callback in the server: it also balances its json-c references.\<close>

definition server_contract :: "nat \<Rightarrow> ('j \<Rightarrow> addr set) \<Rightarrow> ('j, 'z) server_runner \<Rightarrow> bool" where
  "server_contract L owned run \<longleftrightarrow> (\<forall>f a arg h. manager_good L h \<and> loose h a \<longrightarrow>
     (\<exists>h'. run f a arg h = Some h' \<and> manager_good L h' \<and> loose h' a \<and> owned (json_st h') = owned (json_st h)))"

definition owns :: "('j \<Rightarrow> addr set) \<Rightarrow> addr set \<Rightarrow> ('j, 'z) server_mem_ext \<Rightarrow> bool" where
  "owns owned S x \<longleftrightarrow> (\<exists>h :: ('j, 'z) server. manager_mem.more h = x \<and> owned (json_st h) = S)"

lemma owns_more [simp]: "owns owned S (manager_mem.more h) \<longleftrightarrow> owned (json_st h) = S"
  for h :: "('j, 'z) server"
  unfolding owns_def using server_more by metis

lemma contract_owns: "server_contract L owned run \<Longrightarrow> manager_keeps L (owns owned S) run"
  unfolding server_contract_def manager_keeps_def by (metis owns_more)

lemma put_served:
  assumes ok: "libs_ok W owned" and c: "server_contract (long_size W) owned run" and g: "manager_good (long_size W) h"
  shows "case request_queue W rq h of
      None \<Rightarrow> \<exists>h'. served (long_size W) owned (codes (lib_json W) (reject_code W False rq h)) rq h h'
        (connection_http_callback_put W run rq h) \<and> server_frame h h'
    | Some m \<Rightarrow> \<exists>q ps. managed h m q \<and> body_params W rq h = Some ps \<and>
        (case evhttp_find_header (lib_ev W) ps ''value'' of
           None \<Rightarrow> \<exists>h'. served (long_size W) owned (codes (lib_json W) HTTP_BADREQUEST) rq h h'
             (connection_http_callback_put W run rq h) \<and> server_frame h h'
         | Some v \<Rightarrow> \<exists>r h1 h'. queue_put run q (evhttp_find_header (lib_ev W) ps ''key'') v (charged h) = Some (r, h1) \<and>
             served (long_size W) owned (codes (lib_json W) (if r < 0 then HTTP_INTERNAL else HTTP_OK)) rq h h'
             (connection_http_callback_put W run rq h) \<and> server_frame h1 h')"
  using ok g
proof (cases rule: enter_cases [where rq = rq and c = False])
  case (rejected rq' h')
  have "connection_http_callback_put W run rq h = Some (rq', Some [], h')"
    using rejected(1) by (simp add: connection_http_callback_put_def)
  from rejected_served [OF rejected(2,3) g rejected(4) this] rejected(5) show ?thesis by simp
next
  case (new ps m q u h')
  then show ?thesis by simp
next
  case (found ps m)
  let ?key = "evhttp_find_header (lib_ev W) ps ''key''" and ?val = "evhttp_find_header (lib_ev W) ps ''value''"
  let ?h = "charged h"
  note g1 = charged_good [OF g]
  obtain M q Q where q: "queue_at ?h q = Some Q" "manager_queue_get_queue m ?h = Some (Some q)" "managed ?h m q"
    by (rule queue_of [OF manager_good_inv [OF g1], of m]) (use found in auto)
  have mg: "managed h m q" using q(3) server_frame_content(5) [OF charged_frame, of h] by simp
  show ?thesis
  proof (cases ?val)
    case None
    obtain j' where "served (long_size W) owned (codes (lib_json W) HTTP_BADREQUEST) rq h (?h\<lparr>json_st := j'\<rparr>)
        (connection_http_error W rq (Some ps) HTTP_BADREQUEST (''missing parameter '' @ [CHR 0x27] @ ''value'' @ [CHR 0x27]) ?h)"
      by (rule error_served [OF ok g1, of h HTTP_BADREQUEST]) (simp_all add: HTTP_BADREQUEST_def)
    then have "served (long_size W) owned (codes (lib_json W) HTTP_BADREQUEST) rq h (?h\<lparr>json_st := j'\<rparr>)
        (connection_http_callback_put W run rq h)"
      using found None by (simp add: connection_http_callback_put_def find_param_def)
    moreover have "server_frame h (?h\<lparr>json_st := j'\<rparr>)" by (rule server_frame_trans [OF charged_frame server_frame_json])
    ultimately show ?thesis using found mg None by auto
  next
    case (Some v)
    obtain r h1 where p: "queue_put run q ?key v ?h = Some (r, h1)" "manager_good (long_size W) h1"
      "owned (json_st h1) = owned (json_st h)"
      using manager_keeps_put [OF contract_owns [OF c, of "owned (json_st h)"] g1 _ q(1), of ?key v] by auto
    have "\<exists>j'. served (long_size W) owned (codes (lib_json W) (if r < 0 then HTTP_INTERNAL else HTTP_OK)) rq h
        (h1\<lparr>json_st := j'\<rparr>) (if r < 0 then connection_http_error W rq (Some ps) 0 ''failed to put item'' h1
             else connection_http_payload W rq (Some ps) None h1)"
    proof (cases "r < 0")
      case True
      show ?thesis by (rule failure_served [OF ok p(2,3)]) (use True in auto)
    next
      case False
      show ?thesis by (rule payload_served [OF ok p(2), of None h]) (use False p(3) in auto)
    qed
    then obtain j' where "served (long_size W) owned (codes (lib_json W) (if r < 0 then HTTP_INTERNAL else HTTP_OK)) rq h
        (h1\<lparr>json_st := j'\<rparr>) (connection_http_callback_put W run rq h)"
      using found q(2) Some p(1) by (auto simp: connection_http_callback_put_def find_param_def cong: if_cong)
    moreover have "server_frame h1 (h1\<lparr>json_st := j'\<rparr>)" by simp
    ultimately have "\<exists>r h1 h'. queue_put run q ?key v (charged h) = Some (r, h1) \<and>
             served (long_size W) owned (codes (lib_json W) (if r < 0 then HTTP_INTERNAL else HTTP_OK)) rq h h'
             (connection_http_callback_put W run rq h) \<and> server_frame h1 h'" using p(1) by blast
    then show ?thesis
      unfolding found(3) option.case
      by (intro exI [of _ q] exI [of _ ps] conjI) (use found(2) mg Some in \<open>simp_all only: option.case\<close>)
  qed
qed

text \<open>Listing the queues.\<close>

lemma foreach_list:
  assumes J: "json_contract (lib_json W) owned"
  shows "\<forall>m \<in> set ms. mqueue_at h m \<noteq> None \<Longrightarrow> l \<in> owned j \<Longrightarrow>
    \<exists>r j'. foreach_loop (list_foreach_callback W h l) ms j = Some (r, j') \<and> owned j' = owned j \<and>
      (json_roomy (lib_json W) \<longrightarrow> r = 1)"
proof (induction ms arbitrary: j)
  case (Cons m ms)
  then obtain i where i: "manager_queue_get_id m h = Some i" by (auto simp: manager_queue_get_id_def)
  have stop: ?case
    if "list_foreach_callback W h l m j = Some (0, j')" "owned j' = owned j" "\<not> json_roomy (lib_json W)" for j'
    using that by simp
  from json_gives(3) [OF J, of j i] show ?case
  proof (cases rule: gives_cases)
    case (none j1)
    have "\<not> json_roomy (lib_json W)" using none(1) unfolding json_roomy_def by (metis fst_conv)
    with none i show ?thesis by (intro stop [of j1]) (simp_all add: list_foreach_callback_def)
  next
    case (some s j1)
    obtain r j2 where a: "json_object_array_add (lib_json W) l s j1 = Some (r, j2)"
      "owned j2 = (if r = 0 then owned j1 - {s} else owned j1)"
      by (rule json_array [OF J, of l j1 s]) (use some Cons.prems(2) in auto)
    show ?thesis
    proof (cases "r = 0")
      case True
      with a i some have "list_foreach_callback W h l m j = Some (1, j2)" "owned j2 = owned j"
        by (simp_all add: list_foreach_callback_def)
      with Cons.IH [of j2] Cons.prems show ?thesis by simp
    next
      case False
      obtain j3 where p: "json_put (lib_json W) (Some s) j2 = Some j3" "owned j3 = owned j2 - set_option (Some s)"
        by (rule json_release [OF J, of "Some s" j2]) (use a some False in auto)
      have "\<not> json_roomy (lib_json W)" using a(1) False unfolding json_roomy_def by blast
      with a p i some False show ?thesis by (intro stop [of j3]) (simp_all add: list_foreach_callback_def)
    qed
  qed
qed simp

lemma list_served:
  assumes ok: "libs_ok W owned" and g: "manager_good (long_size W) h"
  shows "\<exists>h'. served (long_size W) owned
      (codes (lib_json W) (if body_params W rq h = None then HTTP_INTERNAL else HTTP_OK)) rq h h'
      (connection_http_callback_list W rq h) \<and> server_frame h h'"
  using libs_okD(1,2) [OF ok]
proof (cases rule: read_cases [where rq = rq and h = h])
  case (rejected rq' j')
  have "server_frame h ((charged h)\<lparr>json_st := j'\<rparr>)" by (rule server_frame_trans [OF charged_frame server_frame_json])
  moreover have "connection_http_callback_list W rq h = Some (rq', Some [], (charged h)\<lparr>json_st := j'\<rparr>)"
    using rejected(1) by (simp add: connection_http_callback_list_def)
  ultimately show ?thesis
    using rejected_served [OF _ _ g rejected(3), of "(charged h)\<lparr>json_st := j'\<rparr>" owned] rejected(2,4) by simp
next
  case (parsed ps)
  note J = libs_okD(1,2) [OF ok] and g1 = charged_good [OF g]
  have fr: "server_frame h ((charged h)\<lparr>json_st := j'\<rparr>)" for j'
    by (rule server_frame_trans [OF charged_frame server_frame_json])
  have start: "connection_http_callback_list W rq h = do {
       (list, h) \<leftarrow> with_json (\<lambda>j. Some (json_object_new_array (lib_json W) j)) (charged h);
       case list of
         None \<Rightarrow> connection_http_error W rq (Some ps) 0 ''failed to create list'' h
       | Some l \<Rightarrow> do {
           (r, h) \<leftarrow> with_json (\<lambda>j. manager_queue_foreach (list_foreach_callback W h l) j h) h;
           if r \<noteq> 1 then do {
             h \<leftarrow> put_json W (Some l) h;
             connection_http_error W rq (Some ps) 0 ''failed to list queues'' h }
           else connection_http_payload W rq (Some ps) (Some l) h } }"
    using parsed by (simp add: connection_http_callback_list_def)
  have fail: ?thesis
    if e: "connection_http_callback_list W rq h = connection_http_error W rq (Some ps) 0 message ((charged h)\<lparr>json_st := j\<rparr>)"
      and o: "owned j = owned (json_st h)" and r: "\<not> json_roomy (lib_json W)" for message j
  proof -
    obtain j' where "served (long_size W) owned (codes (lib_json W) HTTP_INTERNAL) rq h
        ((charged h)\<lparr>json_st := j, json_st := j'\<rparr>) (connection_http_callback_list W rq h)"
      unfolding e by (rule failure_served [OF ok, of "long_size W" "(charged h)\<lparr>json_st := j\<rparr>" h]) (use g1 o in auto)
    from served_mono [OF this codes_internal [OF r, of HTTP_OK]] fr [of j'] parsed show ?thesis by auto
  qed
  from json_gives(2) [OF J(1), of "json_st h"] show ?thesis
  proof (cases rule: gives_cases)
    case (none j1)
    have "\<not> json_roomy (lib_json W)" using none(1) unfolding json_roomy_def by (metis fst_conv)
    with none show ?thesis by (intro fail [of "''failed to create list''" j1]) (simp_all add: start with_json_def)
  next
    case (some l j1)
    let ?h1 = "(charged h)\<lparr>json_st := j1\<rparr>"
    have ms: "\<forall>m \<in> set (ctx_queues ?h1). mqueue_at ?h1 m \<noteq> None"
      using manager_good_inv [OF g] by (auto simp: manager_inv_def)
    obtain r j2 where f: "foreach_loop (list_foreach_callback W ?h1 l) (ctx_queues ?h1) j1 = Some (r, j2)"
      "owned j2 = owned j1" "json_roomy (lib_json W) \<longrightarrow> r = 1"
      using foreach_list [OF J(1) ms, of l j1] some by auto
    show ?thesis
    proof (cases "r = 1")
      case False
      obtain j3 where p: "json_put (lib_json W) (Some l) j2 = Some j3" "owned j3 = owned j2 - set_option (Some l)"
        by (rule json_release [OF J(1), of "Some l" j2]) (use f some in auto)
      show ?thesis
        by (rule fail [of "''failed to list queues''" j3])
           (use f p some False in \<open>auto simp: start with_json_def put_json_def manager_queue_foreach_def\<close>)
    next
      case True
      let ?h2 = "(charged h)\<lparr>json_st := j2\<rparr>"
      obtain j' where "served (long_size W) owned (codes (lib_json W) HTTP_OK) rq h (?h2\<lparr>json_st := j'\<rparr>)
          (connection_http_payload W rq (Some ps) (Some l) ?h2)"
        by (rule payload_served [OF ok, of "long_size W" ?h2 "Some l" h]) (use g1 f some in auto)
      then have "served (long_size W) owned (codes (lib_json W) HTTP_OK) rq h ((charged h)\<lparr>json_st := j'\<rparr>)
          (connection_http_callback_list W rq h)"
        using some(1) f True by (simp add: start with_json_def manager_queue_foreach_def)
      with fr [of j'] parsed show ?thesis by auto
    qed
  qed
qed

text \<open>Describing a queue.\<close>

lemma info_cleanup_served:
  assumes ok: "libs_ok W owned" and g: "manager_good L h1" and i: "set_option info \<subseteq> owned (json_st h1)"
    and d: "set_option detail \<subseteq> owned (json_st h1) - set_option info"
    and o: "owned (json_st h1) - set_option info - set_option detail = owned (json_st h)"
  obtains j' where "served L owned (codes (lib_json W) HTTP_INTERNAL) rq h (h1\<lparr>json_st := j'\<rparr>)
    (info_cleanup W rq params info detail h1)"
proof -
  note J = libs_okD(1) [OF ok]
  obtain j1 where 1: "json_put (lib_json W) info (json_st h1) = Some j1" "owned j1 = owned (json_st h1) - set_option info"
    by (rule json_release [OF J i])
  obtain j2 where 2: "json_put (lib_json W) detail j1 = Some j2" "owned j2 = owned j1 - set_option detail"
    by (rule json_release [OF J, of detail j1]) (use d 1 in auto)
  let ?h2 = "h1\<lparr>json_st := j2\<rparr>"
  obtain j' where "served L owned (codes (lib_json W) HTTP_INTERNAL) rq h (?h2\<lparr>json_st := j'\<rparr>)
      (connection_http_error W rq params 0 ''failed to encode queue info'' ?h2)"
    by (rule failure_served [OF ok, of L ?h2 h]) (use g o 1 2 in auto)
  with 1 2 that show thesis by (simp add: info_cleanup_def put_json_def)
qed

lemma info_served:
  assumes ok: "libs_ok W owned" and g: "manager_good (long_size W) h"
  shows "\<exists>h'. served (long_size W) owned (codes (lib_json W)
        (case request_queue W rq h of None \<Rightarrow> reject_code W False rq h | Some m \<Rightarrow> HTTP_OK)) rq h h'
      (connection_http_callback_info W rq h) \<and> server_frame h h'"
  using ok g
proof (cases rule: enter_cases [where rq = rq and c = False])
  case (rejected rq' h')
  have "connection_http_callback_info W rq h = Some (rq', Some [], h')"
    using rejected(1) by (simp add: connection_http_callback_info_def)
  from rejected_served [OF rejected(2,3) g rejected(4) this] rejected(5) show ?thesis by simp
next
  case (new ps m q u h')
  then show ?thesis by simp
next
  case (found ps m)
  let ?h = "charged h"
  note J = libs_okD(1,2) [OF ok] and g1 = charged_good [OF g]
  have "m \<in> set (ctx_queues ?h)" using found by simp
  then obtain M :: manager_queue where q: "manager_queue_get_id m ?h = Some (mq_id M)"
    by (rule queue_of [OF manager_good_inv [OF g1]]) blast
  have fr: "server_frame h (?h\<lparr>json_st := j'\<rparr>)" for j'
    by (rule server_frame_trans [OF charged_frame server_frame_json])
  have fail: ?thesis
    if e: "connection_http_callback_info W rq h = info_cleanup W rq (Some ps) info detail (?h\<lparr>json_st := j\<rparr>)"
      and o: "set_option info \<subseteq> owned j" "set_option detail \<subseteq> owned j - set_option info"
        "owned j - set_option info - set_option detail = owned (json_st h)"
      and r: "\<not> json_roomy (lib_json W)" for info detail j
  proof -
    obtain j' where "served (long_size W) owned (codes (lib_json W) HTTP_INTERNAL) rq h (?h\<lparr>json_st := j, json_st := j'\<rparr>)
        (connection_http_callback_info W rq h)"
      unfolding e by (rule info_cleanup_served [OF ok, of "long_size W" "?h\<lparr>json_st := j\<rparr>" info detail h]) (use o g1 in auto)
    from served_mono [OF this codes_internal [OF r, of HTTP_OK]] fr [of j'] found show ?thesis by auto
  qed
  from json_gives(3) [OF J(1), of "json_st h" "mq_id M"] show ?thesis
  proof (cases rule: gives_cases)
    case (none j1)
    have "\<not> json_roomy (lib_json W)" using none(1) unfolding json_roomy_def by (metis fst_conv)
    with none found q show ?thesis
      by (intro fail [of None None j1]) (simp_all add: connection_http_callback_info_def with_json_def)
  next
    case (some d j1)
    obtain c j2 where c: "json_object_new_object (lib_json W) j1 = (Some c, j2)" using new_object_wraps [OF J(2)] by blast
    with json_gives(1) [OF J(1), of j1] have o2: "c \<notin> owned j1" "owned j2 = insert c (owned j1)"
      by (simp_all add: gives_def)
    obtain r j3 where a: "json_object_object_add_ex (lib_json W) c ''name'' (Some d) j2 = Some (r, j3)"
      "owned j3 = (if r = 0 then owned j2 - set_option (Some d) else owned j2)"
      by (rule json_add [OF J(1), of c j2 "Some d" "''name''"]) (use o2 some in auto)
    have r: "r = 0" by (rule add_wraps [OF J(2) a(1)])
    let ?h3 = "?h\<lparr>json_st := j3\<rparr>"
    obtain j' where "served (long_size W) owned (codes (lib_json W) HTTP_OK) rq h (?h3\<lparr>json_st := j'\<rparr>)
        (connection_http_payload W rq (Some ps) (Some c) ?h3)"
      by (rule payload_served [OF ok, of "long_size W" ?h3 "Some c" h]) (use g1 a r o2 some in auto)
    then have "served (long_size W) owned (codes (lib_json W) HTTP_OK) rq h (?h\<lparr>json_st := j'\<rparr>)
        (connection_http_callback_info W rq h)"
      using found q some(1) c a r by (simp add: connection_http_callback_info_def with_json_def)
    with fr [of j'] found show ?thesis by auto
  qed
qed

text \<open>Creating and deleting queues: both go on with a queue that was found or has just been made.\<close>

lemma entered:
  assumes ok: "libs_ok W owned" and g: "manager_good (long_size W) h"
  obtains (rejected) rq' h' where "read_and_validate W rq True (Some []) h = Some (None, rq', Some [], h')"
      "server_frame h h'" "owned (json_st h') = owned (json_st h)"
      "one_reply (codes (lib_json W) (reject_code W True rq h)) rq rq'" "request_queue W rq h = None"
    | (entered) ps m h1 where "read_and_validate W rq True (Some []) h = Some (Some m, rq, Some ps, h1)"
      "m \<in> set (ctx_queues h1)" "manager_good (long_size W) h1" "json_st h1 = json_st h"
      "case request_queue W rq h of Some m' \<Rightarrow> m' = m \<and> h1 = charged h
       | None \<Rightarrow> \<exists>q u. created (long_size W) m q u (charged h) h1"
  using ok g
proof (cases rule: enter_cases [where rq = rq and c = True])
  case (rejected rq' h')
  then show thesis by (rule that(1))
next
  case (found ps m)
  with that(2) [of m ps "charged h"] charged_good [OF g] show thesis by simp
next
  case (new ps m q u h1)
  have inv: "manager_inv (long_size W) h1"
    by (rule created_inv [OF manager_good_inv [OF charged_good [OF g]] new(5,6)])
  have "manager_good (long_size W) h1"
    by (rule manager_good_same_items [OF charged_good [OF g] inv]) (use new(5) in \<open>simp_all add: created_def\<close>)
  moreover have "json_st h1 = json_st h" "m \<in> set (ctx_queues h1)"
    using new(5) by (auto simp: created_def server_more)
  ultimately show thesis using that(2) [of m ps h1] new by auto
qed

lemma freed_more [simp]: "manager_mem.more (mqueue_freed m q Q h) = manager_mem.more h"
  by (simp add: mqueue_freed_def released_def)

lemma freed_good:
  assumes g: "manager_good L h" and M: "mqueue_at h m = Some M" "mq_q M = Some q" "queue_at h q = Some Q"
  shows "manager_good L (mqueue_freed m q Q h)"
  by (rule manager_good_same_items [OF g mqueue_freed_inv [OF manager_good_inv [OF g] M]])
     (auto simp: mqueue_freed_def released_def restrict_map_def split: if_splits)

lemma json_freed [simp]: "json_st (mqueue_freed m q Q h) = json_st h"
  using freed_more [of m q Q h] by (simp only: server_more)

lemma new_served:
  assumes ok: "libs_ok W owned" and g: "manager_good (long_size W) h"
  shows "(\<exists>h'. request_queue W rq h = None \<and> served (long_size W) owned (codes (lib_json W) (reject_code W True rq h))
        rq h h' (connection_http_callback_new W rq h) \<and> server_frame h h') \<or>
    (\<exists>h'. served (long_size W) owned (codes (lib_json W) HTTP_OK) rq h h' (connection_http_callback_new W rq h) \<and>
      (json_roomy (lib_json W) \<longrightarrow> (case request_queue W rq h of Some m \<Rightarrow> server_frame h h'
         | None \<Rightarrow> \<exists>m q u h1. created (long_size W) m q u (charged h) h1 \<and> server_frame h1 h')))"
  using ok g
proof (cases rule: entered [where rq = rq])
  case (rejected rq' h')
  have "connection_http_callback_new W rq h = Some (rq', Some [], h')"
    using rejected(1) by (simp add: connection_http_callback_new_def)
  from rejected_served [OF rejected(2,3) g rejected(4) this] rejected(5) show ?thesis by simp
next
  case (entered ps m h1)
  note J = libs_okD(1) [OF ok]
  obtain M :: manager_queue and q Q where M: "mqueue_at h1 m = Some M" "mq_q M = Some q" "queue_at h1 q = Some Q"
    "manager_queue_get_id m h1 = Some (mq_id M)"
    by (rule queue_of [OF manager_good_inv [OF entered(3)] entered(2)]) blast
  from json_gives(3) [OF J, of "json_st h" "mq_id M"] show ?thesis
  proof (cases rule: gives_cases)
    case (none j1)
    have r: "\<not> json_roomy (lib_json W)" using none(1) unfolding json_roomy_def by (metis fst_conv)
    let ?h1 = "h1\<lparr>json_st := j1\<rparr>"
    have g1: "manager_good (long_size W) ?h1" using entered(3) by simp
    have M1: "mqueue_at ?h1 m = Some M" "mq_q M = Some q" "queue_at ?h1 q = Some Q" using M by simp_all
    obtain j' where "served (long_size W) owned (codes (lib_json W) HTTP_INTERNAL) rq h
        ((mqueue_freed m q Q ?h1)\<lparr>json_st := j'\<rparr>)
        (connection_http_error W rq (Some ps) 0 ''failed to encode queue name'' (mqueue_freed m q Q ?h1))"
      by (rule failure_served [OF ok freed_good [OF g1 M1], of h]) (use none in auto)
    then have "served (long_size W) owned (codes (lib_json W) HTTP_INTERNAL) rq h
        ((mqueue_freed m q Q ?h1)\<lparr>json_st := j'\<rparr>) (connection_http_callback_new W rq h)"
      using entered(1,4) M(4) none(1) manager_queue_free_eq [OF manager_good_inv [OF g1] M1]
      by (simp add: connection_http_callback_new_def with_json_def)
    from served_mono [OF this codes_internal [OF r, of HTTP_OK]] r show ?thesis by blast
  next
    case (some name j1)
    let ?h1 = "h1\<lparr>json_st := j1\<rparr>"
    obtain j' where "served (long_size W) owned (codes (lib_json W) HTTP_OK) rq h (?h1\<lparr>json_st := j'\<rparr>)
        (connection_http_payload W rq (Some ps) (Some name) ?h1)"
      by (rule payload_served [OF ok, of "long_size W" ?h1 "Some name" h]) (use entered(3) some in auto)
    then have "served (long_size W) owned (codes (lib_json W) HTTP_OK) rq h (h1\<lparr>json_st := j'\<rparr>)
        (connection_http_callback_new W rq h)"
      using entered(1,4) M(4) some(1) by (simp add: connection_http_callback_new_def with_json_def)
    moreover have "case request_queue W rq h of Some m \<Rightarrow> server_frame h (h1\<lparr>json_st := j'\<rparr>)
        | None \<Rightarrow> \<exists>m q u h2. created (long_size W) m q u (charged h) h2 \<and> server_frame h2 (h1\<lparr>json_st := j'\<rparr>)"
    proof (cases "request_queue W rq h")
      case None
      with entered(5) obtain q u where "created (long_size W) m q u (charged h) h1" by auto
      moreover have "server_frame h1 (h1\<lparr>json_st := j'\<rparr>)" by simp
      ultimately show ?thesis unfolding None option.case by blast
    next
      case (Some m')
      with entered(5) have "h1 = charged h" by simp
      then show ?thesis using server_frame_trans [OF charged_frame server_frame_json, of h j'] Some by simp
    qed
    ultimately show ?thesis by blast
  qed
qed

lemma marked_more [simp]: "manager_mem.more (wants_marked P ws h) = manager_mem.more h"
  by (simp add: wants_marked_def)

definition deleted :: "addr \<Rightarrow> addr \<Rightarrow> queue \<Rightarrow> ('j, 'z) server \<Rightarrow> ('j, 'z) server" where
  "deleted m q Q h = mqueue_freed m q Q (wants_marked (\<lambda>W. want_queue W = Some m) (ctx_wants h) h)"

lemma delete_served:
  assumes ok: "libs_ok W owned" and g: "manager_good (long_size W) h"
  shows "(\<exists>rq' h'. read_and_validate W rq True (Some []) h = Some (None, rq', Some [], h') \<and>
      request_queue W rq h = None \<and> served (long_size W) owned (codes (lib_json W) (reject_code W True rq h))
        rq h h' (connection_http_callback_delete W rq h) \<and> server_frame h h') \<or>
    (\<exists>h'. served (long_size W) owned (codes (lib_json W) HTTP_OK) rq h h' (connection_http_callback_delete W rq h) \<and>
      (case request_queue W rq h of
         Some m \<Rightarrow> \<exists>q Q. managed h m q \<and> queue_at h q = Some Q \<and> server_frame (deleted m q Q (charged h)) h'
       | None \<Rightarrow> ctx_queues h' = ctx_queues h \<and> queue_at h' = queue_at h \<and> mqueue_at h' = mqueue_at h \<and>
           item_at h' = item_at h))"
  using ok g
proof (cases rule: entered [where rq = rq])
  case (rejected rq' h')
  have "connection_http_callback_delete W rq h = Some (rq', Some [], h')"
    using rejected(1) by (simp add: connection_http_callback_delete_def)
  with servedI [OF this _ rejected(4,3) server_frame_good [OF g rejected(2)]] rejected(1,2,5) show ?thesis by blast
next
  case (entered ps m h1)
  obtain M :: manager_queue and q Q where M: "mqueue_at h1 m = Some M" "mq_q M = Some q" "queue_at h1 q = Some Q" "managed h1 m q"
    by (rule queue_of [OF manager_good_inv [OF entered(3)] entered(2)]) blast
  let ?w = "wants_marked (\<lambda>W. want_queue W = Some m) (ctx_wants h1) h1"
  have gw: "manager_good (long_size W) ?w" by (rule wants_marked_good [OF entered(3)])
  have Mw: "mqueue_at ?w m = Some M" "mq_q M = Some q" "queue_at ?w q = Some Q" using M by (simp_all add: wants_marked_def)
  let ?d = "deleted m q Q h1"
  have gd: "manager_good (long_size W) ?d" using freed_good [OF gw Mw] by (simp add: deleted_def)
  have jd: "json_st ?d = json_st h"
    using entered(4) marked_more [of "\<lambda>W. want_queue W = Some m" "ctx_wants h1" h1]
    by (simp add: deleted_def server_more del: marked_more)
  obtain j' where "served (long_size W) owned (codes (lib_json W) HTTP_OK) rq h (?d\<lparr>json_st := j'\<rparr>)
      (connection_http_payload W rq (Some ps) None ?d)"
    by (rule payload_served [OF ok gd, of None h]) (use jd in auto)
  then have "served (long_size W) owned (codes (lib_json W) HTTP_OK) rq h (?d\<lparr>json_st := j'\<rparr>)
      (connection_http_callback_delete W rq h)"
    using entered(1) manager_cancel(1) [OF manager_good_inv [OF entered(3)]]
      manager_queue_free_eq [OF manager_good_inv [OF gw] Mw]
    by (simp add: connection_http_callback_delete_def deleted_def)
  moreover have "case request_queue W rq h of
         Some m \<Rightarrow> \<exists>q Q. managed h m q \<and> queue_at h q = Some Q \<and> server_frame (deleted m q Q (charged h)) (?d\<lparr>json_st := j'\<rparr>)
       | None \<Rightarrow> ctx_queues (?d\<lparr>json_st := j'\<rparr>) = ctx_queues h \<and> queue_at (?d\<lparr>json_st := j'\<rparr>) = queue_at h \<and>
           mqueue_at (?d\<lparr>json_st := j'\<rparr>) = mqueue_at h \<and> item_at (?d\<lparr>json_st := j'\<rparr>) = item_at h"
  proof (cases "request_queue W rq h")
    case None
    with entered(5) obtain q' u where c: "created (long_size W) m q' u (charged h) h1" by auto
    have "mqueue_at h m = None" using c by (simp add: created_def)
    then have m: "m \<notin> set (ctx_queues h)" using manager_good_inv [OF g] by (metis domIff manager_inv_def)
    have qq: "q' = q" "Q = zero_queue\<lparr>uuid := u\<rparr>" using c M by (auto simp: created_def)
    have "f |` UNIV = f" for f :: "addr \<rightharpoonup> queue_item" by (simp add: restrict_map_def)
    then show ?thesis
      using c m qq None by (simp add: deleted_def mqueue_freed_def released_def wants_marked_def created_def
          zero_queue_def remove1_append fun_upd_idem)
  next
    case (Some m')
    with entered(5) have e: "m' = m" "h1 = charged h" by simp_all
    have "managed h m q" "queue_at h q = Some Q" using M(3,4) e server_frame_content(5) [OF charged_frame, of h] by simp_all
    moreover have "server_frame (deleted m q Q (charged h)) (?d\<lparr>json_st := j'\<rparr>)" using e by simp
    ultimately show ?thesis using Some e by auto
  qed
  ultimately show ?thesis by blast
qed

lemma endpoint_served:
  assumes ok: "libs_ok W owned" and c: "server_contract (long_size W) owned run" and g: "manager_good (long_size W) h"
  shows "\<exists>C h'. served (long_size W) owned C rq h h' (call_endpoint W run e rq h)"
proof -
  have bad: "\<exists>C h'. served (long_size W) owned C rq h h'
      (connection_http_error W rq None HTTP_BADMETHOD ''method not supported'' h)"
    by (rule error_served [OF ok g refl, of HTTP_BADMETHOD]) (auto simp: HTTP_BADMETHOD_def)
  have take: "\<exists>C h'. served (long_size W) owned C rq h h' (connection_http_callback_take W rq h)"
    using take_served [OF ok g, of rq] by (auto split: option.splits prod.splits) blast+
  have peek: "\<exists>C h'. served (long_size W) owned C rq h h' (connection_http_callback_peek W rq h)"
    using peek_served [OF ok g, of rq] by (auto split: option.splits)
  have put: "\<exists>C h'. served (long_size W) owned C rq h h' (connection_http_callback_put W run rq h)"
    using put_served [OF ok c g, of rq] by (auto split: option.splits if_splits) blast+
  show ?thesis
  proof (cases e)
    case Callback_queues
    then show ?thesis
      using bad list_served [OF ok g, of rq] new_served [OF ok g, of rq]
      by (cases "http_command rq") (auto simp: connection_http_callback_queues_def)
  next
    case Callback_queue
    then show ?thesis
      using bad info_served [OF ok g, of rq] delete_served [OF ok g, of rq]
      by (cases "http_command rq") (auto simp: connection_http_callback_queue_def)
  qed (use take peek put in simp_all)
qed

end
