(* ===== verification/Connection_Http_Spec.thy ===== *)
theory Connection_Http_Spec
  imports Connection_Http_Correct
begin

text \<open>
  The properties of the HTTP handlers: every request is answered once, the effect and the code of
  taking, peeking, putting and deleting, the guard of protected routes, and the payload that is
  released twice.
\<close>

section \<open>Authentication\<close>

text \<open>Checking a password only allocates memory used by value.\<close>

definition only_alloc :: "'z mem_scheme \<Rightarrow> 'z mem_scheme \<Rightarrow> bool" where
  "only_alloc h h' \<longleftrightarrow> (\<exists>n. h' = h\<lparr>alloc_count := n\<rparr>)"

lemma only_alloc_refl [simp]: "only_alloc h h"
  unfolding only_alloc_def by (rule exI [of _ "alloc_count h"]) simp

lemma only_alloc_count [simp]: "only_alloc h (h\<lparr>alloc_count := n\<rparr>)"
  unfolding only_alloc_def by blast

lemma only_alloc_trans: "only_alloc h h' \<Longrightarrow> only_alloc h' h'' \<Longrightarrow> only_alloc h h''"
  unfolding only_alloc_def by (elim exE) (simp, metis)

lemma alloc_block_only: "alloc_block h = (b, h') \<Longrightarrow> only_alloc h h'"
  by (auto simp: alloc_block_def)

lemma strdup_only: "strdup s h = (r, h') \<Longrightarrow> only_alloc h h'"
  by (auto simp: strdup_def)

lemma extend_only: "auth_string_extend l e h = (r, h') \<Longrightarrow> only_alloc h h'"
  by (auto simp: auth_string_extend_def dest: alloc_block_only split: prod.splits bool.splits)

lemma read_line_loop_only: "read_line_loop line s h = Some (r, h') \<Longrightarrow> only_alloc h h'"
proof (induction line s h rule: read_line_loop.induct)
  case (1 line s h)
  show ?case
  proof (cases "fgets LINE_SIZE s")
    case None
    with 1(2) show ?thesis by (simp add: read_line_loop.simps [of line s h])
  next
    case (Some br)
    obtain b r1 where br: "br = (b, r1)" by force
    obtain y h1 where y: "auth_string_extend line (c_string b) h = (y, h1)" by force
    show ?thesis
    proof (cases y)
      case None
      with 1(2) Some br y extend_only [OF y] show ?thesis by (auto simp: read_line_loop.simps [of line s h])
    next
      case ys: (Some l1)
      show ?thesis
      proof (cases "c_string b = [] \<or> last (c_string b) = newline")
        case True
        with 1(2) Some br y ys extend_only [OF y] show ?thesis
          by (auto simp: read_line_loop.simps [of line s h] split: if_splits)
      next
        case False
        with 1(2) Some br y ys have "read_line_loop (Some l1) r1 h1 = Some (r, h')"
          by (simp add: read_line_loop.simps [of line s h])
        with 1(1) [OF Some br [symmetric] y [symmetric] ys] False extend_only [OF y] only_alloc_trans
        show ?thesis by blast
      qed
    qed
  qed
qed

lemma read_line_only: "auth_read_line ok s h = Some (l, r, h') \<Longrightarrow> only_alloc h h'"
  by (auto simp: auth_read_line_def dest: read_line_loop_only split: if_splits sum.splits Option.bind_splits)

lemma entry_add_only: "auth_entry_plaintext_add A line h = (r, A', h') \<Longrightarrow> only_alloc h h'"
  by (auto simp: auth_entry_plaintext_add_def split: option.splits list.splits if_splits bool.splits prod.splits
      dest!: alloc_block_only strdup_only intro: only_alloc_trans)

lemma update_loop_only: "update_loop ok A s h = Some (r, A', h') \<Longrightarrow> only_alloc h h'"
proof (induction ok A s h rule: update_loop.induct)
  case (1 ok A s h)
  show ?case
  proof (cases "auth_read_line ok s h")
    case None
    with 1(2) show ?thesis by (simp add: update_loop.simps [of ok A s h])
  next
    case (Some x)
    obtain l r1 h1 where x: "x = (l, r1, h1)" by (cases x)
    have o1: "only_alloc h h1" using read_line_only Some x by blast
    show ?thesis
    proof (cases l)
      case None
      with 1(2) Some x o1 show ?thesis by (simp add: update_loop.simps [of ok A s h])
    next
      case l: (Some line)
      obtain ret A1 h2 where a: "auth_entry_plaintext_add A line h1 = (ret, A1, h2)" by (cases "auth_entry_plaintext_add A line h1")
      have o2: "only_alloc h h2" using only_alloc_trans [OF o1 entry_add_only [OF a]] .
      show ?thesis
      proof (cases "ret = 0")
        case True
        with 1(2) Some x l a o2 show ?thesis by (simp add: update_loop.simps [of ok A s h])
      next
        case False
        with 1(2) Some x l a have u: "update_loop ok A1 r1 h2 = Some (r, A', h')"
          by (simp add: update_loop.simps [of ok A s h])
        have "only_alloc h2 h'" using 1(1) [OF Some _ _ _ _ _ _ _ u] x l a False by simp
        with o2 show ?thesis by (rule only_alloc_trans)
      qed
    qed
  qed
qed

lemma update_only:
  fixes h h' :: "'z mem_scheme"
  assumes "auth_plaintext_update F A h = Some (r, A', h')"
  shows "only_alloc h h'"
proof -
  have "h' = h \<or> (\<exists>ok c d A1. update_loop ok A c h = Some (d, A1, h'))"
    using assms by (auto simp: auth_plaintext_update_def split: option.splits if_splits Option.bind_splits)
  then show ?thesis using update_loop_only by auto
qed

lemma decode_only: "auth_plaintext_decode O1 header h = Some (r, h') \<Longrightarrow> only_alloc h h'"
  by (auto simp: auth_plaintext_decode_def split: option.splits if_splits Option.bind_splits bool.splits prod.splits
      dest!: alloc_block_only strdup_only intro: only_alloc_trans)

lemma plaintext_verify_only:
  assumes "auth_plaintext_verify F O1 A header h = Some (r, A', h')"
  shows "only_alloc h h'"
proof -
  from assms obtain ret A1 h1 where u: "auth_plaintext_update F A h = Some (ret, A1, h1)"
    by (auto simp: auth_plaintext_verify_def split: Option.bind_splits)
  note o1 = update_only [OF u]
  show ?thesis
  proof (cases "ret = 0")
    case True
    with assms u o1 show ?thesis by (simp add: auth_plaintext_verify_def)
  next
    case False
    with assms u obtain c h2 where d: "auth_plaintext_decode O1 header h1 = Some (c, h2)"
      by (auto simp: auth_plaintext_verify_def split: Option.bind_splits)
    with assms u False have "h' = h2" by (auto simp: auth_plaintext_verify_def split: option.splits)
    with only_alloc_trans [OF o1 decode_only [OF d]] show ?thesis by simp
  qed
qed

lemma auth_verify_only: "auth_verify F O1 A header h = Some (r, A', h') \<Longrightarrow> only_alloc h h'"
  by (cases "au_method A") (auto simp: auth_verify_def split: Option.bind_splits dest!: plaintext_verify_only)

lemma only_alloc_frame: "only_alloc h h' \<Longrightarrow> server_frame h h' \<and> json_st h' = json_st h \<and> auth_at h' = auth_at h \<and> params_at h' = params_at h"
  for h :: "('j, 'z) server"
  by (auto simp: only_alloc_def server_frame_def)

lemma server_frame_auth [simp]: "server_frame h (h\<lparr>auth_at := x\<rparr>)"
  by (simp add: server_frame_def)

lemma verify_at_frame:
  assumes "verify_at W a header h = Some (r, h')"
  shows "server_frame h h'" "json_st h' = json_st h" "params_at h' = params_at h"
proof -
  from assms obtain A A' h1 where v: "auth_verify (lib_files W) (lib_ssl W) A header h = Some (r, A', h1)"
    and h': "h' = h1\<lparr>auth_at := (auth_at h1)(a \<mapsto> A')\<rparr>"
    by (auto simp: verify_at_def split: Option.bind_splits)
  from only_alloc_frame [OF auth_verify_only [OF v]] h'
  show "server_frame h h'" "json_st h' = json_st h" "params_at h' = params_at h"
    by (auto intro: server_frame_trans [OF _ server_frame_auth])
qed

lemma auth_required_frame:
  "server_frame h (snd (connection_http_auth_required W rq realm h)) \<and>
   json_st (snd (connection_http_auth_required W rq realm h)) = json_st h \<and>
   replies (fst (connection_http_auth_required W rq realm h)) = replies rq"
  by (simp add: connection_http_auth_required_def alloc_block_charged split: bool.split)

lemma one_reply_cong: "replies rq = replies rq2 \<Longrightarrow> one_reply C rq rq' = one_reply C rq2 rq'"
  by (simp add: one_reply_def)

lemma served_cong: "replies rq = replies rq2 \<Longrightarrow> json_st h = json_st h2 \<Longrightarrow> served L owned C rq h h' res = served L owned C rq2 h2 h' res"
  by (simp add: served_def one_reply_def)

lemma authenticated_served:
  assumes ok: "libs_ok W owned" and g: "manager_good (long_size W) h" and p: "params_at h p = Some P"
  shows "case evhttp_find_header (lib_ev W) (input_headers rq) ''Authorization'' of
      None \<Rightarrow> \<exists>h'. served (long_size W) owned (codes (lib_json W) 401) rq h h'
        (connection_http_authenticated W run rq (Some p) h) \<and> server_frame h h'
    | Some s \<Rightarrow> (case verify_at W (cp_auth P) s h of
         None \<Rightarrow> connection_http_authenticated W run rq (Some p) h = None
       | Some (r, h1) \<Rightarrow> server_frame h h1 \<and>
           (if r = 0 then \<exists>h'. served (long_size W) owned (codes (lib_json W) 403) rq h h'
              (connection_http_authenticated W run rq (Some p) h) \<and> server_frame h h'
            else connection_http_authenticated W run rq (Some p) h =
              (case cp_cb P of None \<Rightarrow> None | Some e \<Rightarrow> call_endpoint W run e rq h1)))"
proof (cases "evhttp_find_header (lib_ev W) (input_headers rq) ''Authorization''")
  case None
  obtain rq1 h1 where a: "connection_http_auth_required W rq (cp_realm P) h = (rq1, h1)" by force
  with auth_required_frame [of h W rq "cp_realm P"] have f: "server_frame h h1" "json_st h1 = json_st h" "replies rq1 = replies rq"
    by simp_all
  obtain j' where s: "served (long_size W) owned (codes (lib_json W) 401) rq1 h (h1\<lparr>json_st := j'\<rparr>)
      (connection_http_error W rq1 None 401 ''authentication required'' h1)"
    by (rule error_served [OF ok server_frame_good [OF g f(1)], of h 401]) (use f in auto)
  have "connection_http_authenticated W run rq (Some p) h = connection_http_error W rq1 None 401 ''authentication required'' h1"
    using None p a by (simp add: connection_http_authenticated_def)
  with s f(3) have "served (long_size W) owned (codes (lib_json W) 401) rq h (h1\<lparr>json_st := j'\<rparr>)
      (connection_http_authenticated W run rq (Some p) h)" by (simp add: served_cong [of rq1 rq])
  moreover have "server_frame h (h1\<lparr>json_st := j'\<rparr>)" by (rule server_frame_trans [OF f(1) server_frame_json])
  ultimately show ?thesis using None by auto
next
  case (Some s)
  show ?thesis
  proof (cases "verify_at W (cp_auth P) s h")
    case None
    with Some p show ?thesis by (simp add: connection_http_authenticated_def)
  next
    case v: (Some rh)
    obtain r h1 where rh: "rh = (r, h1)" by force
    note f = verify_at_frame [OF v [unfolded rh]]
    show ?thesis
    proof (cases "r = 0")
      case True
      obtain j' where "served (long_size W) owned (codes (lib_json W) 403) rq h (h1\<lparr>json_st := j'\<rparr>)
          (connection_http_error W rq None 403 ''authentication failed'' h1)"
        by (rule error_served [OF ok server_frame_good [OF g f(1)], of h 403]) (use f in auto)
      then have "served (long_size W) owned (codes (lib_json W) 403) rq h (h1\<lparr>json_st := j'\<rparr>)
          (connection_http_authenticated W run rq (Some p) h)"
        using Some p v rh True by (simp add: connection_http_authenticated_def)
      moreover have "server_frame h (h1\<lparr>json_st := j'\<rparr>)" by (rule server_frame_trans [OF f(1) server_frame_json])
      ultimately show ?thesis using Some v rh True f(1) by auto
    next
      case False
      with Some p v rh f(1) show ?thesis by (simp add: connection_http_authenticated_def split: option.split)
    qed
  qed
qed

text \<open>Releasing a payload a second time: what happens when the answer around it cannot be built.\<close>

lemma payload_put_twice:
  assumes J: "json_contract (lib_json W) owned" and st: "json_strict (lib_json W) owned"
    and p: "p \<in> owned (json_st h)"
    and fail: "protocol_create_success (lib_json W) (Some p) (json_st h) = Some (None, j)"
  shows "connection_http_payload W rq params (Some p) h = None"
proof -
  have "owned j = owned (json_st h) - {p}"
    using create_base_owned [OF J, of None "Some p" "json_st h" 1] p fail by (auto simp: protocol_create_success_def)
  then have "json_object_put (lib_json W) p j = None" using st by (simp add: json_strict_def)
  with fail show ?thesis by (simp add: connection_http_payload_def with_json_def put_json_def)
qed

lemma payload_without_status:
  assumes J: "json_contract (lib_json W) owned" and st: "json_strict (lib_json W) owned"
    and p: "p \<in> owned (json_st h)" and b: "fst (json_object_new_boolean (lib_json W) 1 (json_st h)) = None"
  shows "connection_http_payload W rq params (Some p) h = None"
proof -
  obtain j1 where n: "json_object_new_boolean (lib_json W) 1 (json_st h) = (None, j1)"
    using b by (cases "json_object_new_boolean (lib_json W) 1 (json_st h)") auto
  with json_gives(4) [OF J, of "json_st h" 1] have "owned j1 = owned (json_st h)" by (simp add: gives_def)
  then obtain j2 where "json_put (lib_json W) (Some p) j1 = Some j2"
    by (rule_tac json_release [OF J, of "Some p" j1]) (use p in auto)
  with n have "protocol_create_success (lib_json W) (Some p) (json_st h) = Some (None, j2)"
    by (simp add: protocol_create_success_def protocol_create_base_def base_build_def base_cleanup_def)
  from payload_put_twice [OF J st p this] show ?thesis .
qed

section \<open>A server for the witnesses\<close>

text \<open>A query string is 36 characters of a name, and a value.\<close>

definition sample_ev :: libevent where
  "sample_ev = \<lparr>evhttp_find_header = map_of, evhttp_add_header = (\<lambda>hs k v. hs @ [(k, v)]),
     evhttp_parse_query_str = (\<lambda>s ps. (0, ps @ [(''name'', take 36 s), (''value'', drop 36 s)])),
     evbuffer_copyout = (\<lambda>b n. (int (min n (length b)), take n b)), evbuffer_add = (@)\<rparr>"

definition sample_libs :: "addr list libs" where
  "sample_libs = \<lparr>lib_ev = sample_ev, lib_json = list_json, lib_files = sample_files, lib_ssl = sample_ssl,
     long_size = 8, stack_junk = replicate 16 7\<rparr>"

lemma list_json_roomy: "json_roomy list_json"
  by (simp add: json_roomy_def json_wraps_def list_json_def)

lemma sample_libs_ok: "libs_ok sample_libs set"
  using list_json_contract list_json_roomy
  by (simp add: libs_ok_def sample_libs_def json_roomy_def)

lemma codes_list_json [simp]: "codes (lib_json sample_libs) c = {c}"
  by (simp add: codes_def sample_libs_def list_json_roomy)

definition nil_id :: cstring where
  "nil_id = ''00000000-0000-0000-0000-000000000000''"

lemma nil_uuid: "uuid_text 8 (replicate 16 0) = nil_id"
  by code_simp

text \<open>One managed queue with one item, one want on the queue, and one password-protected route.\<close>

definition desk :: "addr list server_mem" where
  "desk = \<lparr>next_addr = 10, alloc_ok = (\<lambda>n. True), alloc_count = 0,
     item_at = [6 \<mapsto> \<lparr>i_key = None, i_value = Some ''v'', i_inserted = True, i_owner = Some 2, i_lockcount = 0\<rparr>],
     callback_at = Map.empty, queue_at = [2 \<mapsto> zero_queue\<lparr>item_count := 1, items := [6]\<rparr>],
     rand_bytes = (\<lambda>n. Some (replicate 16 0)), rand_count = 0,
     mqueue_at = [3 \<mapsto> \<lparr>mq_q = Some 2, mq_id = nil_id\<rparr>],
     want_at = [4 \<mapsto> \<lparr>want_identifier = Some ''i'', cancelled = False, want_queue = Some 3, want_client = Some 20\<rparr>],
     params_at = [7 \<mapsto> \<lparr>cp_auth = 8, cp_realm = ''r'', cp_cb = Some Callback_put\<rparr>],
     ctx_servers = [], ctx_queues = [3], ctx_wants = [4], ev_calls = [], json_st = [],
     auth_at = [8 \<mapsto> \<lparr>au_method = Auth_plaintext, au_methoddata = sample_auth\<rparr>]\<rparr>"

lemma desk_good: "manager_good 8 desk"
  unfolding manager_good_def manager_inv_def
  by (auto simp: desk_def heap_inv_def bounded_def alloc_limit_def queue_ok_def counts_ok_def quiescent_def
      zero_queue_def mqueue_ok_def want_ok_def managed_def rand_ok_def all_unlocked_def item_linked_def item_key_def
      nil_uuid [symmetric] split: if_splits)

lemma desk_id: "queue_id desk 3 = nil_id"
  by (simp add: queue_id_def desk_def)

lemma returning_server_contract: "server_contract L owned (\<lambda>f a arg h. Some h)"
  by (simp add: server_contract_def)

definition request_for :: "http_command \<Rightarrow> cstring \<Rightarrow> http_request" where
  "request_for c body = \<lparr>http_command = c, input_headers = [], input_buffer = body, output_headers = [],
     output_buffer = [], replies = []\<rparr>"

lemma desk_body:
  "CHR 0x00 \<notin> set v \<Longrightarrow>
   body_params sample_libs (request_for c (nil_id @ v)) desk = Some [(''name'', nil_id), (''value'', v)]"
  by (simp add: body_params_def request_for_def sample_libs_def sample_ev_def desk_def c_string_text nil_id_def)

lemma desk_queue:
  "CHR 0x00 \<notin> set v \<Longrightarrow> request_queue sample_libs (request_for c (nil_id @ v)) desk = Some 3"
  using desk_body [of v c] desk_id
  by (simp add: request_queue_def queue_named_def sample_libs_def sample_ev_def nil_id_def desk_def)


section \<open>Properties\<close>



text \<open>
  C21: taking and peeking.  A request that names no queue is rejected and changes nothing.  Otherwise,
  with \<open>q\<close> the queue it names, both answer 404 when no entry of \<open>q\<close> is wanted by the key, and
  200 when one is; the take then leaves \<open>q\<close> without its first wanted entry and every other queue as
  it was, and the peek, which locks the item while it encodes it, leaves everything as it was.
\<close>

theorem http_take_peek_spec:
  assumes ok: "libs_ok W owned" and g: "manager_good (long_size W) h"
  shows "case request_queue W rq h of
      None \<Rightarrow>
        (\<exists>h'. served (long_size W) owned (codes (lib_json W) (reject_code W False rq h)) rq h h'
           (connection_http_callback_take W rq h) \<and> server_frame h h') \<and>
        (\<exists>h'. served (long_size W) owned (codes (lib_json W) (reject_code W False rq h)) rq h h'
           (connection_http_callback_peek W rq h) \<and> server_frame h h')
    | Some m \<Rightarrow> \<exists>q ps. managed h m q \<and> body_params W rq h = Some ps \<and>
        (case pick (wanted (evhttp_find_header (lib_ev W) ps ''key'')) (content h q) of
           None \<Rightarrow>
             (\<exists>h'. served (long_size W) owned (codes (lib_json W) HTTP_NOTFOUND) rq h h'
                (connection_http_callback_take W rq h) \<and> server_frame h h') \<and>
             (\<exists>h'. served (long_size W) owned (codes (lib_json W) HTTP_NOTFOUND) rq h h'
                (connection_http_callback_peek W rq h) \<and> server_frame h h')
         | Some (e, es) \<Rightarrow>
             (\<exists>h'. served (long_size W) owned (codes (lib_json W) HTTP_OK) rq h h'
                (connection_http_callback_take W rq h) \<and> content h' q = es \<and>
                (\<forall>p. p \<noteq> q \<longrightarrow> content h' p = content h p)) \<and>
             (\<exists>h'. served (long_size W) owned (codes (lib_json W) HTTP_OK) rq h h'
                (connection_http_callback_peek W rq h) \<and> server_frame h h'))"
proof (cases "request_queue W rq h")
  case None
  with take_served [OF ok g, of rq] peek_served [OF ok g, of rq] show ?thesis by simp
next
  case (Some m)
  from take_served [OF ok g, of rq, unfolded Some option.case] obtain q ps where
    t: "managed h m q" "body_params W rq h = Some ps"
      "case pick (wanted (evhttp_find_header (lib_ev W) ps ''key'')) (content h q) of
         None \<Rightarrow> \<exists>h'. served (long_size W) owned (codes (lib_json W) HTTP_NOTFOUND) rq h h'
             (connection_http_callback_take W rq h) \<and> server_frame h h'
       | Some (e, es) \<Rightarrow> \<exists>h'. served (long_size W) owned (codes (lib_json W) HTTP_OK) rq h h'
             (connection_http_callback_take W rq h) \<and> content h' q = es \<and>
             (\<forall>p. p \<noteq> q \<longrightarrow> content h' p = content h p)" by blast
  have un: "q' = q" if "managed h m q'" for q' using t(1) that by (auto simp: managed_def)
  from peek_served [OF ok g, of rq, unfolded Some option.case] t(2) un obtain h' where
    pk: "served (long_size W) owned (codes (lib_json W)
       (case pick (wanted (evhttp_find_header (lib_ev W) ps ''key'')) (content h q) of
          None \<Rightarrow> HTTP_NOTFOUND | Some _ \<Rightarrow> HTTP_OK)) rq h h' (connection_http_callback_peek W rq h)"
    "server_frame h h'" by (metis option.inject)
  show ?thesis
    unfolding Some option.case
  proof (intro exI [of _ q] exI [of _ ps] conjI)
    show "case pick (wanted (evhttp_find_header (lib_ev W) ps ''key'')) (content h q) of
           None \<Rightarrow>
             (\<exists>h'. served (long_size W) owned (codes (lib_json W) HTTP_NOTFOUND) rq h h'
                (connection_http_callback_take W rq h) \<and> server_frame h h') \<and>
             (\<exists>h'. served (long_size W) owned (codes (lib_json W) HTTP_NOTFOUND) rq h h'
                (connection_http_callback_peek W rq h) \<and> server_frame h h')
         | Some (e, es) \<Rightarrow>
             (\<exists>h'. served (long_size W) owned (codes (lib_json W) HTTP_OK) rq h h'
                (connection_http_callback_take W rq h) \<and> content h' q = es \<and>
                (\<forall>p. p \<noteq> q \<longrightarrow> content h' p = content h p)) \<and>
             (\<exists>h'. served (long_size W) owned (codes (lib_json W) HTTP_OK) rq h h'
                (connection_http_callback_peek W rq h) \<and> server_frame h h')"
    proof (cases "pick (wanted (evhttp_find_header (lib_ev W) ps ''key'')) (content h q)")
      case None
      with t(3) pk show ?thesis by simp blast
    next
      case (Some p)
      obtain e es where "p = (e, es)" by (cases p)
      with Some t(3) pk show ?thesis by simp blast
    qed
  qed (use t in simp_all)
qed

theorem http_take_peek_spec_witness:
  "\<exists>h'. served 8 set {200} (request_for EVHTTP_REQ_POST nil_id) desk h'
     (connection_http_callback_take sample_libs (request_for EVHTTP_REQ_POST nil_id) desk) \<and> content h' 2 = []"
proof -
  have L: "long_size sample_libs = 8" by (simp add: sample_libs_def)
  have k: "evhttp_find_header (lib_ev sample_libs) [(''name'', nil_id), (''value'', [])] ''key'' = None"
    by (simp add: sample_libs_def sample_ev_def)
  have m: "managed desk 3 q \<longleftrightarrow> q = 2" for q by (auto simp: managed_def desk_def)
  have c: "content desk 2 = [(None, Some ''v'')]" by (simp add: content_def desk_def entry_of_def)
  show ?thesis
    using http_take_peek_spec [OF sample_libs_ok, of desk "request_for EVHTTP_REQ_POST (nil_id @ [])"]
      desk_body [of "[]" EVHTTP_REQ_POST] desk_queue [of "[]" EVHTTP_REQ_POST] desk_good k c
    by (auto simp: L m wanted_def item_matches_def HTTP_OK_def)
qed



lemma nameless_entered:
  assumes ok: "libs_ok W owned" and g: "manager_good (long_size W) h" and ps: "body_params W rq h = Some ps"
    and n: "evhttp_find_header (lib_ev W) ps ''name'' = None"
    and r: "room 2 h" "rand_bytes h (rand_count h) \<noteq> None"
  shows "\<exists>m h1. read_and_validate W rq True (Some []) h = Some (Some m, rq, Some ps, h1)"
  using libs_okD(1,2) [OF ok]
proof (cases rule: read_cases [where rq = rq and h = h])
  case (rejected rq' j')
  with ps show ?thesis by simp
next
  case (parsed ps')
  have r': "room 2 (charged h)" "fresh_uuid None (charged h) \<noteq> None"
    using r by (auto simp: room_def fresh_uuid_def charged_def)
  obtain m h1 where "manager_queue_create (long_size W) None (charged h) = Some (Some m, h1)"
    using manager_good_inv [OF charged_good [OF g]]
    by (cases rule: manager_create_cases [where r = None]) (use r' in auto)
  then have "read_and_validate W rq True (Some []) h = Some (Some m, rq, Some ps, h1)"
    using parsed ps n by (simp add: read_and_validate_def connection_http_validate_def find_param_def manager_queue_get_def)
  then show ?thesis by blast
qed

text \<open>
  C37: deleting.  A delete request that names a queue removes that queue with all it holds, cancels the
  wants on it and is answered with 200.  One that names no queue there is leaves the queues as they
  are; but it is not answered with 404: the handler asks for the queue to be created, so a request
  without a name, say, is answered with 200 as well.
\<close>

theorem http_delete_spec:
  assumes ok: "libs_ok W owned" and g: "manager_good (long_size W) h"
  shows "(case request_queue W rq h of
      Some m \<Rightarrow> \<exists>q Q h'. managed h m q \<and> queue_at h q = Some Q \<and>
        served (long_size W) owned (codes (lib_json W) HTTP_OK) rq h h' (connection_http_callback_delete W rq h) \<and>
        server_frame (deleted m q Q (charged h)) h'
    | None \<Rightarrow> \<exists>c \<in> {reject_code W True rq h, HTTP_OK}. \<exists>h'.
        served (long_size W) owned (codes (lib_json W) c) rq h h' (connection_http_callback_delete W rq h) \<and>
        ctx_queues h' = ctx_queues h \<and> queue_at h' = queue_at h \<and> mqueue_at h' = mqueue_at h \<and> item_at h' = item_at h) \<and>
    (\<forall>ps. body_params W rq h = Some ps \<and> evhttp_find_header (lib_ev W) ps ''name'' = None \<and>
        room 2 h \<and> rand_bytes h (rand_count h) \<noteq> None \<longrightarrow>
      (\<exists>h'. served (long_size W) owned (codes (lib_json W) HTTP_OK) rq h h' (connection_http_callback_delete W rq h)))"
proof (intro conjI allI impI)
  show "case request_queue W rq h of
      Some m \<Rightarrow> \<exists>q Q h'. managed h m q \<and> queue_at h q = Some Q \<and>
        served (long_size W) owned (codes (lib_json W) HTTP_OK) rq h h' (connection_http_callback_delete W rq h) \<and>
        server_frame (deleted m q Q (charged h)) h'
    | None \<Rightarrow> \<exists>c \<in> {reject_code W True rq h, HTTP_OK}. \<exists>h'.
        served (long_size W) owned (codes (lib_json W) c) rq h h' (connection_http_callback_delete W rq h) \<and>
        ctx_queues h' = ctx_queues h \<and> queue_at h' = queue_at h \<and> mqueue_at h' = mqueue_at h \<and> item_at h' = item_at h"
  proof (cases "request_queue W rq h")
    case None
    with delete_served [OF ok g, of rq] show ?thesis by (simp add: server_frame_def) blast
  next
    case (Some m)
    with delete_served [OF ok g, of rq] show ?thesis by simp blast
  qed
next
  fix ps
  assume n: "body_params W rq h = Some ps \<and> evhttp_find_header (lib_ev W) ps ''name'' = None \<and>
        room 2 h \<and> rand_bytes h (rand_count h) \<noteq> None"
  then obtain m h1 where e: "read_and_validate W rq True (Some []) h = Some (Some m, rq, Some ps, h1)"
    using nameless_entered [OF ok g] by blast
  show "\<exists>h'. served (long_size W) owned (codes (lib_json W) HTTP_OK) rq h h' (connection_http_callback_delete W rq h)"
    using delete_served [OF ok g, of rq] e by auto
qed

theorem http_delete_spec_witness:
  "\<exists>q Q h'. managed desk 3 q \<and> queue_at desk q = Some Q \<and>
     served 8 set {200} (request_for EVHTTP_REQ_DELETE nil_id) desk h'
       (connection_http_callback_delete sample_libs (request_for EVHTTP_REQ_DELETE nil_id) desk) \<and>
     server_frame (deleted 3 q Q (charged desk)) h'"
proof -
  have L: "long_size sample_libs = 8" by (simp add: sample_libs_def)
  show ?thesis
    using http_delete_spec [OF sample_libs_ok, of desk "request_for EVHTTP_REQ_DELETE (nil_id @ [])"]
      desk_queue [of "[]" EVHTTP_REQ_DELETE] desk_good
    by (simp add: L HTTP_OK_def)
qed

text \<open>
  A payload released twice.  \<open>protocol_create_success\<close> releases the payload it is given when it
  fails, and \<open>connection_http_payload_\<close> then releases it again: when the status of the answer cannot
  be allocated, the handler uses freed memory.
\<close>

theorem http_payload_double_put:
  assumes J: "json_contract (lib_json W) owned" and st: "json_strict (lib_json W) owned"
    and p: "p \<in> owned (json_st h)" and b: "fst (json_object_new_boolean (lib_json W) 1 (json_st h)) = None"
  shows "connection_http_payload W rq params (Some p) h = None"
  by (rule payload_without_status [OF assms])

definition poor_json :: "addr list json_c" where
  "poor_json = list_json\<lparr>json_object_new_boolean := (\<lambda>b j. (None, j))\<rparr>"

lemma poor_json_contract: "json_contract poor_json set"
  using list_json_contract
  by (simp add: json_contract_def json_makes_def json_adds_def json_appends_def json_puts_def json_prints_def
      json_reads_def poor_json_def gives_def)

theorem http_payload_double_put_witness:
  "connection_http_payload (sample_libs\<lparr>lib_json := poor_json\<rparr>) (request_for EVHTTP_REQ_GET []) (Some []) (Some 3)
     (desk\<lparr>json_st := [3]\<rparr>) = None"
  by (rule http_payload_double_put [where owned = set])
     (use poor_json_contract list_json_strict in \<open>simp_all add: poor_json_def json_strict_def\<close>)

text \<open>
  The guard of a protected route.  Without an Authorization header the request is answered with 401,
  with one the authentication refuses with 403, and in both cases no queue is touched; a request whose
  header the authentication accepts is handled exactly as on the plain route.
\<close>

theorem http_auth_gate:
  assumes ok: "libs_ok W owned" and g: "manager_good (long_size W) h" and p: "params_at h p = Some P"
  shows "case evhttp_find_header (lib_ev W) (input_headers rq) ''Authorization'' of
      None \<Rightarrow> \<exists>h'. served (long_size W) owned (codes (lib_json W) 401) rq h h'
        (connection_http_authenticated W run rq (Some p) h) \<and> server_frame h h'
    | Some s \<Rightarrow> (case verify_at W (cp_auth P) s h of
         None \<Rightarrow> connection_http_authenticated W run rq (Some p) h = None
       | Some (r, h1) \<Rightarrow> server_frame h h1 \<and>
           (if r = 0 then \<exists>h'. served (long_size W) owned (codes (lib_json W) 403) rq h h'
              (connection_http_authenticated W run rq (Some p) h) \<and> server_frame h h'
            else connection_http_authenticated W run rq (Some p) h =
              (case cp_cb P of None \<Rightarrow> None | Some e \<Rightarrow> call_endpoint W run e rq h1)))"
  by (rule authenticated_served [OF assms])

theorem http_auth_gate_witness:
  "\<exists>h'. served 8 set {401} (request_for EVHTTP_REQ_POST nil_id) desk h'
     (connection_http_authenticated sample_libs (\<lambda>f a arg h. Some h) (request_for EVHTTP_REQ_POST nil_id) (Some 7) desk) \<and>
     server_frame desk h'"
proof -
  have L: "long_size sample_libs = 8" by (simp add: sample_libs_def)
  have k: "evhttp_find_header (lib_ev sample_libs) (input_headers (request_for EVHTTP_REQ_POST nil_id)) ''Authorization'' = None"
    by (simp add: sample_libs_def sample_ev_def request_for_def)
  have p: "params_at desk 7 = Some \<lparr>cp_auth = 8, cp_realm = ''r'', cp_cb = Some Callback_put\<rparr>"
    by (simp add: desk_def)
  show ?thesis
    using http_auth_gate [OF sample_libs_ok _ p, of "request_for EVHTTP_REQ_POST nil_id" "\<lambda>f a arg h. Some h"]
      desk_good k by (simp add: L)
qed

end
