(* ===== verification/Getopt.thy ===== *)
theory Getopt
  imports Prelude
begin

text \<open>
  The fallback \<open>getopt\<close> of \<open>src/getopt.c\<close>.  Its global variables and its static \<open>place\<close> are a record;
  \<open>place\<close> is the rest of the argument it points into, the empty string when it points at the NUL.  The
  result is the C int: a character code, or -1.  An argument vector is a list of strings without NUL; a
  read behind it, other than of the NULL pointer at its end, is undefined.  Messages on stderr are not
  modelled.
\<close>

section \<open>The scanner\<close>

record getopt_state =
  opt_err :: int
  opt_ind :: nat
  opt_opt :: int
  opt_reset :: int
  opt_arg :: "cstring option"
  place :: cstring

definition getopt_init :: getopt_state where
  "getopt_init = \<lparr>opt_err = 1, opt_ind = 1, opt_opt = 0, opt_reset = 0, opt_arg = None, place = []\<rparr>"

text \<open>A plain \<open>char\<close> that is promoted to \<open>int\<close>; it is signed, as on x86.\<close>

definition char_code :: "char \<Rightarrow> int" where
  "char_code c = (let n = of_char c :: int in if n < 128 then n else n - 256)"

definition BADCH :: int where "BADCH = char_code (CHR ''?'')"
definition BADARG :: int where "BADARG = char_code (CHR '':'')"

text \<open>\<open>strchr\<close> of a character that is not NUL: the string from its first occurrence on.\<close>

definition strchr :: "cstring \<Rightarrow> char \<Rightarrow> cstring option" where
  "strchr s c = (case dropWhile (\<lambda>x. x \<noteq> c) s of [] \<Rightarrow> None | r \<Rightarrow> Some r)"

text \<open>The second half, once the option letter is known and \<open>place\<close> points behind it.\<close>

definition getopt_letter :: "cstring list \<Rightarrow> cstring \<Rightarrow> char \<Rightarrow> getopt_state \<Rightarrow> int \<times> getopt_state" where
  "getopt_letter nargv ostr c s =
     (let s = s\<lparr>opt_opt := char_code c\<rparr> in
      case (if c = CHR '':'' then None else strchr ostr c) of
        None \<Rightarrow> (BADCH, if place s = [] then s\<lparr>opt_ind := Suc (opt_ind s)\<rparr> else s)
      | Some oli \<Rightarrow>
          if take 1 (drop 1 oli) \<noteq> '':'' then
            (char_code c, (if place s = [] then s\<lparr>opt_arg := None, opt_ind := Suc (opt_ind s)\<rparr> else s\<lparr>opt_arg := None\<rparr>))
          else if place s \<noteq> [] then
            (char_code c, s\<lparr>opt_arg := Some (place s), place := [], opt_ind := Suc (opt_ind s)\<rparr>)
          else if Suc (opt_ind s) < length nargv then
            (char_code c, s\<lparr>opt_arg := Some (nargv ! Suc (opt_ind s)), place := [], opt_ind := Suc (Suc (opt_ind s))\<rparr>)
          else (if take 1 ostr = '':'' then BADARG else BADCH, s\<lparr>place := [], opt_ind := Suc (opt_ind s)\<rparr>))"

definition getopt :: "cstring list \<Rightarrow> cstring \<Rightarrow> getopt_state \<Rightarrow> (int \<times> getopt_state) option" where
  "getopt nargv ostr s =
     (if opt_reset s \<noteq> 0 \<or> place s = [] then
        (let s = s\<lparr>opt_reset := 0\<rparr> in
         if length nargv < opt_ind s then None
         else if length nargv \<le> opt_ind s then Some (-1, s\<lparr>place := []\<rparr>)
         else (case nargv ! opt_ind s of
             [] \<Rightarrow> Some (-1, s\<lparr>place := []\<rparr>)
           | d # rest \<Rightarrow>
               if d \<noteq> CHR ''-'' then Some (-1, s\<lparr>place := []\<rparr>)
               else (case rest of
                   [] \<Rightarrow> (let s = s\<lparr>opt_opt := 0, place := []\<rparr> in
                      if strchr ostr (CHR ''-'') = None then Some (-1, s)
                      else Some (getopt_letter nargv ostr (CHR ''-'') s))
                 | c # rest \<Rightarrow>
                     if c = CHR ''-'' \<and> rest = []
                     then Some (-1, s\<lparr>opt_opt := char_code c, opt_ind := Suc (opt_ind s), place := []\<rparr>)
                     else Some (getopt_letter nargv ostr c (s\<lparr>place := rest\<rparr>)))))
      else (case place s of [] \<Rightarrow> None | c # rest \<Rightarrow> Some (getopt_letter nargv ostr c (s\<lparr>place := rest\<rparr>))))"

end
