(* ===== verification/Ws.thy ===== *)
theory Ws
  imports Connection_Http
begin

text \<open>
  The websocket server of \<open>src/ws.c\<close> and \<open>src/ws-internal.h\<close>: its three structures, the upgrade of
  an HTTP request, sending, receiving and closing.  The memory of the server is extended by the stores
  of these structures and by the state \<open>'w\<close> of wslay and of libevent's bufferevents.

  wslay, OpenSSL and libevent are not part of the repository: what the code calls of them is the record
  \<open>net\<close>.  \<open>wslay_event_send\<close> and \<open>wslay_event_recv\<close> call back into this file while they run; the
  record has them as a sequence of actions (a callback to make, or the result to return), and the
  loops below make the callbacks.  The objects wslay and libevent keep for a connection are identified
  by the address of the connection; calls that only set them up or release them are recorded in the log
  \<open>net_calls\<close>.  Function pointers are numbers; what a callback does is given by the runners \<open>runc\<close>
  (for a connection), \<open>rund\<close> (for a message) and \<open>runu\<close> (for an upgrade request).
\<close>

section \<open>Structures\<close>

record evws_connection =
  c_active :: bool
  c_evws :: "addr option"
  c_messages :: "addr list"
  c_last_error :: int
  c_address :: "cstring option"
  c_port :: "16 word"

record evws =
  ws_http :: addr
  ws_connections :: "addr list"
  datacb :: "fnptr option"
  datacbarg :: "addr option"
  opencb :: "fnptr option"
  opencbarg :: "addr option"
  errorcb :: "fnptr option"
  errorcbarg :: "addr option"
  closecb :: "fnptr option"
  closecbarg :: "addr option"
  upgradecb :: "fnptr option"
  upgradecbarg :: "addr option"

record evws_message =
  m_evcon :: addr
  m_buffer :: "char list"
  m_opcode :: byte
  m_own :: bool

datatype net_call =
    Evhttp_set_gencb addr addr
  | Evhttp_set_upgrade_cb addr cstring addr
  | Evhttp_del_upgrade_cb addr cstring
  | Bufferevent_setcb_read addr
  | Bufferevent_setcb_close addr
  | Bufferevent_enable addr
  | Bufferevent_free addr
  | Wslay_context_free addr

record ('j, 'w) ws_mem = "'j server_mem" +
  net_st :: 'w
  conn_at :: "addr \<Rightarrow> evws_connection option"
  message_at :: "addr \<Rightarrow> evws_message option"
  evws_at :: "addr \<Rightarrow> evws option"
  net_calls :: "net_call list"

type_synonym ('j, 'w, 'z) ws = "('j, 'w, 'z) ws_mem_scheme"
type_synonym ('j, 'w, 'z) ws_runner =
  "((('j, ('w, 'z) ws_mem_ext) server_mem_ext) manager_mem_ext) runner"

text \<open>An HTTP request as the upgrade sees it: also its version and the peer of its connection.\<close>

record upgrade_request = http_request +
  http_major :: int
  http_minor :: int
  peer_address :: cstring
  peer_port :: "16 word"

record wslay_msg_arg =
  arg_opcode :: byte
  arg_msg :: "char list"

datatype send_action = Send_data "char list" | Send_done int
datatype recv_action = Recv_data nat | Recv_msg wslay_msg_arg | Recv_done int

record 'w net =
  wslay_event_want_write :: "addr \<Rightarrow> 'w \<Rightarrow> bool"
  wslay_event_get_close_sent :: "addr \<Rightarrow> 'w \<Rightarrow> bool"
  wslay_send_step :: "addr \<Rightarrow> 'w \<Rightarrow> send_action \<times> 'w"
  wslay_send_answer :: "addr \<Rightarrow> int \<Rightarrow> 'w \<Rightarrow> 'w"
  wslay_recv_step :: "addr \<Rightarrow> 'w \<Rightarrow> recv_action \<times> 'w"
  wslay_recv_answer :: "addr \<Rightarrow> int \<Rightarrow> char list \<Rightarrow> 'w \<Rightarrow> 'w"
  wslay_event_set_error :: "addr \<Rightarrow> 'w \<Rightarrow> 'w"
  wslay_event_queue_msg :: "addr \<Rightarrow> byte \<Rightarrow> char list \<Rightarrow> 'w \<Rightarrow> int \<times> 'w"
  wslay_event_queue_close :: "addr \<Rightarrow> 'w \<Rightarrow> int \<times> 'w"
  wslay_event_context_server_init :: "addr \<Rightarrow> 'w \<Rightarrow> int \<times> 'w"
  bufferevent_write :: "addr \<Rightarrow> char list \<Rightarrow> 'w \<Rightarrow> int \<times> 'w"
  evbuffer_remove :: "addr \<Rightarrow> nat \<Rightarrow> 'w \<Rightarrow> int \<times> char list \<times> 'w"
  evbuffer_new :: "'w \<Rightarrow> bool \<times> 'w"
  evbuffer_fill :: "char list \<Rightarrow> 'w \<Rightarrow> int \<times> 'w"
  evhttp_connection_take_ownership :: "'w \<Rightarrow> bool \<times> 'w"
  sha1_gets :: "char list \<Rightarrow> nat \<Rightarrow> int \<times> char list"
  base64_read :: "char list \<Rightarrow> nat \<Rightarrow> int \<times> char list"

definition with_net :: "('w \<Rightarrow> 'a \<times> 'w) \<Rightarrow> ('j, 'w, 'z) ws \<Rightarrow> 'a \<times> ('j, 'w, 'z) ws" where
  "with_net f h = (let (r, x) = f (net_st h) in (r, h\<lparr>net_st := x\<rparr>))"

definition net_log :: "net_call list \<Rightarrow> ('j, 'w, 'z) ws \<Rightarrow> ('j, 'w, 'z) ws" where
  "net_log es h = h\<lparr>net_calls := net_calls h @ es\<rparr>"

definition set_conn :: "addr \<Rightarrow> evws_connection \<Rightarrow> ('j, 'w, 'z) ws \<Rightarrow> ('j, 'w, 'z) ws" where
  "set_conn a c h = h\<lparr>conn_at := (conn_at h)(a \<mapsto> c)\<rparr>"

definition set_message :: "addr \<Rightarrow> evws_message \<Rightarrow> ('j, 'w, 'z) ws \<Rightarrow> ('j, 'w, 'z) ws" where
  "set_message m M h = h\<lparr>message_at := (message_at h)(m \<mapsto> M)\<rparr>"

definition set_evws :: "addr \<Rightarrow> evws \<Rightarrow> ('j, 'w, 'z) ws \<Rightarrow> ('j, 'w, 'z) ws" where
  "set_evws w V h = h\<lparr>evws_at := (evws_at h)(w \<mapsto> V)\<rparr>"

definition free_conn :: "addr \<Rightarrow> ('j, 'w, 'z) ws \<Rightarrow> ('j, 'w, 'z) ws option" where
  "free_conn a h = do { _ \<leftarrow> conn_at h a; Some (h\<lparr>conn_at := (conn_at h)(a := None)\<rparr>) }"

definition free_message :: "addr \<Rightarrow> ('j, 'w, 'z) ws \<Rightarrow> ('j, 'w, 'z) ws option" where
  "free_message m h = do { _ \<leftarrow> message_at h m; Some (h\<lparr>message_at := (message_at h)(m := None)\<rparr>) }"

definition free_evws :: "addr \<Rightarrow> ('j, 'w, 'z) ws \<Rightarrow> ('j, 'w, 'z) ws option" where
  "free_evws w h = do { _ \<leftarrow> evws_at h w; Some (h\<lparr>evws_at := (evws_at h)(w := None)\<rparr>) }"

section \<open>The accept key\<close>

definition SHA_HASH_SIZE :: nat where "SHA_HASH_SIZE = 20"

definition security_key :: cstring where
  "security_key = ''258EAFA5-E914-47DA-95CA-C5AB0DC85B11''"

text \<open>The size of \<open>accept_key\<close>; one byte of it stays NUL.\<close>

definition accept_size :: nat where
  "accept_size = (SHA_HASH_SIZE * 8 + 4) div 6 + 2"

definition create_security_key ::
  "'w net \<Rightarrow> cstring \<Rightarrow> 'z mem_scheme \<Rightarrow> cstring option \<times> 'z mem_scheme" where
  "create_security_key N key h =
     (let (rd, digest) = sha1_gets N (key @ security_key) SHA_HASH_SIZE
      in if rd \<noteq> int SHA_HASH_SIZE then (None, h)
         else (let (rd, accept_key) = base64_read N digest (accept_size - 1)
               in if rd \<le> 0 then (None, h)
                  else strdup (c_string (take (accept_size - 1) accept_key)) h))"

section \<open>Header values\<close>

text \<open>\<open>strtok\<close> with the delimiter set \<open>","\<close>: the next token and the rest.\<close>

definition strtok :: "cstring \<Rightarrow> (cstring \<times> cstring) option" where
  "strtok s = (let r = dropWhile (\<lambda>c. c = CHR '','') s
     in if r = [] then None
        else Some (takeWhile (\<lambda>c. c \<noteq> CHR '','') r, tl (dropWhile (\<lambda>c. c \<noteq> CHR '','') r)))"

lemma strtok_shorter: "strtok s = Some (t, r) \<Longrightarrow> length r < length s"
proof -
  assume a: "strtok s = Some (t, r)"
  let ?d = "dropWhile (\<lambda>c. c = CHR '','') s"
  from a have "?d \<noteq> []" "r = tl (dropWhile (\<lambda>c. c \<noteq> CHR '','') ?d)"
    by (auto simp: strtok_def Let_def split: if_splits)
  moreover have "length (dropWhile (\<lambda>c. c \<noteq> CHR '','') ?d) \<le> length ?d" "length ?d \<le> length s"
    by (rule length_dropWhile_le)+
  ultimately show ?thesis by (cases "?d"; cases "dropWhile (\<lambda>c. c \<noteq> CHR '','') ?d") auto
qed

function header_contains :: "cstring \<Rightarrow> cstring \<Rightarrow> int" where
  "header_contains val look = (case strtok val of
     None \<Rightarrow> 0
   | Some (token, rest) \<Rightarrow>
       if strcasecmp (dropWhile (\<lambda>c. c = CHR '' '') token) look = 0 then 1
       else header_contains rest look)"
  by pat_completeness auto
termination by (relation "measure (\<lambda>(v, _). length v)") (auto simp: strtok_shorter)

declare header_contains.simps [simp del]

section \<open>Servers\<close>

definition evws_new :: "addr \<Rightarrow> ('j, 'w, 'z) ws \<Rightarrow> addr option \<times> ('j, 'w, 'z) ws" where
  "evws_new http h = (case calloc h of
       (None, h) \<Rightarrow> (None, h)
     | (Some w, h) \<Rightarrow> (Some w, set_evws w
         \<lparr>ws_http = http, ws_connections = [], datacb = None, datacbarg = None, opencb = None, opencbarg = None,
          errorcb = None, errorcbarg = None, closecb = None, closecbarg = None, upgradecb = None,
          upgradecbarg = None\<rparr> h))"

definition evws_bind :: "addr \<Rightarrow> ('j, 'w, 'z) ws \<Rightarrow> ('j, 'w, 'z) ws option" where
  "evws_bind w h = do { V \<leftarrow> evws_at h w; Some (net_log [Evhttp_set_gencb (ws_http V) w] h) }"

definition evws_bind_path :: "addr \<Rightarrow> cstring \<Rightarrow> ('j, 'w, 'z) ws \<Rightarrow> ('j, 'w, 'z) ws option" where
  "evws_bind_path w path h = do { V \<leftarrow> evws_at h w; Some (net_log [Evhttp_set_upgrade_cb (ws_http V) path w] h) }"

definition evws_unbind_path :: "addr \<Rightarrow> cstring \<Rightarrow> ('j, 'w, 'z) ws \<Rightarrow> ('j, 'w, 'z) ws option" where
  "evws_unbind_path w path h = do { V \<leftarrow> evws_at h w; Some (net_log [Evhttp_del_upgrade_cb (ws_http V) path] h) }"

definition evws_set_cb :: "addr \<Rightarrow> fnptr option \<Rightarrow> addr option \<Rightarrow> ('j, 'w, 'z) ws \<Rightarrow> ('j, 'w, 'z) ws option" where
  "evws_set_cb w cb arg h = do { V \<leftarrow> evws_at h w; Some (set_evws w (V\<lparr>datacb := cb, datacbarg := arg\<rparr>) h) }"

definition evws_set_open_cb :: "addr \<Rightarrow> fnptr option \<Rightarrow> addr option \<Rightarrow> ('j, 'w, 'z) ws \<Rightarrow> ('j, 'w, 'z) ws option" where
  "evws_set_open_cb w cb arg h = do { V \<leftarrow> evws_at h w; Some (set_evws w (V\<lparr>opencb := cb, opencbarg := arg\<rparr>) h) }"

definition evws_set_error_cb :: "addr \<Rightarrow> fnptr option \<Rightarrow> addr option \<Rightarrow> ('j, 'w, 'z) ws \<Rightarrow> ('j, 'w, 'z) ws option" where
  "evws_set_error_cb w cb arg h = do { V \<leftarrow> evws_at h w; Some (set_evws w (V\<lparr>errorcb := cb, errorcbarg := arg\<rparr>) h) }"

definition evws_set_close_cb :: "addr \<Rightarrow> fnptr option \<Rightarrow> addr option \<Rightarrow> ('j, 'w, 'z) ws \<Rightarrow> ('j, 'w, 'z) ws option" where
  "evws_set_close_cb w cb arg h = do { V \<leftarrow> evws_at h w; Some (set_evws w (V\<lparr>closecb := cb, closecbarg := arg\<rparr>) h) }"

definition evws_set_upgrade_cb :: "addr \<Rightarrow> fnptr option \<Rightarrow> addr option \<Rightarrow> ('j, 'w, 'z) ws \<Rightarrow> ('j, 'w, 'z) ws option" where
  "evws_set_upgrade_cb w cb arg h = do { V \<leftarrow> evws_at h w; Some (set_evws w (V\<lparr>upgradecb := cb, upgradecbarg := arg\<rparr>) h) }"

section \<open>Sending\<close>

definition set_last_error :: "addr \<Rightarrow> int \<Rightarrow> ('j, 'w, 'z) ws \<Rightarrow> ('j, 'w, 'z) ws option" where
  "set_last_error a e h = do { c \<leftarrow> conn_at h a; Some (set_conn a (c\<lparr>c_last_error := e\<rparr>) h) }"

definition evws_close :: "('j, 'w, 'z) ws_runner \<Rightarrow> addr \<Rightarrow> ('j, 'w, 'z) ws \<Rightarrow> ('j, 'w, 'z) ws option" where
  "evws_close runc a h = do {
     c \<leftarrow> conn_at h a;
     let h = set_conn a (c\<lparr>c_active := False\<rparr>) h;
     w \<leftarrow> c_evws c;
     V \<leftarrow> evws_at h w;
     case closecb V of None \<Rightarrow> Some h | Some f \<Rightarrow> runc f a (closecbarg V) h }"

definition evws_wslay_send_callback ::
  "'w net \<Rightarrow> addr \<Rightarrow> char list \<Rightarrow> ('j, 'w, 'z) ws \<Rightarrow> (int \<times> ('j, 'w, 'z) ws) option" where
  "evws_wslay_send_callback N a data h = do {
     h \<leftarrow> set_last_error a 0 h;
     let (r, h) = with_net (bufferevent_write N a data) h;
     if r \<noteq> 0 then Some (-1, h\<lparr>net_st := wslay_event_set_error N a (net_st h)\<rparr>)
     else Some (int (length data), h) }"

partial_function (option) wslay_event_send ::
  "'w net \<Rightarrow> addr \<Rightarrow> ('j, 'w, 'z) ws \<Rightarrow> (int \<times> ('j, 'w, 'z) ws) option" where
  "wslay_event_send N a h = (case wslay_send_step N a (net_st h) of
     (Send_done r, x) \<Rightarrow> Some (r, h\<lparr>net_st := x\<rparr>)
   | (Send_data data, x) \<Rightarrow> do {
       (n, h) \<leftarrow> evws_wslay_send_callback N a data (h\<lparr>net_st := x\<rparr>);
       wslay_event_send N a (h\<lparr>net_st := wslay_send_answer N a n (net_st h)\<rparr>) })"

definition evws_connection_write ::
  "'w net \<Rightarrow> ('j, 'w, 'z) ws_runner \<Rightarrow> addr \<Rightarrow> ('j, 'w, 'z) ws \<Rightarrow> ('j, 'w, 'z) ws option" where
  "evws_connection_write N runc a h = do {
     _ \<leftarrow> conn_at h a;
     (failed, h) \<leftarrow> (if wslay_event_want_write N a (net_st h) then do {
         (e, h) \<leftarrow> wslay_event_send N a h;
         h \<leftarrow> set_last_error a e h;
         if e < 0 then do { h \<leftarrow> evws_close runc a h; Some (True, h) } else Some (False, h) }
       else Some (False, h));
     if failed then Some h
     else if wslay_event_get_close_sent N a (net_st h) then Some (net_log [Bufferevent_setcb_close a] h)
     else Some h }"

definition evws_connection_send_int ::
  "'w net \<Rightarrow> ('j, 'w, 'z) ws_runner \<Rightarrow> addr \<Rightarrow> byte \<Rightarrow> char list \<Rightarrow> ('j, 'w, 'z) ws \<Rightarrow> ('j, 'w, 'z) ws option" where
  "evws_connection_send_int N runc a opcode message h = do {
     c \<leftarrow> conn_at h a;
     if \<not> c_active c then Some h
     else do {
       let (e, h) = with_net (wslay_event_queue_msg N a opcode message) h;
       h \<leftarrow> set_last_error a e h;
       if e < 0 then evws_close runc a h else evws_connection_write N runc a h } }"

definition WSLAY_TEXT_FRAME :: byte where "WSLAY_TEXT_FRAME = 1"
definition WSLAY_BINARY_FRAME :: byte where "WSLAY_BINARY_FRAME = 2"

definition evws_connection_send ::
  "'w net \<Rightarrow> ('j, 'w, 'z) ws_runner \<Rightarrow> addr \<Rightarrow> cstring \<Rightarrow> ('j, 'w, 'z) ws \<Rightarrow> ('j, 'w, 'z) ws option" where
  "evws_connection_send N runc a text h = evws_connection_send_int N runc a WSLAY_TEXT_FRAME text h"

definition evws_connection_send_binary ::
  "'w net \<Rightarrow> ('j, 'w, 'z) ws_runner \<Rightarrow> addr \<Rightarrow> char list \<Rightarrow> ('j, 'w, 'z) ws \<Rightarrow> ('j, 'w, 'z) ws option" where
  "evws_connection_send_binary N runc a data h = evws_connection_send_int N runc a WSLAY_BINARY_FRAME data h"

definition evws_connection_send_close ::
  "'w net \<Rightarrow> ('j, 'w, 'z) ws_runner \<Rightarrow> addr \<Rightarrow> ('j, 'w, 'z) ws \<Rightarrow> ('j, 'w, 'z) ws option" where
  "evws_connection_send_close N runc a h = do {
     c \<leftarrow> conn_at h a;
     if \<not> c_active c then Some h
     else do {
       let (e, h) = with_net (wslay_event_queue_close N a) h;
       h \<leftarrow> set_last_error a e h;
       if e < 0 then evws_close runc a h else evws_connection_write N runc a h } }"

section \<open>Messages\<close>

definition evws_message_new ::
  "'w net \<Rightarrow> addr \<Rightarrow> wslay_msg_arg \<Rightarrow> ('j, 'w, 'z) ws \<Rightarrow> (addr option \<times> ('j, 'w, 'z) ws) option" where
  "evws_message_new N a arg h = (case calloc h of
       (None, h) \<Rightarrow> Some (None, h)
     | (Some m, h) \<Rightarrow> do {
         let h = set_message m \<lparr>m_evcon = a, m_buffer = [], m_opcode = arg_opcode arg, m_own = False\<rparr> h;
         let (ok, h) = with_net (evbuffer_new N) h;
         if \<not> ok then do { h \<leftarrow> free_message m h; Some (None, h) }
         else do {
           let (r, h) = with_net (evbuffer_fill N (arg_msg arg)) h;
           if r \<noteq> 0 then do { h \<leftarrow> free_message m h; Some (None, h) }
           else do {
             c \<leftarrow> conn_at h a;
             let h = set_message m \<lparr>m_evcon = a, m_buffer = arg_msg arg, m_opcode = arg_opcode arg, m_own = False\<rparr> h;
             Some (Some m, set_conn a (c\<lparr>c_messages := tailq_insert_tail m (c_messages c)\<rparr>) h) } } })"

definition evws_message_free :: "addr \<Rightarrow> ('j, 'w, 'z) ws \<Rightarrow> ('j, 'w, 'z) ws option" where
  "evws_message_free m h = do {
     M \<leftarrow> message_at h m;
     c \<leftarrow> conn_at h (m_evcon M);
     ms \<leftarrow> tailq_remove m (c_messages c);
     free_message m (set_conn (m_evcon M) (c\<lparr>c_messages := ms\<rparr>) h) }"

definition evws_message_get_connection :: "addr \<Rightarrow> ('j, 'w, 'z) ws \<Rightarrow> addr option" where
  "evws_message_get_connection m h = do { M \<leftarrow> message_at h m; Some (m_evcon M) }"

definition evws_message_get_buffer :: "addr \<Rightarrow> ('j, 'w, 'z) ws \<Rightarrow> char list option" where
  "evws_message_get_buffer m h = do { M \<leftarrow> message_at h m; Some (m_buffer M) }"

definition evws_message_get_opcode :: "addr \<Rightarrow> ('j, 'w, 'z) ws \<Rightarrow> byte option" where
  "evws_message_get_opcode m h = do { M \<leftarrow> message_at h m; Some (m_opcode M) }"

definition evws_message_own :: "addr \<Rightarrow> ('j, 'w, 'z) ws \<Rightarrow> ('j, 'w, 'z) ws option" where
  "evws_message_own m h = do { M \<leftarrow> message_at h m; Some (set_message m (M\<lparr>m_own := True\<rparr>) h) }"

section \<open>Receiving\<close>

text \<open>\<open>read\<close> is unsigned, so a failed \<open>evbuffer_remove\<close> is never noticed: its -1 is returned as it is.\<close>

definition evws_wslay_recv_callback ::
  "'w net \<Rightarrow> addr \<Rightarrow> nat \<Rightarrow> ('j, 'w, 'z) ws \<Rightarrow> (int \<times> char list \<times> ('j, 'w, 'z) ws) option" where
  "evws_wslay_recv_callback N a len h = do {
     h \<leftarrow> set_last_error a 0 h;
     let (n, data, x) = evbuffer_remove N a len (net_st h);
     Some (n, data, h\<lparr>net_st := x\<rparr>) }"

definition wslay_is_ctrl_frame :: "byte \<Rightarrow> bool" where
  "wslay_is_ctrl_frame opcode \<longleftrightarrow> bit opcode 3"

definition evws_wslay_on_msg_callback ::
  "'w net \<Rightarrow> ('j, 'w, 'z) ws_runner \<Rightarrow> addr \<Rightarrow> wslay_msg_arg \<Rightarrow> ('j, 'w, 'z) ws \<Rightarrow> ('j, 'w, 'z) ws option" where
  "evws_wslay_on_msg_callback N rund a arg h =
     (if wslay_is_ctrl_frame (arg_opcode arg) then Some h
      else do {
        c \<leftarrow> conn_at h a;
        w \<leftarrow> c_evws c;
        V \<leftarrow> evws_at h w;
        case datacb V of
          None \<Rightarrow> Some h
        | Some f \<Rightarrow>
            if arg_opcode arg = WSLAY_TEXT_FRAME \<or> arg_opcode arg = WSLAY_BINARY_FRAME then do {
              (message, h) \<leftarrow> evws_message_new N a arg h;
              case message of
                None \<Rightarrow> Some h
              | Some m \<Rightarrow> do {
                  h \<leftarrow> rund f m (datacbarg V) h;
                  M \<leftarrow> message_at h m;
                  if m_own M then Some h else evws_message_free m h } }
            else Some h })"

partial_function (option) wslay_event_recv ::
  "'w net \<Rightarrow> ('j, 'w, 'z) ws_runner \<Rightarrow> addr \<Rightarrow> ('j, 'w, 'z) ws \<Rightarrow> (int \<times> ('j, 'w, 'z) ws) option" where
  "wslay_event_recv N rund a h = (case wslay_recv_step N a (net_st h) of
     (Recv_done r, x) \<Rightarrow> Some (r, h\<lparr>net_st := x\<rparr>)
   | (Recv_data len, x) \<Rightarrow> do {
       (n, data, h) \<leftarrow> evws_wslay_recv_callback N a len (h\<lparr>net_st := x\<rparr>);
       wslay_event_recv N rund a (h\<lparr>net_st := wslay_recv_answer N a n data (net_st h)\<rparr>) }
   | (Recv_msg arg, x) \<Rightarrow> do {
       h \<leftarrow> evws_wslay_on_msg_callback N rund a arg (h\<lparr>net_st := x\<rparr>);
       wslay_event_recv N rund a h })"

definition evws_connection_read_cb ::
  "'w net \<Rightarrow> ('j, 'w, 'z) ws_runner \<Rightarrow> ('j, 'w, 'z) ws_runner \<Rightarrow> addr \<Rightarrow> ('j, 'w, 'z) ws \<Rightarrow>
   ('j, 'w, 'z) ws option" where
  "evws_connection_read_cb N runc rund a h = do {
     (e, h) \<leftarrow> wslay_event_recv N rund a h;
     h \<leftarrow> set_last_error a e h;
     if e < 0 then evws_close runc a h else evws_connection_write N runc a h }"

section \<open>Connections\<close>

text \<open>The loop over the messages in \<open>evws_connection_free\<close>.\<close>

partial_function (option) free_messages :: "addr \<Rightarrow> ('j, 'w, 'z) ws \<Rightarrow> ('j, 'w, 'z) ws option" where
  "free_messages a h = do {
     c \<leftarrow> conn_at h a;
     case c_messages c of
       [] \<Rightarrow> Some h
     | m # _ \<Rightarrow> do { h \<leftarrow> evws_message_free m h; free_messages a h } }"

definition evws_connection_free ::
  "'w net \<Rightarrow> ('j, 'w, 'z) ws_runner \<Rightarrow> addr \<Rightarrow> ('j, 'w, 'z) ws \<Rightarrow> ('j, 'w, 'z) ws option" where
  "evws_connection_free N runc a h = do {
     c \<leftarrow> conn_at h a;
     h \<leftarrow> (if c_active c then do {
         h \<leftarrow> evws_connection_send_close N runc a h;
         c \<leftarrow> conn_at h a;
         Some (set_conn a (c\<lparr>c_active := False\<rparr>) h) }
       else Some h);
     h \<leftarrow> free_messages a h;
     c \<leftarrow> conn_at h a;
     w \<leftarrow> c_evws c;
     V \<leftarrow> evws_at h w;
     cs \<leftarrow> tailq_remove a (ws_connections V);
     let h = set_evws w (V\<lparr>ws_connections := cs\<rparr>) h;
     free_conn a (net_log [Wslay_context_free a, Bufferevent_free a] h) }"

definition evws_connection_get_peer :: "addr \<Rightarrow> ('j, 'w, 'z) ws \<Rightarrow> (cstring option \<times> 16 word) option" where
  "evws_connection_get_peer a h = do { c \<leftarrow> conn_at h a; Some (c_address c, c_port c) }"

definition evws_connection_is_active :: "addr \<Rightarrow> ('j, 'w, 'z) ws \<Rightarrow> bool option" where
  "evws_connection_is_active a h = do { c \<leftarrow> conn_at h a; Some (c_active c) }"

partial_function (option) evws_free ::
  "'w net \<Rightarrow> ('j, 'w, 'z) ws_runner \<Rightarrow> addr \<Rightarrow> ('j, 'w, 'z) ws \<Rightarrow> ('j, 'w, 'z) ws option" where
  "evws_free N runc w h = do {
     V \<leftarrow> evws_at h w;
     case ws_connections V of
       [] \<Rightarrow> free_evws w h
     | a # _ \<Rightarrow> do { h \<leftarrow> evws_connection_free N runc a h; evws_free N runc w h } }"

text \<open>\<open>events\<close> is the C bit mask: \<open>BEV_EVENT_EOF\<close> is bit 4, \<open>BEV_EVENT_ERROR\<close> bit 5.\<close>

definition evws_connection_event_cb ::
  "'w net \<Rightarrow> ('j, 'w, 'z) ws_runner \<Rightarrow> 16 word \<Rightarrow> addr \<Rightarrow> ('j, 'w, 'z) ws \<Rightarrow> ('j, 'w, 'z) ws option" where
  "evws_connection_event_cb N runc events a h = do {
     h \<leftarrow> (if bit events 4 then do {
         c \<leftarrow> conn_at h a;
         w \<leftarrow> c_evws c;
         V \<leftarrow> evws_at h w;
         case closecb V of None \<Rightarrow> Some h
         | Some f \<Rightarrow> if c_active c then runc f a (closecbarg V) h else Some h }
       else if bit events 5 then do {
         c \<leftarrow> conn_at h a;
         w \<leftarrow> c_evws c;
         V \<leftarrow> evws_at h w;
         case errorcb V of None \<Rightarrow> Some h | Some f \<Rightarrow> runc f a (errorcbarg V) h }
       else Some h);
     evws_connection_free N runc a h }"

definition evws_connection_new ::
  "'w net \<Rightarrow> cstring \<Rightarrow> 16 word \<Rightarrow> ('j, 'w, 'z) ws \<Rightarrow> (addr option \<times> ('j, 'w, 'z) ws) option" where
  "evws_connection_new N address port h = (case calloc h of
       (None, h) \<Rightarrow> Some (None, h)
     | (Some a, h) \<Rightarrow> do {
         let (s, h) = strdup address h;
         let c = \<lparr>c_active = False, c_evws = None, c_messages = [], c_last_error = 0, c_address = s, c_port = port\<rparr>;
         let h = set_conn a c h;
         let (ok, h) = with_net (evhttp_connection_take_ownership N) h;
         if \<not> ok then do { h \<leftarrow> free_conn a h; Some (None, h) }
         else do {
           let (e, h) = with_net (wslay_event_context_server_init N a) h;
           let h = set_conn a (c\<lparr>c_active := True, c_last_error := e\<rparr>) h;
           if e \<noteq> 0 then do { h \<leftarrow> free_conn a (net_log [Bufferevent_free a] h); Some (None, h) }
           else Some (Some a, net_log [Bufferevent_setcb_read a, Bufferevent_enable a] h) } })"

section \<open>Upgrading\<close>

definition evhttp_send_error :: "int \<Rightarrow> 'r http_request_scheme \<Rightarrow> 'r http_request_scheme" where
  "evhttp_send_error code rq = rq\<lparr>replies := replies rq @
     [\<lparr>reply_code = code, reply_headers = output_headers rq, reply_body = []\<rparr>]\<rparr>"

definition add_output_header :: "libevent \<Rightarrow> cstring \<Rightarrow> cstring \<Rightarrow> 'r http_request_scheme \<Rightarrow> 'r http_request_scheme" where
  "add_output_header E key val rq = rq\<lparr>output_headers := evhttp_add_header E (output_headers rq) key val\<rparr>"

definition send_reply :: "int \<Rightarrow> 'r http_request_scheme \<Rightarrow> 'r http_request_scheme" where
  "send_reply code rq = rq\<lparr>replies := replies rq @
     [\<lparr>reply_code = code, reply_headers = output_headers rq, reply_body = output_buffer rq\<rparr>]\<rparr>"

definition REQ_VERSION_BEFORE :: "int \<Rightarrow> int \<Rightarrow> int \<Rightarrow> int \<Rightarrow> bool" where
  "REQ_VERSION_BEFORE major minor major_v minor_v \<longleftrightarrow> major < major_v \<or> (major = major_v \<and> minor < minor_v)"

text \<open>\<open>atoi\<close>: white space, an optional sign, digits.\<close>

definition digit :: "char \<Rightarrow> bool" where
  "digit c \<longleftrightarrow> (let n = of_char c :: nat in 48 \<le> n \<and> n \<le> 57)"

definition atoi :: "cstring \<Rightarrow> int" where
  "atoi s = (let s = dropWhile isspace s;
     (sg, s) = (case s of c # r \<Rightarrow> if c = CHR ''-'' then (-1, r) else if c = CHR ''+'' then (1, r) else (1, s) | [] \<Rightarrow> (1, []))
     in sg * foldl (\<lambda>n c. n * 10 + (int (of_char c) - 48)) 0 (takeWhile digit s))"

text \<open>
  A runner of upgrade callbacks: the result, the request as the callback leaves it, and the memory.
\<close>

type_synonym ('j, 'w, 'z) upgrade_runner =
  "fnptr \<Rightarrow> upgrade_request \<Rightarrow> addr option \<Rightarrow> ('j, 'w, 'z) ws \<Rightarrow> (int \<times> upgrade_request \<times> ('j, 'w, 'z) ws) option"

text \<open>\<open>evws_upgrade_http_cb_\<close> once the request is known to be a websocket request of version 13 with a key.\<close>

definition upgrade_switch ::
  "'w net \<Rightarrow> libevent \<Rightarrow> ('j, 'w, 'z) ws_runner \<Rightarrow> addr \<Rightarrow> cstring \<Rightarrow> upgrade_request \<Rightarrow> ('j, 'w, 'z) ws \<Rightarrow>
   (upgrade_request \<times> ('j, 'w, 'z) ws) option" where
  "upgrade_switch N E runc w request_key rq h =
     (case create_security_key N request_key h of
        (None, h) \<Rightarrow> Some (evhttp_send_error HTTP_INTERNAL rq, h)
      | (Some response_key, h) \<Rightarrow> do {
          let rq = add_output_header E ''Sec-WebSocket-Accept'' response_key rq;
          let rq = add_output_header E ''Upgrade'' ''websocket'' rq;
          let rq = add_output_header E ''Connection'' ''Upgrade'' rq;
          let rq = send_reply 101 rq;
          (connection, h) \<leftarrow> evws_connection_new N (peer_address rq) (peer_port rq) h;
          case connection of
            None \<Rightarrow> Some (evhttp_send_error HTTP_INTERNAL rq, h)
          | Some a \<Rightarrow> do {
              c \<leftarrow> conn_at h a;
              let h = set_conn a (c\<lparr>c_evws := Some w\<rparr>) h;
              V \<leftarrow> evws_at h w;
              let h = set_evws w (V\<lparr>ws_connections := tailq_insert_tail a (ws_connections V)\<rparr>) h;
              h \<leftarrow> (case opencb V of None \<Rightarrow> Some h | Some f \<Rightarrow> runc f a (opencbarg V) h);
              Some (rq, h) } })"

text \<open>
  The values of the two headers are copied (a copy of a NULL pointer is undefined); when the request
  is no websocket request, the copies are freed and printed afterwards, which is undefined unless
  neither could be allocated.
\<close>

definition evws_upgrade_http_cb ::
  "'w net \<Rightarrow> libevent \<Rightarrow> ('j, 'w, 'z) ws_runner \<Rightarrow> ('j, 'w, 'z) upgrade_runner \<Rightarrow> addr \<Rightarrow> upgrade_request \<Rightarrow>
   ('j, 'w, 'z) ws \<Rightarrow> (upgrade_request \<times> ('j, 'w, 'z) ws) option" where
  "evws_upgrade_http_cb N E runc runu w rq h = do {
     upgrade \<leftarrow> evhttp_find_header E (input_headers rq) ''Upgrade'';
     let (upgrade_header, h) = strdup upgrade h;
     connection \<leftarrow> evhttp_find_header E (input_headers rq) ''Connection'';
     let (connection_header, h) = strdup connection h;
     if upgrade_header = None \<or> connection_header = None \<or>
        header_contains (the upgrade_header) ''websocket'' = 0 \<or>
        header_contains (the connection_header) ''Upgrade'' = 0
     then (if upgrade_header = None \<and> connection_header = None
           then Some (evhttp_send_error HTTP_BADREQUEST rq, h) else None)
     else if http_command rq \<noteq> EVHTTP_REQ_GET \<or> REQ_VERSION_BEFORE (http_major rq) (http_minor rq) 1 1
     then Some (evhttp_send_error HTTP_BADREQUEST rq, h)
     else
       (let version = evhttp_find_header E (input_headers rq) ''Sec-WebSocket-Version'' in
        if (case version of None \<Rightarrow> True | Some v \<Rightarrow> atoi v \<noteq> 13)
        then Some (evhttp_send_error HTTP_BADREQUEST (add_output_header E ''Sec-WebSocket-Version'' ''13'' rq), h)
        else
          (case evhttp_find_header E (input_headers rq) ''Sec-WebSocket-Key'' of
             None \<Rightarrow> Some (evhttp_send_error HTTP_BADREQUEST rq, h)
           | Some request_key \<Rightarrow> do {
               V \<leftarrow> evws_at h w;
               (ok, rq, h) \<leftarrow> (case upgradecb V of None \<Rightarrow> Some (1, rq, h) | Some f \<Rightarrow> runu f rq (upgradecbarg V) h);
               if ok = 0 then Some (rq, h) else upgrade_switch N E runc w request_key rq h })) }"

end
