(* ===== verification/Connection_Ws.thy ===== *)
theory Connection_Ws
  imports Ws
begin

text \<open>
  The websocket handlers of \<open>src/connection-ws.c\<close>: the message that asks to wait on a queue, the
  callback that answers it when an item arrives, and what happens when a connection ends.

  The function pointers the program passes around are given numbers; \<open>conn_callback\<close>,
  \<open>queue_callback_runner\<close> and \<open>data_callback\<close> call what a number stands for.
\<close>

section \<open>Function pointers\<close>

definition FN_queue_wait :: fnptr where "FN_queue_wait = 1"
definition FN_ws_wait :: fnptr where "FN_ws_wait = 2"
definition FN_ws_close :: fnptr where "FN_ws_close = 3"
definition FN_ws_error :: fnptr where "FN_ws_error = 4"
definition FN_ws_authenticated :: fnptr where "FN_ws_authenticated = 5"

section \<open>Closing\<close>

definition connection_ws_callback_close :: "addr \<Rightarrow> ('j, 'w, 'z) ws \<Rightarrow> ('j, 'w, 'z) ws option" where
  "connection_ws_callback_close connection h = manager_queue_want_close connection h"

definition connection_ws_callback_error :: "addr \<Rightarrow> ('j, 'w, 'z) ws \<Rightarrow> ('j, 'w, 'z) ws option" where
  "connection_ws_callback_error connection h = manager_queue_want_close connection h"

definition conn_callback :: "('j, 'w, 'z) ws_runner" where
  "conn_callback f a arg h =
     (if f = FN_ws_close then connection_ws_callback_close a h
      else if f = FN_ws_error then connection_ws_callback_error a h else None)"

section \<open>Answers\<close>

definition connection_ws_json ::
  "'w net \<Rightarrow> 'j libs \<Rightarrow> addr option \<Rightarrow> addr option \<Rightarrow> ('j, 'w, 'z) ws \<Rightarrow> ('j, 'w, 'z) ws option" where
  "connection_ws_json N W connection object h = do {
     (repr, h) \<leftarrow> with_json (json_object_to_json_string (lib_json W) object) h;
     let text = (if repr = None \<or> object = None then protocol_failure_fallback else the repr);
     a \<leftarrow> connection;
     h \<leftarrow> evws_connection_send N conn_callback a text h;
     put_json W object h }"

definition connection_ws_error ::
  "'w net \<Rightarrow> 'j libs \<Rightarrow> addr option \<Rightarrow> cstring \<Rightarrow> ('j, 'w, 'z) ws \<Rightarrow> ('j, 'w, 'z) ws option" where
  "connection_ws_error N W connection message h = do {
     (object, h) \<leftarrow> with_json (protocol_create_failure (lib_json W) message) h;
     connection_ws_json N W connection object h }"

definition connection_ws_payload ::
  "'w net \<Rightarrow> 'j libs \<Rightarrow> addr option \<Rightarrow> addr option \<Rightarrow> ('j, 'w, 'z) ws \<Rightarrow> ('j, 'w, 'z) ws option" where
  "connection_ws_payload N W connection payload h = do {
     (object, h) \<leftarrow> with_json (protocol_create_success (lib_json W) payload) h;
     if object = None then do {
       h \<leftarrow> put_json W payload h;
       connection_ws_error N W connection ''failed to encode payload'' h }
     else connection_ws_json N W connection object h }"

section \<open>Delivering an item\<close>

text \<open>The label \<open>cleanup\<close> of \<open>connection_queue_callback_wait_\<close>.\<close>

definition wait_cleanup ::
  "'j libs \<Rightarrow> addr \<Rightarrow> addr \<Rightarrow> addr option \<Rightarrow> addr option \<Rightarrow> ('j, 'w, 'z) ws \<Rightarrow> ('j, 'w, 'z) ws option" where
  "wait_cleanup W item want response detail h = do {
     h \<leftarrow> manager_queue_want_free want h;
     h \<leftarrow> queue_item_free item h;
     h \<leftarrow> put_json W response h;
     put_json W detail h }"

text \<open>An error of \<open>connection_queue_callback_wait_\<close>: the message, and the jump to \<open>cleanup\<close>.\<close>

definition wait_error ::
  "'w net \<Rightarrow> 'j libs \<Rightarrow> addr \<Rightarrow> addr \<Rightarrow> cstring \<Rightarrow> addr option \<Rightarrow> addr option \<Rightarrow> ('j, 'w, 'z) ws \<Rightarrow>
   ('j, 'w, 'z) ws option" where
  "wait_error N W item want message response detail h = do {
     connection \<leftarrow> manager_queue_want_get_connection want h;
     h \<leftarrow> connection_ws_error N W connection message h;
     wait_cleanup W item want response detail h }"

definition connection_queue_callback_wait ::
  "'w net \<Rightarrow> 'j libs \<Rightarrow> addr \<Rightarrow> addr \<Rightarrow> ('j, 'w, 'z) ws \<Rightarrow> ('j, 'w, 'z) ws option" where
  "connection_queue_callback_wait N W item want h = do {
     gone \<leftarrow> manager_queue_want_is_cancelled want h;
     if gone then wait_cleanup W item want None None h
     else do {
       (response, h) \<leftarrow> with_json (\<lambda>j. Some (json_object_new_object (lib_json W) j)) h;
       case response of
         None \<Rightarrow> wait_error N W item want ''failed to create response'' None None h
       | Some c \<Rightarrow> do {
           ident \<leftarrow> manager_queue_want_get_identifier want h;
           ident \<leftarrow> ident;
           (detail, h) \<leftarrow> with_json (\<lambda>j. Some (json_object_new_string (lib_json W) ident j)) h;
           if detail = None then wait_error N W item want ''failed to add identifier'' response None h
           else do {
             (r, h) \<leftarrow> with_json (json_object_object_add_ex (lib_json W) c ''id'' detail) h;
             if r \<noteq> 0 then wait_error N W item want ''failed to add identifier'' response detail h
             else do {
               (detail, h) \<leftarrow> with_json (protocol_encode_item (lib_json W) item h) h;
               if detail = None then wait_error N W item want ''failed to add item'' response None h
               else do {
                 (r, h) \<leftarrow> with_json (json_object_object_add_ex (lib_json W) c ''item'' detail) h;
                 if r \<noteq> 0 then wait_error N W item want ''failed to add item'' response detail h
                 else do {
                   connection \<leftarrow> manager_queue_want_get_connection want h;
                   h \<leftarrow> connection_ws_payload N W connection response h;
                   wait_cleanup W item want None None h } } } } } } }"

text \<open>What a waiter registered by this file runs, for \<open>queue_put\<close> and \<open>queue_wait\<close>.\<close>

definition queue_callback_runner :: "'w net \<Rightarrow> 'j libs \<Rightarrow> ('j, 'w, 'z) ws_runner" where
  "queue_callback_runner N W f item arg h =
     (if f = FN_queue_wait then do { want \<leftarrow> arg; connection_queue_callback_wait N W item want h } else None)"

section \<open>Asking to wait\<close>

text \<open>The result is the inner option: NULL when the object has no such attribute.\<close>

definition json_get_string :: "'j libs \<Rightarrow> addr \<Rightarrow> cstring \<Rightarrow> ('j, 'w, 'z) ws \<Rightarrow> cstring option option" where
  "json_get_string W object key h = do {
     (found, attribute) \<leftarrow> json_object_object_get_ex (lib_json W) object key (json_st h);
     if \<not> found then Some None else json_object_get_string (lib_json W) attribute (json_st h) }"

definition connection_ws_read ::
  "'j libs \<Rightarrow> addr \<Rightarrow> ('j, 'w, 'z) ws \<Rightarrow> (addr option \<times> ('j, 'w, 'z) ws) option" where
  "connection_ws_read W message h = do {
     buffer \<leftarrow> evws_message_get_buffer message h;
     let bodylength = length buffer;
     case alloc_block h of
       (False, h) \<Rightarrow> Some (None, h)
     | (True, h) \<Rightarrow>
         (let (n, body) = evbuffer_copyout (lib_ev W) buffer bodylength in
          if n \<noteq> int bodylength then Some (None, h)
          else with_json (\<lambda>j. Some (json_tokener_parse (lib_json W) (c_string body) j)) h) }"

text \<open>An error message to the connection a message came from.\<close>

definition message_error ::
  "'w net \<Rightarrow> 'j libs \<Rightarrow> addr \<Rightarrow> cstring \<Rightarrow> ('j, 'w, 'z) ws \<Rightarrow> ('j, 'w, 'z) ws option" where
  "message_error N W message text h = do {
     connection \<leftarrow> evws_message_get_connection message h;
     connection_ws_error N W (Some connection) text h }"

text \<open>
  The second test is of \<open>identifier\<close>, as in the code, so a missing queue name is not an error here:
  \<open>manager_queue_get\<close> is asked for the NULL name.
\<close>

definition connection_ws_callback_wait ::
  "'w net \<Rightarrow> 'j libs \<Rightarrow> addr \<Rightarrow> ('j, 'w, 'z) ws \<Rightarrow> ('j, 'w, 'z) ws option" where
  "connection_ws_callback_wait N W message h = do {
     (request, h) \<leftarrow> connection_ws_read W message h;
     case request of
       None \<Rightarrow> message_error N W message ''failed to read message'' h
     | Some req \<Rightarrow> do {
         identifier \<leftarrow> json_get_string W req ''identifier'' h;
         h \<leftarrow> (case identifier of
             None \<Rightarrow> message_error N W message ''no identifier'' h
           | Some ident \<Rightarrow> do {
               queue_name \<leftarrow> json_get_string W req ''queue'' h;
               (queue, h) \<leftarrow> manager_queue_get (long_size W) (stack_junk W) queue_name False h;
               case queue of
                 None \<Rightarrow> message_error N W message ''queue not found'' h
               | Some m \<Rightarrow> do {
                   key \<leftarrow> json_get_string W req ''key'' h;
                   connection \<leftarrow> evws_message_get_connection message h;
                   (want, h) \<leftarrow> manager_queue_want_new ident connection m h;
                   case want of
                     None \<Rightarrow> message_error N W message ''failed to create want'' h
                   | Some w \<Rightarrow> do {
                       mq \<leftarrow> manager_queue_get_queue m h;
                       q \<leftarrow> mq;
                       (r, h) \<leftarrow> queue_wait (queue_callback_runner N W) q key (Some FN_queue_wait) (Some w) h;
                       if r < 0 then do {
                         h \<leftarrow> manager_queue_want_free w h;
                         message_error N W message ''failed to wait for want'' h }
                       else Some h } } });
         put_json W (Some req) h } }"

definition data_callback :: "'w net \<Rightarrow> 'j libs \<Rightarrow> ('j, 'w, 'z) ws_runner" where
  "data_callback N W f m arg h = (if f = FN_ws_wait then connection_ws_callback_wait N W m h else None)"

section \<open>Authentication\<close>

definition connection_ws_authenticated ::
  "'j libs \<Rightarrow> http_request \<Rightarrow> addr option \<Rightarrow> ('j, 'z) server \<Rightarrow> (int \<times> http_request \<times> ('j, 'z) server) option" where
  "connection_ws_authenticated W rq user h = do {
     p \<leftarrow> user;
     P \<leftarrow> params_at h p;
     case evhttp_find_header (lib_ev W) (input_headers rq) ''Authorization'' of
       None \<Rightarrow>
         (let (rq, h) = connection_http_auth_required W rq (cp_realm P) h in do {
           (rq, params, h) \<leftarrow> connection_http_error W rq None 401 ''authentication required'' h;
           Some (0, rq, h) })
     | Some authstring \<Rightarrow> do {
         (r, h) \<leftarrow> verify_at W (cp_auth P) authstring h;
         if r = 0 then do {
           (rq, params, h) \<leftarrow> connection_http_error W rq None 403 ''authentication failed'' h;
           Some (0, rq, h) }
         else Some (1, rq, h) } }"

text \<open>The callback of an upgrade request works on the HTTP part of the request.\<close>

definition upgrade_callback :: "'j libs \<Rightarrow> ('j, 'w, 'z) upgrade_runner" where
  "upgrade_callback W f rq arg h =
     (if f = FN_ws_authenticated then do {
        (r, rq', h) \<leftarrow> connection_ws_authenticated W (http_request.truncate rq) arg h;
        Some (r, http_request.extend rq' (http_request.more rq), h) }
      else None)"

end
