(* ===== verification/Ws_Correct.thy ===== *)
theory Ws_Correct
  imports Connection_Ws Connection_Http_Spec
begin

text \<open>
  Lemmas about the websocket server: header values against a reference, the three outcomes of an
  upgrade, the invariant \<open>ws_ok\<close> of the linked structures, and what sending, closing and freeing do.
  The rest of the program is behind the locale \<open>ws_client\<close>: the callbacks that are run when a
  connection ends, and a property of the program's state they keep.  \<open>Ws_Spec\<close> interprets it for the
  callbacks of \<open>src/connection-ws.c\<close>.
\<close>

section \<open>Header values\<close>

text \<open>The reference: the pieces between the commas, the empty ones left out.\<close>

fun split_on :: "char \<Rightarrow> cstring \<Rightarrow> cstring list" where
  "split_on c [] = [[]]"
| "split_on c (x # xs) = (if x = c then [] # split_on c xs
     else (case split_on c xs of [] \<Rightarrow> [[x]] | y # ys \<Rightarrow> (x # y) # ys))"

definition tokens :: "cstring \<Rightarrow> cstring list" where
  "tokens s = [t \<leftarrow> split_on (CHR '','') s. t \<noteq> []]"

lemma split_on_nonempty [simp]: "split_on c s \<noteq> []"
  by (induction s) (auto split: list.split)

lemma split_on_append:
  "c \<notin> set t \<Longrightarrow> split_on c (t @ c # r) = t # split_on c r"
  by (induction t) auto

lemma split_on_single: "c \<notin> set t \<Longrightarrow> split_on c t = [t]"
  by (induction t) auto

lemma tokens_comma: "tokens (CHR '','' # s) = tokens s"
  by (simp add: tokens_def)

lemma tokens_drop: "tokens (dropWhile (\<lambda>c. c = CHR '','') s) = tokens s"
  by (induction s) (auto simp: tokens_comma)

lemma tokens_piece:
  assumes "CHR '','' \<notin> set t" and "t \<noteq> []" and "r = [] \<or> hd r = CHR '',''"
  shows "tokens (t @ r) = t # tokens (tl r)"
proof (cases r)
  case Nil
  with assms show ?thesis by (simp add: tokens_def split_on_single)
next
  case (Cons x r')
  with assms show ?thesis by (simp add: tokens_def split_on_append)
qed

lemma tokens_strtok: "tokens s = (case strtok s of None \<Rightarrow> [] | Some (t, r) \<Rightarrow> t # tokens r)"
proof -
  define d where "d = dropWhile (\<lambda>c. c = CHR '','') s"
  define t where "t = takeWhile (\<lambda>c. c \<noteq> CHR '','') d"
  define r where "r = dropWhile (\<lambda>c. c \<noteq> CHR '','') d"
  have d: "tokens s = tokens d" by (simp add: tokens_drop d_def)
  have k: "strtok s = (if d = [] then None else Some (t, tl r))"
    by (simp add: strtok_def Let_def d_def t_def r_def)
  show ?thesis
  proof (cases "d = []")
    case True
    with d k show ?thesis by (simp add: tokens_def)
  next
    case False
    have "CHR '','' \<notin> set t" by (auto simp: t_def dest: set_takeWhileD)
    moreover have "hd d \<noteq> CHR '',''" using False hd_dropWhile [of "\<lambda>c. c = CHR '',''" s] by (simp add: d_def)
    then have "t \<noteq> []" using False by (cases d) (simp_all add: t_def)
    moreover have "r = [] \<or> hd r = CHR '',''" using hd_dropWhile [of "\<lambda>c. c \<noteq> CHR '',''" d] by (auto simp: r_def)
    moreover have "d = t @ r" by (simp add: t_def r_def)
    ultimately have "tokens d = t # tokens (tl r)" using tokens_piece by simp
    with d k False show ?thesis by simp
  qed
qed

lemma header_contains_tokens:
  "header_contains v look =
     (if \<exists>t \<in> set (tokens v). strcasecmp (dropWhile (\<lambda>c. c = CHR '' '') t) look = 0 then 1 else 0)"
proof (induction v look rule: header_contains.induct)
  case (1 v look)
  show ?case
  proof (cases "strtok v")
    case None
    then show ?thesis by (simp add: header_contains.simps [of v] tokens_strtok [of v])
  next
    case (Some tr)
    obtain t r where tr: "tr = (t, r)" by force
    with Some 1 show ?thesis by (simp add: header_contains.simps [of v] tokens_strtok [of v])
  qed
qed

section \<open>Upgrading\<close>

definition ws_request :: "libevent \<Rightarrow> 'r http_request_scheme \<Rightarrow> bool" where
  "ws_request E rq \<longleftrightarrow> (case (evhttp_find_header E (input_headers rq) ''Upgrade'',
      evhttp_find_header E (input_headers rq) ''Connection'') of
     (Some u, Some c) \<Rightarrow> header_contains u ''websocket'' \<noteq> 0 \<and> header_contains c ''Upgrade'' \<noteq> 0
   | _ \<Rightarrow> False)"

lemma strdup_granted_eq: "granted h \<Longrightarrow> strdup s h = (Some s, h\<lparr>alloc_count := Suc (alloc_count h)\<rparr>)"
  by (simp add: strdup_def granted_def)

lemma upgrade_undefined:
  assumes "granted h" and "\<not> ws_request E rq"
  shows "evws_upgrade_http_cb N E runc runu w rq h = None"
  using assms
  by (cases "evhttp_find_header E (input_headers rq) ''Upgrade''"; cases "evhttp_find_header E (input_headers rq) ''Connection''")
     (auto simp: evws_upgrade_http_cb_def ws_request_def strdup_def granted_def)

text \<open>What is left of a handshake: method, version and key.\<close>

definition handshake_ok :: "libevent \<Rightarrow> upgrade_request \<Rightarrow> bool" where
  "handshake_ok E rq \<longleftrightarrow> http_command rq = EVHTTP_REQ_GET \<and> \<not> REQ_VERSION_BEFORE (http_major rq) (http_minor rq) 1 1 \<and>
     (\<exists>v. evhttp_find_header E (input_headers rq) ''Sec-WebSocket-Version'' = Some v \<and> atoi v = 13) \<and>
     evhttp_find_header E (input_headers rq) ''Sec-WebSocket-Key'' \<noteq> None"

definition twice_charged :: "'z mem_scheme \<Rightarrow> 'z mem_scheme" where
  "twice_charged h = h\<lparr>alloc_count := Suc (Suc (alloc_count h))\<rparr>"

lemma upgrade_refused:
  assumes g: "granted h" and r: "ws_request E rq" and bad: "\<not> handshake_ok E rq"
  shows "\<exists>hd. evws_upgrade_http_cb N E runc runu w rq h =
    Some (evhttp_send_error HTTP_BADREQUEST (rq\<lparr>output_headers := hd\<rparr>), twice_charged h)"
proof -
  obtain u c where h1: "evhttp_find_header E (input_headers rq) ''Upgrade'' = Some u"
    "evhttp_find_header E (input_headers rq) ''Connection'' = Some c"
    "header_contains u ''websocket'' \<noteq> 0" "header_contains c ''Upgrade'' \<noteq> 0"
    using r by (auto simp: ws_request_def split: option.splits)
  have d: "strdup u h = (Some u, h\<lparr>alloc_count := Suc (alloc_count h)\<rparr>)"
    "strdup c (h\<lparr>alloc_count := Suc (alloc_count h)\<rparr>) = (Some c, twice_charged h)"
    using g by (simp_all add: strdup_def granted_def twice_charged_def)
  have id: "rq\<lparr>output_headers := output_headers rq\<rparr> = rq" by simp
  show ?thesis
    using h1 d bad
    by (auto simp: evws_upgrade_http_cb_def handshake_ok_def add_output_header_def Let_def split: option.splits
        intro: exI [of _ "output_headers rq"])
qed

text \<open>The reply of an accepted handshake, and the connection it makes.\<close>

definition switching :: "libevent \<Rightarrow> cstring \<Rightarrow> upgrade_request \<Rightarrow> upgrade_request" where
  "switching E key rq = send_reply 101 (add_output_header E ''Connection'' ''Upgrade''
     (add_output_header E ''Upgrade'' ''websocket'' (add_output_header E ''Sec-WebSocket-Accept'' key rq)))"

definition fresh_connection :: "addr \<Rightarrow> upgrade_request \<Rightarrow> evws_connection" where
  "fresh_connection w rq = \<lparr>c_active = True, c_evws = Some w, c_messages = [], c_last_error = 0,
     c_address = Some (peer_address rq), c_port = peer_port rq\<rparr>"

text \<open>libevent gives up the connection, and wslay is set up for it.\<close>

definition handover :: "'w net \<Rightarrow> addr \<Rightarrow> 'w \<Rightarrow> bool" where
  "handover N a x \<longleftrightarrow> (let (ok, x) = evhttp_connection_take_ownership N x
     in ok \<and> fst (wslay_event_context_server_init N a x) = 0)"

lemma switching_simps [simp]:
  "replies (switching E key rq) = replies rq @ [\<lparr>reply_code = 101,
     reply_headers = output_headers (switching E key rq), reply_body = output_buffer rq\<rparr>]"
  "peer_address (switching E key rq) = peer_address rq" "peer_port (switching E key rq) = peer_port rq"
  by (simp_all add: switching_def send_reply_def add_output_header_def)

lemma calloc_granted:
  "granted h \<Longrightarrow> next_addr h < alloc_limit \<Longrightarrow> calloc h =
    (Some (next_addr h), h\<lparr>alloc_count := Suc (alloc_count h), next_addr := Suc (next_addr h)\<rparr>)"
  by (simp add: calloc_def granted_def Let_def)

lemma connection_new_granted:
  assumes g: "granted h" and n: "next_addr h < alloc_limit" and fresh: "conn_at h (next_addr h) = None"
  shows "\<exists>r h'. evws_connection_new N address port h = Some (r, h') \<and> evws_at h' = evws_at h \<and>
    message_at h' = message_at h \<and>
    (if handover N (next_addr h) (net_st h) then r = Some (next_addr h) \<and>
       conn_at h' = (conn_at h)(next_addr h \<mapsto> \<lparr>c_active = True, c_evws = None, c_messages = [], c_last_error = 0,
         c_address = Some address, c_port = port\<rparr>)
     else r = None \<and> conn_at h' = conn_at h)"
proof -
  obtain ok x where o: "evhttp_connection_take_ownership N (net_st h) = (ok, x)" by force
  obtain e y where i: "wslay_event_context_server_init N (next_addr h) x = (e, y)" by force
  have d: "granted h \<Longrightarrow> strdup s (h\<lparr>alloc_count := a, next_addr := b\<rparr>) = (Some s, h\<lparr>alloc_count := Suc a, next_addr := b\<rparr>)"
    for s a b by (simp add: strdup_def granted_def)
  show ?thesis
  proof (cases "ok \<and> e = 0")
    case True
    with g n o i d show ?thesis
      by (simp add: evws_connection_new_def calloc_granted with_net_def handover_def set_conn_def net_log_def)
  next
    case False
    with g n o i d fresh show ?thesis
      by (cases ok) (simp_all add: Let_def evws_connection_new_def calloc_granted with_net_def handover_def set_conn_def net_log_def
          free_conn_def fun_upd_idem)
  qed
qed

lemma upgrade_switch_granted:
  assumes g: "granted h" and n: "next_addr h < alloc_limit" and fresh: "conn_at h (next_addr h) = None"
    and V: "evws_at h w = Some V" "opencb V = None"
    and k: "sha1_gets N (key @ security_key) 20 = (20, d)" "base64_read N d 28 = (len, acc)" "0 < len"
  shows "\<exists>h'. upgrade_switch N E runc w key rq h = Some
      (if handover N (next_addr h) (net_st h) then switching E (c_string (take 28 acc)) rq
       else evhttp_send_error HTTP_INTERNAL (switching E (c_string (take 28 acc)) rq), h') \<and>
    (if handover N (next_addr h) (net_st h)
     then conn_at h' = (conn_at h)(next_addr h \<mapsto> fresh_connection w rq) \<and>
       evws_at h' = (evws_at h)(w \<mapsto> V\<lparr>ws_connections := ws_connections V @ [next_addr h]\<rparr>)
     else conn_at h' = conn_at h \<and> evws_at h' = evws_at h)"
proof -
  let ?acc = "c_string (take 28 acc)"
  let ?h = "h\<lparr>alloc_count := Suc (alloc_count h)\<rparr>"
  have key: "create_security_key N key h = (Some ?acc, ?h)"
    using k g by (simp add: create_security_key_def SHA_HASH_SIZE_def accept_size_def strdup_def granted_def)
  have "granted ?h" "next_addr ?h < alloc_limit" "conn_at ?h (next_addr ?h) = None"
    using g n fresh by (simp_all add: granted_def)
  from connection_new_granted [OF this, of N "peer_address rq" "peer_port rq"] obtain r h' where
    c: "evws_connection_new N (peer_address rq) (peer_port rq) ?h = Some (r, h')" "evws_at h' = evws_at h"
      "if handover N (next_addr h) (net_st h) then r = Some (next_addr h) \<and>
         conn_at h' = (conn_at h)(next_addr h \<mapsto> \<lparr>c_active = True, c_evws = None, c_messages = [], c_last_error = 0,
           c_address = Some (peer_address rq), c_port = peer_port rq\<rparr>)
       else r = None \<and> conn_at h' = conn_at h" by auto
  have sw: "send_reply 101 (add_output_header E ''Connection'' ''Upgrade''
     (add_output_header E ''Upgrade'' ''websocket'' (add_output_header E ''Sec-WebSocket-Accept'' ?acc rq))) = switching E ?acc rq"
    by (simp add: switching_def)
  show ?thesis
  proof (cases "handover N (next_addr h) (net_st h)")
    case True
    with c key V show ?thesis
      by (simp add: upgrade_switch_def sw set_conn_def set_evws_def tailq_insert_tail_def fresh_connection_def)
  next
    case False
    with c key show ?thesis by (simp add: upgrade_switch_def sw)
  qed
qed

lemma upgrade_accepted:
  assumes g: "granted h" and r: "ws_request E rq" and hs: "handshake_ok E rq"
    and key: "evhttp_find_header E (input_headers rq) ''Sec-WebSocket-Key'' = Some key"
    and V: "evws_at h w = Some V" "upgradecb V = None"
  shows "evws_upgrade_http_cb N E runc runu w rq h = upgrade_switch N E runc w key rq (twice_charged h)"
proof -
  obtain u c where h1: "evhttp_find_header E (input_headers rq) ''Upgrade'' = Some u"
    "evhttp_find_header E (input_headers rq) ''Connection'' = Some c"
    "header_contains u ''websocket'' \<noteq> 0" "header_contains c ''Upgrade'' \<noteq> 0"
    using r by (auto simp: ws_request_def split: option.splits)
  have d: "strdup u h = (Some u, h\<lparr>alloc_count := Suc (alloc_count h)\<rparr>)"
    "strdup c (h\<lparr>alloc_count := Suc (alloc_count h)\<rparr>) = (Some c, twice_charged h)"
    using g by (simp_all add: strdup_def granted_def twice_charged_def)
  have v: "evws_at (twice_charged h) w = Some V" using V by (simp add: twice_charged_def)
  show ?thesis
    using h1 d v hs key V by (auto simp: evws_upgrade_http_cb_def handshake_ok_def)
qed

section \<open>The structures of the websocket server\<close>

text \<open>
  Connections, messages and servers link each other; every connection belongs to a server that lists
  it, every message to a connection that lists it.  The close and error callbacks are among \<open>F\<close>.
\<close>

definition conn_ok :: "('j, 'w, 'z) ws \<Rightarrow> addr \<Rightarrow> evws_connection \<Rightarrow> bool" where
  "conn_ok h a c \<longleftrightarrow> distinct (c_messages c) \<and>
     (\<forall>m \<in> set (c_messages c). \<exists>M. message_at h m = Some M \<and> m_evcon M = a) \<and>
     (\<exists>w V. c_evws c = Some w \<and> evws_at h w = Some V \<and> a \<in> set (ws_connections V))"

definition evws_ok :: "fnptr set \<Rightarrow> ('j, 'w, 'z) ws \<Rightarrow> addr \<Rightarrow> evws \<Rightarrow> bool" where
  "evws_ok F h w V \<longleftrightarrow> distinct (ws_connections V) \<and> set_option (closecb V) \<union> set_option (errorcb V) \<subseteq> F \<and>
     (\<forall>a \<in> set (ws_connections V). \<exists>c. conn_at h a = Some c \<and> c_evws c = Some w)"

definition ws_ok :: "fnptr set \<Rightarrow> ('j, 'w, 'z) ws \<Rightarrow> bool" where
  "ws_ok F h \<longleftrightarrow> (\<forall>a c. conn_at h a = Some c \<longrightarrow> conn_ok h a c) \<and>
     (\<forall>w V. evws_at h w = Some V \<longrightarrow> evws_ok F h w V) \<and>
     (\<forall>m M. message_at h m = Some M \<longrightarrow> (\<exists>c. conn_at h (m_evcon M) = Some c \<and> m \<in> set (c_messages c)))"

lemma ws_okD:
  assumes "ws_ok F h"
  shows "conn_at h a = Some c \<Longrightarrow> conn_ok h a c" and "evws_at h w = Some V \<Longrightarrow> evws_ok F h w V"
    and "message_at h m = Some M \<Longrightarrow> \<exists>c. conn_at h (m_evcon M) = Some c \<and> m \<in> set (c_messages c)"
  using assms by (simp_all add: ws_ok_def)

text \<open>A step that works on one connection: it may end it and note an error, nothing else.\<close>

definition conn_changed :: "addr \<Rightarrow> ('j, 'w, 'z) ws \<Rightarrow> ('j, 'w, 'z) ws \<Rightarrow> bool" where
  "conn_changed a h h' \<longleftrightarrow> (\<exists>c e b. conn_at h a = Some c \<and> (b \<longrightarrow> c_active c) \<and>
     conn_at h' = (conn_at h)(a \<mapsto> c\<lparr>c_active := b, c_last_error := e\<rparr>) \<and>
     message_at h' = message_at h \<and> evws_at h' = evws_at h)"

lemma conn_changed_trans:
  assumes "conn_changed a h h'" and "conn_changed a h' h''"
  shows "conn_changed a h h''"
  using assms by (fastforce simp: conn_changed_def)

lemma conn_changed_refl: "conn_at h a = Some c \<Longrightarrow> conn_changed a h h"
  unfolding conn_changed_def
  by (intro exI [of _ c] exI [of _ "c_last_error c"] exI [of _ "c_active c"]) (auto simp: fun_upd_idem)

lemma conn_changed_conn:
  assumes "conn_changed a h h'"
  obtains c c' where "conn_at h a = Some c" "conn_at h' a = Some c'" "c_messages c' = c_messages c"
    "c_evws c' = c_evws c" "c_active c' \<longrightarrow> c_active c" "conn_at h' = (conn_at h)(a \<mapsto> c')"
    "message_at h' = message_at h" "evws_at h' = evws_at h"
proof -
  from assms obtain c e b where "conn_at h a = Some c" "b \<longrightarrow> c_active c"
    "conn_at h' = (conn_at h)(a \<mapsto> c\<lparr>c_active := b, c_last_error := e\<rparr>)"
    "message_at h' = message_at h" "evws_at h' = evws_at h" unfolding conn_changed_def by blast
  then show thesis by (intro that [of c "c\<lparr>c_active := b, c_last_error := e\<rparr>"]) simp_all
qed

lemma conn_changed_ok:
  assumes ch: "conn_changed a h h'" and ok: "ws_ok F h"
  shows "ws_ok F h'"
proof -
  obtain c c' where c: "conn_at h a = Some c" "c_messages c' = c_messages c" "c_evws c' = c_evws c"
    "conn_at h' = (conn_at h)(a \<mapsto> c')" "message_at h' = message_at h" "evws_at h' = evws_at h"
    by (rule conn_changed_conn [OF ch])
  show ?thesis
    unfolding ws_ok_def
  proof (intro conjI allI impI)
    fix b d assume d: "conn_at h' b = Some d"
    show "conn_ok h' b d"
    proof (cases "b = a")
      case True
      with d c ws_okD(1) [OF ok c(1)] show ?thesis by (simp add: conn_ok_def)
    next
      case False
      with d c have "conn_at h b = Some d" by simp
      from ws_okD(1) [OF ok this] c show ?thesis by (simp add: conn_ok_def)
    qed
  next
    fix w V assume "evws_at h' w = Some V"
    with c have "evws_at h w = Some V" by simp
    from ws_okD(2) [OF ok this] c show "evws_ok F h' w V" by (auto simp: evws_ok_def)
  next
    fix m M assume "message_at h' m = Some M"
    with c have "message_at h m = Some M" by simp
    from ws_okD(3) [OF ok this] c show "\<exists>c. conn_at h' (m_evcon M) = Some c \<and> m \<in> set (c_messages c)"
      by (cases "m_evcon M = a") auto
  qed
qed

section \<open>The interface to the owner of the connections\<close>

text \<open>
  What the websocket server relies on when it tells the rest of the program that a connection has
  ended: \<open>P\<close> is the state of that part, which nothing this file does by itself can disturb.
\<close>

definition ws_only :: "('j, 'w, 'z) ws \<Rightarrow> ('j, 'w, 'z) ws \<Rightarrow> bool" where
  "ws_only h h' \<longleftrightarrow> (\<exists>x cs ms es ns. h' =
     h\<lparr>net_st := x, conn_at := cs, message_at := ms, evws_at := es, net_calls := ns\<rparr>)"

definition ws_still :: "('j, 'w, 'z) ws \<Rightarrow> ('j, 'w, 'z) ws \<Rightarrow> bool" where
  "ws_still h h' \<longleftrightarrow> conn_at h' = conn_at h \<and> message_at h' = message_at h \<and> evws_at h' = evws_at h \<and>
     net_st h' = net_st h"

lemma ws_only_updates [simp]:
  "ws_only h (h\<lparr>net_st := x\<rparr>)" "ws_only h (set_conn a c h)" "ws_only h (set_evws w V h)" "ws_only h (set_message m M h)"
  "ws_only h (net_log es h)" "ws_only h (h\<lparr>conn_at := cs\<rparr>)" "ws_only h (h\<lparr>message_at := ms\<rparr>)" "ws_only h (h\<lparr>evws_at := vs\<rparr>)"
  unfolding ws_only_def set_conn_def set_evws_def set_message_def net_log_def
  by (cases h rule: ws_mem.cases_scheme; simp)+

locale ws_client =
  fixes runc :: "('j, 'w, 'z) ws_runner" and F :: "fnptr set" and P :: "('j, 'w, 'z) ws \<Rightarrow> bool"
  assumes runs: "f \<in> F \<Longrightarrow> P h \<Longrightarrow> \<exists>h'. runc f a arg h = Some h' \<and> P h' \<and> ws_still h h'"
    and stable: "P h \<Longrightarrow> ws_only h h' \<Longrightarrow> P h'"
begin

lemma close_returns:
  assumes ok: "ws_ok F h" and P: "P h" and c: "conn_at h a = Some c"
  shows "\<exists>h'. evws_close runc a h = Some h' \<and> P h' \<and> conn_changed a h h' \<and> net_st h' = net_st h \<and>
    conn_at h' = (conn_at h)(a \<mapsto> c\<lparr>c_active := False\<rparr>)"
proof -
  let ?h = "set_conn a (c\<lparr>c_active := False\<rparr>) h"
  have "conn_ok h a c" using ok c by (simp add: ws_ok_def)
  then obtain w V where w: "c_evws c = Some w" "evws_at h w = Some V" by (auto simp: conn_ok_def)
  have cl: "f \<in> F" if "closecb V = Some f" for f using ws_okD(2) [OF ok w(2)] that by (simp add: evws_ok_def)
  have P1: "P ?h" by (rule stable [OF P]) simp
  have ch: "conn_changed a h h'" if "ws_still ?h h'" for h'
    using that c unfolding conn_changed_def
    by (intro exI [of _ c] exI [of _ "c_last_error c"] exI [of _ False]) (auto simp: ws_still_def set_conn_def)
  have v: "evws_at ?h w = Some V" using w by (simp add: set_conn_def)
  show ?thesis
  proof (cases "closecb V")
    case None
    have "ws_still ?h ?h" by (simp add: ws_still_def)
    with None c w v P1 ch [of ?h] show ?thesis by (simp add: evws_close_def) (simp add: set_conn_def)
  next
    case (Some f)
    obtain h' where "runc f a (closecbarg V) ?h = Some h'" "P h'" "ws_still ?h h'"
      using runs [OF cl [OF Some] P1] by blast
    with Some c w v ch show ?thesis by (auto simp: evws_close_def ws_still_def set_conn_def)
  qed
qed

end

text \<open>
  wslay asks for finitely many writes: \<open>pending\<close> counts what it still has to write on a connection.
\<close>

definition after_write :: "'w net \<Rightarrow> addr \<Rightarrow> char list \<Rightarrow> 'w \<Rightarrow> 'w set" where
  "after_write N a d x = (let y = snd (bufferevent_write N a d x) in {y, wslay_event_set_error N a y})"

definition net_ok :: "'w net \<Rightarrow> ('w \<Rightarrow> nat) \<Rightarrow> bool" where
  "net_ok N pending \<longleftrightarrow> (\<forall>a x d x'. wslay_send_step N a x = (Send_data d, x') \<longrightarrow>
     (\<forall>y \<in> after_write N a d x'. \<forall>n. pending (wslay_send_answer N a n y) < pending x))"

lemma changed_error:
  "conn_at h a = Some c \<Longrightarrow> set_last_error a e h = Some (set_conn a (c\<lparr>c_last_error := e\<rparr>) h) \<and>
   conn_changed a h (set_conn a (c\<lparr>c_last_error := e\<rparr>) h)"
  unfolding set_last_error_def conn_changed_def
  by (intro conjI exI [of _ c] exI [of _ e] exI [of _ "c_active c"]) (simp_all add: set_conn_def)

lemma changed_net: "conn_at h a = Some c \<Longrightarrow> conn_changed a h (h\<lparr>net_st := x\<rparr>)"
  unfolding conn_changed_def
  by (intro exI [of _ c] exI [of _ "c_last_error c"] exI [of _ "c_active c"]) (auto simp: fun_upd_idem)

lemma changed_alive: "conn_changed a h h' \<Longrightarrow> \<exists>c. conn_at h' a = Some c"
  by (auto simp: conn_changed_def)

lemma set_conn_net [simp]: "net_st (set_conn a c h) = net_st h" "conn_at (set_conn a c h) = (conn_at h)(a \<mapsto> c)"
  "message_at (set_conn a c h) = message_at h" "evws_at (set_conn a c h) = evws_at h"
  by (simp_all add: set_conn_def)

context ws_client begin

lemma send_callback_returns:
  assumes P: "P h" and c: "conn_at h a = Some c"
  shows "\<exists>n h'. evws_wslay_send_callback N a d h = Some (n, h') \<and> P h' \<and> conn_changed a h h' \<and>
    net_st h' \<in> after_write N a d (net_st h)"
proof -
  obtain r y where w: "bufferevent_write N a d (net_st h) = (r, y)" by force
  let ?h = "set_conn a (c\<lparr>c_last_error := 0\<rparr>) h"
  note e = changed_error [OF c, of 0]
  have k: "conn_changed a h (?h\<lparr>net_st := x\<rparr>)" for x
    by (rule conn_changed_trans [OF conjunct2 [OF e]], rule changed_net) simp
  have P1: "P ?h" by (rule stable [OF P]) simp
  have Px: "P (?h\<lparr>net_st := x\<rparr>)" for x by (rule stable [OF P1]) simp
  show ?thesis
    using e k Px w by (cases "r = 0") (auto simp: evws_wslay_send_callback_def with_net_def after_write_def)
qed

lemma event_send_returns:
  assumes N: "net_ok N pending"
  shows "P h \<Longrightarrow> conn_at h a = Some c \<Longrightarrow>
    \<exists>r h'. wslay_event_send N a h = Some (r, h') \<and> P h' \<and> conn_changed a h h'"
proof (induction "pending (net_st h)" arbitrary: h c rule: less_induct)
  case less
  obtain act x where s: "wslay_send_step N a (net_st h) = (act, x)" by force
  show ?case
  proof (cases act)
    case (Send_done r)
    have "P (h\<lparr>net_st := x\<rparr>)" by (rule stable [OF less.prems(1)]) simp
    with Send_done s changed_net [OF less.prems(2)] show ?thesis by (simp add: wslay_event_send.simps [of N a h])
  next
    case (Send_data d)
    let ?h = "h\<lparr>net_st := x\<rparr>"
    have "P ?h" by (rule stable [OF less.prems(1)]) simp
    moreover have "conn_at ?h a = Some c" using less.prems(2) by simp
    ultimately obtain n h1 where cb: "evws_wslay_send_callback N a d ?h = Some (n, h1)" "P h1" "conn_changed a ?h h1"
      "net_st h1 \<in> after_write N a d (net_st ?h)" using send_callback_returns by blast
    let ?h2 = "h1\<lparr>net_st := wslay_send_answer N a n (net_st h1)\<rparr>"
    have lt: "pending (net_st ?h2) < pending (net_st h)"
      using N s Send_data cb(4) unfolding net_ok_def by simp
    obtain c1 where c1: "conn_at h1 a = Some c1" using changed_alive [OF cb(3)] by blast
    have P2: "P ?h2" by (rule stable [OF cb(2)]) simp
    have "conn_at ?h2 a = Some c1" using c1 by simp
    from less.hyps [OF lt P2 this] obtain r h' where
      r: "wslay_event_send N a ?h2 = Some (r, h')" "P h'" "conn_changed a ?h2 h'" by blast
    have "conn_changed a h h'"
      by (rule conn_changed_trans [OF conn_changed_trans [OF conn_changed_trans
            [OF changed_net [OF less.prems(2)] cb(3)] changed_net [OF c1]] r(3)])
    with r cb(1) s Send_data show ?thesis by (simp add: wslay_event_send.simps [of N a h])
  qed
qed

lemma write_returns:
  assumes N: "net_ok N pending" and ok: "ws_ok F h" and P: "P h" and c: "conn_at h a = Some c"
  shows "\<exists>h'. evws_connection_write N runc a h = Some h' \<and> P h' \<and> conn_changed a h h'"
proof -
  have finish: "\<exists>h'. (if wslay_event_get_close_sent N a (net_st h1) then Some (net_log [Bufferevent_setcb_close a] h1)
      else Some h1) = Some h' \<and> P h' \<and> conn_changed a h h'" if "P h1" "conn_changed a h h1" for h1
  proof -
    have "conn_changed a h (net_log es h1)" for es
      using that(2) by (simp add: conn_changed_def net_log_def)
    moreover have "P (net_log es h1)" for es by (rule stable [OF that(1)]) simp
    ultimately show ?thesis using that by simp
  qed
  show ?thesis
  proof (cases "wslay_event_want_write N a (net_st h)")
    case False
    with c finish [OF P conn_changed_refl [OF c]] show ?thesis by (simp add: evws_connection_write_def)
  next
    case True
    obtain e h1 where s: "wslay_event_send N a h = Some (e, h1)" "P h1" "conn_changed a h h1"
      using event_send_returns [OF N P c] by blast
    obtain c1 where c1: "conn_at h1 a = Some c1" using changed_alive [OF s(3)] by blast
    let ?h2 = "set_conn a (c1\<lparr>c_last_error := e\<rparr>) h1"
    note le = changed_error [OF c1, of e]
    have ch: "conn_changed a h ?h2" by (rule conn_changed_trans [OF s(3)]) (use le in simp)
    have P2: "P ?h2" by (rule stable [OF s(2)]) simp
    show ?thesis
    proof (cases "e < 0")
      case True
      obtain h3 where "evws_close runc a ?h2 = Some h3" "P h3" "conn_changed a ?h2 h3"
        using close_returns [OF conn_changed_ok [OF ch ok] P2, of a "c1\<lparr>c_last_error := e\<rparr>"] by auto
      with True c s le \<open>wslay_event_want_write N a (net_st h)\<close> conn_changed_trans [OF ch] show ?thesis
        by (simp add: evws_connection_write_def)
    next
      case False
      with c s le \<open>wslay_event_want_write N a (net_st h)\<close> finish [OF P2 ch] show ?thesis
        by (simp add: evws_connection_write_def)
    qed
  qed
qed

text \<open>Sending a message or a close frame: on an ended connection nothing happens.\<close>

lemma send_returns:
  assumes N: "net_ok N pending" and ok: "ws_ok F h" and P: "P h" and c: "conn_at h a = Some c"
  shows "\<exists>h'. evws_connection_send_int N runc a opcode message h = Some h' \<and> P h' \<and> conn_changed a h h' \<and>
    (\<not> c_active c \<longrightarrow> h' = h)"
    and "\<exists>h'. evws_connection_send_close N runc a h = Some h' \<and> P h' \<and> conn_changed a h h' \<and>
    (\<not> c_active c \<longrightarrow> h' = h)"
proof -
  have go: "\<exists>h'. (do { let (e, h) = with_net f h; h \<leftarrow> set_last_error a e h;
       if e < 0 then evws_close runc a h else evws_connection_write N runc a h }) = Some h' \<and> P h' \<and> conn_changed a h h'" for f
  proof -
    obtain e x where f: "f (net_st h) = (e, x)" by force
    let ?h1 = "h\<lparr>net_st := x\<rparr>"
    have c1: "conn_at ?h1 a = Some c" using c by simp
    let ?h2 = "set_conn a (c\<lparr>c_last_error := e\<rparr>) ?h1"
    note le = changed_error [OF c1, of e]
    have ch: "conn_changed a h ?h2" by (rule conn_changed_trans [OF changed_net [OF c, of x]]) (use le in simp)
    have P1: "P ?h1" by (rule stable [OF P]) simp
    have P2: "P ?h2" by (rule stable [OF P1]) simp
    have c2: "conn_at ?h2 a = Some (c\<lparr>c_last_error := e\<rparr>)" by simp
    note ok2 = conn_changed_ok [OF ch ok]
    show ?thesis
      using f le conn_changed_trans [OF ch] close_returns [OF ok2 P2 c2] write_returns [OF N ok2 P2 c2]
      by (cases "e < 0") (auto simp: with_net_def)
  qed
  show "\<exists>h'. evws_connection_send_int N runc a opcode message h = Some h' \<and> P h' \<and> conn_changed a h h' \<and>
    (\<not> c_active c \<longrightarrow> h' = h)"
    using go [of "wslay_event_queue_msg N a opcode message"] c P conn_changed_refl [OF c]
    by (cases "c_active c") (simp_all add: evws_connection_send_int_def)
  show "\<exists>h'. evws_connection_send_close N runc a h = Some h' \<and> P h' \<and> conn_changed a h h' \<and>
    (\<not> c_active c \<longrightarrow> h' = h)"
    using go [of "wslay_event_queue_close N a"] c P conn_changed_refl [OF c]
    by (cases "c_active c") (simp_all add: evws_connection_send_close_def)
qed

end

lemma free_simps [simp]:
  "conn_at h a = Some c \<Longrightarrow> free_conn a h = Some (h\<lparr>conn_at := (conn_at h)(a := None)\<rparr>)"
  "message_at h m = Some M \<Longrightarrow> free_message m h = Some (h\<lparr>message_at := (message_at h)(m := None)\<rparr>)"
  "evws_at h w = Some V \<Longrightarrow> free_evws w h = Some (h\<lparr>evws_at := (evws_at h)(w := None)\<rparr>)"
  by (simp_all add: free_conn_def free_message_def free_evws_def)

definition message_freed :: "addr \<Rightarrow> addr \<Rightarrow> evws_connection \<Rightarrow> ('j, 'w, 'z) ws \<Rightarrow> ('j, 'w, 'z) ws" where
  "message_freed m a c h = (set_conn a (c\<lparr>c_messages := remove1 m (c_messages c)\<rparr>) h)
     \<lparr>message_at := (message_at h)(m := None)\<rparr>"

lemma message_free_eq:
  assumes ok: "ws_ok F h" and c: "conn_at h a = Some c" and m: "m \<in> set (c_messages c)"
  shows "evws_message_free m h = Some (message_freed m a c h)"
proof -
  from ws_okD(1) [OF ok c] m obtain M where "message_at h m = Some M" "m_evcon M = a" by (auto simp: conn_ok_def)
  with c m show ?thesis by (simp add: evws_message_free_def message_freed_def)
qed

lemma message_freed_ok:
  assumes ok: "ws_ok F h" and c: "conn_at h a = Some c" and m: "m \<in> set (c_messages c)"
  shows "ws_ok F (message_freed m a c h)"
proof -
  let ?h = "message_freed m a c h"
  let ?c = "c\<lparr>c_messages := remove1 m (c_messages c)\<rparr>"
  have ca: "conn_ok h a c" by (rule ws_okD(1) [OF ok c])
  from ca m obtain M0 where M0: "message_at h m = Some M0" "m_evcon M0 = a" by (auto simp: conn_ok_def)
  have s: "conn_at ?h = (conn_at h)(a \<mapsto> ?c)" "message_at ?h = (message_at h)(m := None)" "evws_at ?h = evws_at h"
    by (simp_all add: message_freed_def)
  show ?thesis
    unfolding ws_ok_def
  proof (intro conjI allI impI)
    fix b d assume d: "conn_at ?h b = Some d"
    show "conn_ok ?h b d"
    proof (cases "b = a")
      case True
      with d s ca show ?thesis by (auto simp: conn_ok_def)
    next
      case False
      with d s have "conn_ok h b d" using ws_okD(1) [OF ok, of b d] by simp
      with False M0 s show ?thesis by (auto simp: conn_ok_def)
    qed
  next
    fix w V assume "evws_at ?h w = Some V"
    with s have "evws_ok F h w V" using ws_okD(2) [OF ok, of w V] by simp
    with s c show "evws_ok F ?h w V" by (auto simp: evws_ok_def)
  next
    fix k M assume M: "message_at ?h k = Some M"
    with s have "message_at h k = Some M" "k \<noteq> m" by (auto split: if_splits)
    with ws_okD(3) [OF ok, of k M] s c show "\<exists>d. conn_at ?h (m_evcon M) = Some d \<and> k \<in> set (c_messages d)"
      by (cases "m_evcon M = a") auto
  qed
qed

context ws_client begin

lemma free_messages_returns:
  "ws_ok F h \<Longrightarrow> P h \<Longrightarrow> conn_at h a = Some c \<Longrightarrow>
   \<exists>h'. free_messages a h = Some h' \<and> P h' \<and> ws_ok F h' \<and> conn_at h' = (conn_at h)(a \<mapsto> c\<lparr>c_messages := []\<rparr>) \<and>
     message_at h' = message_at h |` (- set (c_messages c)) \<and> evws_at h' = evws_at h"
proof (induction "c_messages c" arbitrary: h c)
  case Nil
  then have "c\<lparr>c_messages := []\<rparr> = c" by simp
  moreover have "f |` UNIV = f" for f :: "addr \<rightharpoonup> evws_message" by (simp add: restrict_map_def)
  ultimately show ?case using Nil by (simp add: free_messages.simps [of a h] fun_upd_idem)
next
  case (Cons m ms)
  let ?h = "message_freed m a c h"
  let ?c = "c\<lparr>c_messages := remove1 m (c_messages c)\<rparr>"
  have m: "m \<in> set (c_messages c)" using Cons.hyps(2) by (metis list.set_intros(1))
  have ms: "ms = c_messages ?c" using Cons.hyps(2) [symmetric] by simp
  have "P (set_conn a ?c h)" by (rule stable [OF Cons.prems(2)]) simp
  then have "P ?h" unfolding message_freed_def by (rule stable) simp
  moreover have "conn_at ?h a = Some ?c" by (simp add: message_freed_def)
  ultimately obtain h' where h': "free_messages a ?h = Some h'" "P h'" "ws_ok F h'"
      "conn_at h' = (conn_at ?h)(a \<mapsto> ?c\<lparr>c_messages := []\<rparr>)"
      "message_at h' = message_at ?h |` (- set (c_messages ?c))" "evws_at h' = evws_at ?h"
    using Cons.hyps(1) [OF ms message_freed_ok [OF Cons.prems(1,3) m]] by blast
  have "free_messages a h = Some h'"
    using Cons.prems(3) Cons.hyps(2) [symmetric] message_free_eq [OF Cons.prems(1,3) m] h'(1)
    by (simp add: free_messages.simps [of a h])
  moreover have "message_at ?h |` (- set (c_messages ?c)) = message_at h |` (- set (c_messages c))"
    using Cons.hyps(2) [symmetric] by (auto simp: message_freed_def restrict_map_def fun_eq_iff)
  ultimately show ?case using h' by (simp add: message_freed_def)
qed

lemma connection_free_returns:
  assumes N: "net_ok N pending" and ok: "ws_ok F h" and P: "P h" and c: "conn_at h a = Some c"
    and V: "c_evws c = Some w" "evws_at h w = Some V"
  shows "\<exists>h'. evws_connection_free N runc a h = Some h' \<and> P h' \<and> ws_ok F h' \<and> conn_at h' = (conn_at h)(a := None) \<and>
    message_at h' = message_at h |` (- set (c_messages c)) \<and>
    evws_at h' = (evws_at h)(w \<mapsto> V\<lparr>ws_connections := remove1 a (ws_connections V)\<rparr>)"
proof -
  have "\<exists>h1. (if c_active c then do {
         h \<leftarrow> evws_connection_send_close N runc a h;
         c \<leftarrow> conn_at h a;
         Some (set_conn a (c\<lparr>c_active := False\<rparr>) h) } else Some h) = Some h1 \<and> P h1 \<and> conn_changed a h h1"
  proof (cases "c_active c")
    case False
    with P conn_changed_refl [OF c] show ?thesis by simp
  next
    case True
    obtain h1 where h1: "evws_connection_send_close N runc a h = Some h1" "P h1" "conn_changed a h h1"
      using send_returns(2) [OF N ok P c] by blast
    obtain c1 where c1: "conn_at h1 a = Some c1" using changed_alive [OF h1(3)] by blast
    have "conn_changed a h1 (set_conn a (c1\<lparr>c_active := False\<rparr>) h1)"
      unfolding conn_changed_def
      by (intro exI [of _ c1] exI [of _ "c_last_error c1"] exI [of _ False]) (use c1 in simp)
    moreover have "P (set_conn a (c1\<lparr>c_active := False\<rparr>) h1)" by (rule stable [OF h1(2)]) simp
    ultimately show ?thesis using True h1 c1 conn_changed_trans [OF h1(3)] by simp
  qed
  then obtain h1 where h1: "(if c_active c then do {
         h \<leftarrow> evws_connection_send_close N runc a h;
         c \<leftarrow> conn_at h a;
         Some (set_conn a (c\<lparr>c_active := False\<rparr>) h) } else Some h) = Some h1" "P h1" "conn_changed a h h1" by blast
  obtain c0 c1 where c01: "conn_at h a = Some c0" "conn_at h1 a = Some c1" "c_messages c1 = c_messages c0"
    "c_evws c1 = c_evws c0" "conn_at h1 = (conn_at h)(a \<mapsto> c1)" "message_at h1 = message_at h" "evws_at h1 = evws_at h"
    by (rule conn_changed_conn [OF h1(3)])
  then have c1: "conn_at h1 a = Some c1" "c_messages c1 = c_messages c" "c_evws c1 = Some w" using c V by simp_all
  note ok1 = conn_changed_ok [OF h1(3) ok]
  obtain h2 where h2: "free_messages a h1 = Some h2" "P h2" "ws_ok F h2"
    "conn_at h2 = (conn_at h1)(a \<mapsto> c1\<lparr>c_messages := []\<rparr>)"
    "message_at h2 = message_at h1 |` (- set (c_messages c1))" "evws_at h2 = evws_at h1"
    using free_messages_returns [OF ok1 h1(2) c1(1)] by blast
  have a: "a \<in> set (ws_connections V)" using ws_okD(1) [OF ok c] V by (auto simp: conn_ok_def)
  let ?V = "V\<lparr>ws_connections := remove1 a (ws_connections V)\<rparr>"
  let ?h3 = "net_log [Wslay_context_free a, Bufferevent_free a] (set_evws w ?V h2)"
  let ?h4 = "?h3\<lparr>conn_at := (conn_at ?h3)(a := None)\<rparr>"
  have c2: "conn_at h2 a = Some (c1\<lparr>c_messages := []\<rparr>)" using h2(4) by simp
  have v2: "evws_at h2 w = Some V" using h2(6) c01(7) V by simp
  have s: "conn_at ?h4 = (conn_at h2)(a := None)" "message_at ?h4 = message_at h2" "evws_at ?h4 = (evws_at h2)(w \<mapsto> ?V)"
    by (simp_all add: net_log_def set_evws_def)
  have "P (set_evws w ?V h2)" by (rule stable [OF h2(2)]) simp
  then have "P ?h3" by (rule stable) simp
  then have P4: "P ?h4" by (rule stable) simp
  have ok4: "ws_ok F ?h4"
    unfolding ws_ok_def
  proof (intro conjI allI impI)
    fix b d assume d: "conn_at ?h4 b = Some d"
    with s have b: "b \<noteq> a" "conn_at h2 b = Some d" by (auto split: if_splits)
    from ws_okD(1) [OF h2(3) b(2)] b(1) s v2 show "conn_ok ?h4 b d" by (auto simp: conn_ok_def)
  next
    fix x U assume x: "evws_at ?h4 x = Some U"
    show "evws_ok F ?h4 x U"
    proof (cases "x = w")
      case True
      with x s ws_okD(2) [OF h2(3) v2] show ?thesis by (auto simp: evws_ok_def)
    next
      case False
      with x s have u: "evws_ok F h2 x U" using ws_okD(2) [OF h2(3), of x U] by simp
      have "a \<notin> set (ws_connections U)"
      proof
        assume "a \<in> set (ws_connections U)"
        with u c2 c1(3) have "x = w" by (auto simp: evws_ok_def)
        with False show False by simp
      qed
      with u s show ?thesis by (auto simp: evws_ok_def)
    qed
  next
    fix k M assume "message_at ?h4 k = Some M"
    with s have "message_at h2 k = Some M" by simp
    from ws_okD(3) [OF h2(3) this] c2 s show "\<exists>d. conn_at ?h4 (m_evcon M) = Some d \<and> k \<in> set (c_messages d)"
      by (cases "m_evcon M = a") auto
  qed
  have "evws_connection_free N runc a h = Some ?h4"
    using c h1(1) h2(1) c2 c1(3) v2 a
    by (simp add: evws_connection_free_def net_log_def set_evws_def)
  moreover have "conn_at ?h4 = (conn_at h)(a := None)" using s(1) h2(4) c01(5) by simp
  moreover have "message_at ?h4 = message_at h |` (- set (c_messages c))" using s(2) h2(5) c01(6) c1(2) by simp
  moreover have "evws_at ?h4 = (evws_at h)(w \<mapsto> ?V)" using s(3) h2(6) c01(7) by simp
  ultimately show ?thesis using P4 ok4 by blast
qed

lemma evws_free_returns:
  assumes N: "net_ok N pending"
  shows "ws_ok F h \<Longrightarrow> P h \<Longrightarrow> evws_at h w = Some V \<Longrightarrow>
    \<exists>h'. evws_free N runc w h = Some h' \<and> P h' \<and> ws_ok F h' \<and> evws_at h' = (evws_at h)(w := None) \<and>
      conn_at h' = conn_at h |` (- set (ws_connections V))"
proof (induction "length (ws_connections V)" arbitrary: h V)
  case 0
  then have e: "ws_connections V = []" by simp
  let ?h = "h\<lparr>evws_at := (evws_at h)(w := None)\<rparr>"
  have none: "c_evws c \<noteq> Some w" if "conn_at h a = Some c" for a c
    using ws_okD(1) [OF 0(2) that] 0(4) e by (auto simp: conn_ok_def)
  have "ws_ok F ?h"
    unfolding ws_ok_def
  proof (intro conjI allI impI)
    fix a c assume "conn_at ?h a = Some c"
    then show "conn_ok ?h a c" using ws_okD(1) [OF 0(2), of a c] none [of a c] by (auto simp: conn_ok_def)
  next
    fix x U assume "evws_at ?h x = Some U"
    then show "evws_ok F ?h x U" using ws_okD(2) [OF 0(2), of x U] by (auto simp: evws_ok_def split: if_splits)
  next
    fix k M assume "message_at ?h k = Some M"
    then show "\<exists>d. conn_at ?h (m_evcon M) = Some d \<and> k \<in> set (c_messages d)" using ws_okD(3) [OF 0(2), of k M] by simp
  qed
  moreover have "P ?h" by (rule stable [OF 0(3)]) simp
  moreover have "f |` UNIV = f" for f :: "addr \<rightharpoonup> evws_connection" by (simp add: restrict_map_def)
  moreover have "evws_free N runc w h = Some ?h" using e 0(4) by (simp add: evws_free.simps [of N runc w h])
  ultimately show ?case using e by (intro exI [of _ ?h]) simp
next
  case (Suc n)
  then obtain a as where as: "ws_connections V = a # as" by (cases "ws_connections V") auto
  have v: "evws_ok F h w V" by (rule ws_okD(2) [OF Suc.prems(1,3)])
  then obtain c where c: "conn_at h a = Some c" "c_evws c = Some w" using as by (auto simp: evws_ok_def)
  obtain h1 where h1: "evws_connection_free N runc a h = Some h1" "P h1" "ws_ok F h1" "conn_at h1 = (conn_at h)(a := None)"
      "evws_at h1 = (evws_at h)(w \<mapsto> V\<lparr>ws_connections := remove1 a (ws_connections V)\<rparr>)"
    using connection_free_returns [OF N Suc.prems(1,2) c Suc.prems(3)] by blast
  let ?V = "V\<lparr>ws_connections := as\<rparr>"
  have "evws_at h1 w = Some ?V" using h1(5) as by simp
  moreover have "n = length (ws_connections ?V)" using Suc.hyps(2) as by simp
  ultimately obtain h2 where h2: "evws_free N runc w h1 = Some h2" "P h2" "ws_ok F h2"
      "evws_at h2 = (evws_at h1)(w := None)" "conn_at h2 = conn_at h1 |` (- set (ws_connections ?V))"
    using Suc.hyps(1) [of ?V h1] h1(2,3) by blast
  have "conn_at h2 = conn_at h |` (- set (ws_connections V))"
    using h2(5) h1(4) as by (auto simp: restrict_map_def fun_eq_iff)
  moreover have "evws_at h2 = (evws_at h)(w := None)" using h2(4) h1(5) by simp
  moreover have "evws_free N runc w h = Some h2"
    using Suc.prems(3) as h1(1) h2(1) by (simp add: evws_free.simps [of N runc w h])
  ultimately show ?case using h2(2,3) by blast
qed

end

lemma ws_still_ok: "ws_still h h' \<Longrightarrow> ws_ok F h \<Longrightarrow> ws_ok F h'"
  by (simp add: ws_ok_def conn_ok_def evws_ok_def ws_still_def)

lemma ws_ok_mono: "ws_ok F h \<Longrightarrow> F \<subseteq> G \<Longrightarrow> ws_ok G h"
  unfolding ws_ok_def evws_ok_def by blast

lemma ws_only_trans: "ws_only h h' \<Longrightarrow> ws_only h' h'' \<Longrightarrow> ws_only h h''"
  unfolding ws_only_def by (cases h rule: ws_mem.cases_scheme) force

text \<open>The callback an event of a connection runs before the connection is freed.\<close>

definition event_callback :: "16 word \<Rightarrow> evws_connection \<Rightarrow> evws \<Rightarrow> (fnptr \<times> addr option) option" where
  "event_callback ev c V =
     (if bit ev 4 then (case closecb V of None \<Rightarrow> None | Some f \<Rightarrow> if c_active c then Some (f, closecbarg V) else None)
      else if bit ev 5 then (case errorcb V of None \<Rightarrow> None | Some f \<Rightarrow> Some (f, errorcbarg V))
      else None)"

lemma event_cb_eq:
  assumes "conn_at h a = Some c" and "c_evws c = Some w" and "evws_at h w = Some V"
  shows "evws_connection_event_cb N runc ev a h = (case event_callback ev c V of
      None \<Rightarrow> evws_connection_free N runc a h
    | Some (f, arg) \<Rightarrow> Option.bind (runc f a arg h) (evws_connection_free N runc a))"
  using assms by (auto simp: evws_connection_event_cb_def event_callback_def split: option.split)

lemma event_callback_F:
  assumes "evws_ok F h w V" and "event_callback ev c V = Some (f, arg)"
  shows "f \<in> F"
  using assms by (auto simp: evws_ok_def event_callback_def split: option.splits if_splits)

text \<open>
  Freeing an inactive connection runs no callback: only the websocket structures change.
\<close>

lemma free_inactive:
  fixes h :: "('j, 'w, 'z) ws"
  assumes N: "net_ok N pending" and ok: "ws_ok F h" and c: "conn_at h a = Some c" "\<not> c_active c"
    and V: "c_evws c = Some w" "evws_at h w = Some V"
  shows "\<exists>h'. evws_connection_free N runc a h = Some h' \<and> ws_only h h' \<and> conn_at h' = (conn_at h)(a := None)"
proof -
  define stay :: "('j, 'w, 'z) ws_runner" where "stay = (\<lambda>f a arg h. Some h)"
  have L: "ws_client stay UNIV (ws_only h)"
    by unfold_locales (auto simp: stay_def ws_still_def elim: ws_only_trans)
  have "ws_only h (h\<lparr>net_st := net_st h\<rparr>)" by (rule ws_only_updates(1))
  then have "ws_only h h" by simp
  from ws_client.connection_free_returns [OF L N ws_ok_mono [OF ok] this c(1) V]
  obtain h' where "evws_connection_free N stay a h = Some h'" "ws_only h h'" "conn_at h' = (conn_at h)(a := None)" by auto
  moreover have "evws_connection_free N runc a h = evws_connection_free N stay a h"
    using c by (simp add: evws_connection_free_def)
  ultimately show ?thesis by simp
qed

end
