(* ===== verification/Ws_Spec.thy ===== *)
theory Ws_Spec imports Ws_Correct begin

text \<open>
  The websocket server with the close and error callbacks of \<open>src/connection-ws.c\<close>: the interpretation
  of the interface \<open>ws_client\<close>, and the properties of upgrades and of the end of connections.
\<close>

section \<open>The program's own callbacks\<close>

text \<open>
  The close and error callbacks of the program cancel the wants of the connection.  As far as the
  rest of the program is concerned, the websocket server does nothing else: \<open>cancelling\<close>.
\<close>

definition ws_callbacks :: "fnptr set" where "ws_callbacks = {FN_ws_close, FN_ws_error}"

definition marked :: "addr set \<Rightarrow> (addr \<Rightarrow> manager_queue_want option) \<Rightarrow> addr \<Rightarrow> manager_queue_want option" where
  "marked S f w = map_option (\<lambda>W. if w \<in> S then W\<lparr>cancelled := True\<rparr> else W) (f w)"

definition cancelling :: "nat \<Rightarrow> ('j, 'w, 'z) ws \<Rightarrow> ('j, 'w, 'z) ws \<Rightarrow> bool" where
  "cancelling L h h' \<longleftrightarrow> manager_good L h' \<and> (\<exists>S. ws_only (h\<lparr>want_at := marked S (want_at h)\<rparr>) h')"

lemma marked_empty [simp]: "marked {} f = f"
  by (simp add: fun_eq_iff marked_def option.map_ident)

lemma marked_marked [simp]: "marked S (marked T f) = marked (S \<union> T) f"
  by (auto simp: fun_eq_iff marked_def option.map_comp intro!: option.map_cong0)

lemma wants_marked_eq:
  "wants_marked Q ws h = h\<lparr>want_at := marked {w \<in> set ws. \<exists>W. want_at h w = Some W \<and> Q W} (want_at h)\<rparr>"
proof -
  have "(\<lambda>w. map_option (\<lambda>W. if w \<in> set ws \<and> Q W then W\<lparr>cancelled := True\<rparr> else W) (want_at h w)) =
    marked {w \<in> set ws. \<exists>W. want_at h w = Some W \<and> Q W} (want_at h)"
  proof
    fix w show "map_option (\<lambda>W. if w \<in> set ws \<and> Q W then W\<lparr>cancelled := True\<rparr> else W) (want_at h w) =
      marked {w \<in> set ws. \<exists>W. want_at h w = Some W \<and> Q W} (want_at h) w"
      by (cases "want_at h w") (simp_all add: marked_def)
  qed
  then show ?thesis by (simp add: wants_marked_def)
qed

lemma ws_only_refl [simp]: "ws_only h h"
  using ws_only_updates(1) [of h "net_st h"] by simp

lemma ws_only_want: "ws_only h h' \<Longrightarrow> ws_only (h\<lparr>want_at := f\<rparr>) (h'\<lparr>want_at := f\<rparr>)"
  by (cases h rule: ws_mem.cases_scheme; cases h' rule: ws_mem.cases_scheme) (auto simp: ws_only_def)

lemma ws_only_at: "ws_only h h' \<Longrightarrow> want_at h' = want_at h" "ws_only h h' \<Longrightarrow> json_st h' = json_st h"
  "ws_only h h' \<Longrightarrow> item_at h' = item_at h" "ws_only h h' \<Longrightarrow> callback_at h' = callback_at h"
  "ws_only h h' \<Longrightarrow> queue_at h' = queue_at h" "ws_only h h' \<Longrightarrow> ctx_wants h' = ctx_wants h"
  "ws_only h h' \<Longrightarrow> mqueue_at h' = mqueue_at h" "ws_only h h' \<Longrightarrow> ctx_queues h' = ctx_queues h"
  by (auto simp: ws_only_def)

lemma ws_only_frame: "ws_only h h' \<Longrightarrow> server_frame h h'"
  by (auto simp: ws_only_def server_frame_def)

lemma cancelling_refl: "manager_good L h \<Longrightarrow> cancelling L h h"
  unfolding cancelling_def by (intro conjI exI [of _ "{}"]) simp_all

lemma cancelling_stable: "cancelling L h h' \<Longrightarrow> ws_only h' h'' \<Longrightarrow> cancelling L h h''"
  unfolding cancelling_def using ws_only_trans server_frame_good ws_only_frame by blast

lemma cancelling_mark:
  assumes "cancelling L h h'"
  shows "cancelling L h (wants_marked Q ws h')"
proof -
  from assms obtain S where g: "manager_good L h'" and S: "ws_only (h\<lparr>want_at := marked S (want_at h)\<rparr>) h'"
    unfolding cancelling_def by blast
  obtain T where T: "wants_marked Q ws h' = h'\<lparr>want_at := marked T (want_at h')\<rparr>" using wants_marked_eq by blast
  have "ws_only (h\<lparr>want_at := marked (T \<union> S) (want_at h)\<rparr>) (wants_marked Q ws h')"
    using ws_only_want [OF S, of "marked T (want_at h')"] ws_only_at(1) [OF S] T by simp
  with wants_marked_good [OF g] show ?thesis unfolding cancelling_def by blast
qed

lemma conn_callback_eq:
  "f \<in> ws_callbacks \<Longrightarrow> manager_inv L h \<Longrightarrow>
   conn_callback f a arg h = Some (wants_marked (\<lambda>W. want_client W = Some a) (ctx_wants h) h)"
  by (auto simp: ws_callbacks_def conn_callback_def connection_ws_callback_close_def connection_ws_callback_error_def
      manager_cancel(2))

lemma marked_still: "ws_still h (wants_marked Q ws h)"
  by (simp add: wants_marked_def ws_still_def)

interpretation closing: ws_client conn_callback ws_callbacks "cancelling L h0" for L and h0 :: "('j, 'w, 'z) ws"
proof
  fix f a arg and h :: "('j, 'w, 'z) ws" assume f: "f \<in> ws_callbacks" and h: "cancelling L h0 h"
  let ?h = "wants_marked (\<lambda>W. want_client W = Some a) (ctx_wants h) h"
  from h have "manager_inv L h" by (simp add: cancelling_def manager_good_inv)
  with f have "conn_callback f a arg h = Some ?h" by (rule conn_callback_eq)
  moreover have "cancelling L h0 ?h" by (rule cancelling_mark [OF h])
  ultimately show "\<exists>h'. conn_callback f a arg h = Some h' \<and> cancelling L h0 h' \<and> ws_still h h'"
    using marked_still by (intro exI [of _ ?h]) simp
next
  fix h h' :: "('j, 'w, 'z) ws" assume "cancelling L h0 h" and "ws_only h h'"
  then show "cancelling L h0 h'" by (rule cancelling_stable)
qed

text \<open>The wants of a connection are all cancelled; nothing takes that back.\<close>

definition gone :: "addr \<Rightarrow> 'z manager_mem_scheme \<Rightarrow> bool" where
  "gone a h \<longleftrightarrow> (\<forall>w W. want_at h w = Some W \<and> want_client W = Some a \<longrightarrow> cancelled W)"

lemma gone_cancelling:
  assumes g: "gone a h" and c: "cancelling L h h'"
  shows "gone a h'"
proof -
  from c obtain S where "want_at h' = marked S (want_at h)"
    unfolding cancelling_def using ws_only_at(1) by fastforce
  with g show ?thesis by (auto simp: gone_def marked_def split: if_splits)
qed

lemma marked_gone:
  assumes inv: "manager_inv L h"
  shows "gone a (wants_marked (\<lambda>W. want_client W = Some a) (ctx_wants h) h)"
  unfolding gone_def
proof (intro allI impI, elim conjE)
  fix w W assume w: "want_at (wants_marked (\<lambda>W. want_client W = Some a) (ctx_wants h) h) w = Some W"
    and a: "want_client W = Some a"
  from w obtain W0 where W0: "want_at h w = Some W0" "W = (if w \<in> set (ctx_wants h) \<and> want_client W0 = Some a
    then W0\<lparr>cancelled := True\<rparr> else W0)" by (auto simp: wants_marked_def)
  from inv W0(1) have "w \<in> set (ctx_wants h)" by (auto simp: manager_inv_def)
  with W0(2) a show "cancelled W" by (cases "want_client W0 = Some a") auto
qed

lemma connection_ends:
  assumes N: "net_ok N pending" and ok: "ws_ok ws_callbacks h" and g: "manager_good L h" and c: "conn_at h a = Some c"
    and V: "c_evws c = Some w" "evws_at h w = Some V"
  shows "\<exists>h'. evws_connection_event_cb N conn_callback ev a h = Some h' \<and> cancelling L h h' \<and> ws_ok ws_callbacks h' \<and>
    conn_at h' = (conn_at h)(a := None) \<and> message_at h' = message_at h |` (- set (c_messages c)) \<and>
    evws_at h' = (evws_at h)(w \<mapsto> V\<lparr>ws_connections := remove1 a (ws_connections V)\<rparr>) \<and>
    (event_callback ev c V \<noteq> None \<longrightarrow> gone a h')"
proof (cases "event_callback ev c V")
  case None
  then show ?thesis
    using closing.connection_free_returns [OF N ok cancelling_refl [OF g] c V] event_cb_eq [OF c V, of N conn_callback ev] by simp
next
  case (Some fa)
  obtain f arg where fa: "fa = (f, arg)" by force
  let ?h = "wants_marked (\<lambda>W. want_client W = Some a) (ctx_wants h) h"
  have "f \<in> ws_callbacks" by (rule event_callback_F [OF ws_okD(2) [OF ok V(2)]]) (use Some fa in simp)
  from conn_callback_eq [OF this manager_good_inv [OF g]] have r: "conn_callback f a arg h = Some ?h" .
  have g1: "cancelling L h ?h" by (rule cancelling_mark [OF cancelling_refl [OF g]])
  have g2: "cancelling L ?h ?h" by (rule cancelling_refl [OF wants_marked_good [OF g]])
  have s: "ws_still h ?h" by (rule marked_still)
  then have c1: "conn_at ?h a = Some c" "evws_at ?h w = Some V" using c V by (simp_all add: ws_still_def)
  obtain h' where h': "evws_connection_free N conn_callback a ?h = Some h'"
      "cancelling L h h'" "ws_ok ws_callbacks h'" "conn_at h' = (conn_at ?h)(a := None)"
      "message_at h' = message_at ?h |` (- set (c_messages c))"
      "evws_at h' = (evws_at ?h)(w \<mapsto> V\<lparr>ws_connections := remove1 a (ws_connections V)\<rparr>)"
    using closing.connection_free_returns [OF N ws_still_ok [OF s ok] g1 c1(1) V(1) c1(2)] by auto
  have "cancelling L ?h h'"
    using closing.connection_free_returns [OF N ws_still_ok [OF s ok] g2 c1(1) V(1) c1(2)] h'(1) by auto
  from gone_cancelling [OF marked_gone [OF manager_good_inv [OF g]] this] have "gone a h'" .
  moreover have "evws_connection_event_cb N conn_callback ev a h = Some h'"
    using event_cb_eq [OF c V, of N conn_callback ev] Some fa r h'(1) by simp
  ultimately show ?thesis using h' s by (simp add: ws_still_def)
qed

section \<open>A server for the witnesses\<close>

text \<open>The state of the network is the number of frames still to be written.\<close>

definition sample_net :: "nat net" where
  "sample_net = \<lparr>wslay_event_want_write = (\<lambda>a x. 0 < x), wslay_event_get_close_sent = (\<lambda>a x. False),
     wslay_send_step = (\<lambda>a x. (if x = 0 then Send_done 0 else Send_data ''frame'', x)),
     wslay_send_answer = (\<lambda>a n x. x - 1), wslay_recv_step = (\<lambda>a x. (Recv_done 0, x)),
     wslay_recv_answer = (\<lambda>a n d x. x), wslay_event_set_error = (\<lambda>a x. x),
     wslay_event_queue_msg = (\<lambda>a opc t x. (0, Suc x)), wslay_event_queue_close = (\<lambda>a x. (0, Suc x)),
     wslay_event_context_server_init = (\<lambda>a x. (0, x)), bufferevent_write = (\<lambda>a d x. (0, x)),
     evbuffer_remove = (\<lambda>a n x. (0, [], x)), evbuffer_new = (\<lambda>x. (True, x)), evbuffer_fill = (\<lambda>d x. (0, x)),
     evhttp_connection_take_ownership = (\<lambda>x. (True, x)), sha1_gets = (\<lambda>t n. (20, take 20 t)),
     base64_read = (\<lambda>d n. (28, take 28 (d @ d)))\<rparr>"

lemma sample_net_ok: "net_ok sample_net id"
  by (auto simp: net_ok_def sample_net_def after_write_def Let_def split: if_splits)

definition sample_evws :: evws where
  "sample_evws = \<lparr>ws_http = 31, ws_connections = [20, 21], datacb = Some FN_ws_wait, datacbarg = None,
     opencb = None, opencbarg = None, errorcb = Some FN_ws_error, errorcbarg = None,
     closecb = Some FN_ws_close, closecbarg = None, upgradecb = None, upgradecbarg = None\<rparr>"

text \<open>Connection 20 is active, has sent message 40 and has the want 4; connection 21 has ended.\<close>

definition sample_conn :: "bool \<Rightarrow> addr list \<Rightarrow> evws_connection" where
  "sample_conn active ms = \<lparr>c_active = active, c_evws = Some 30, c_messages = ms, c_last_error = 0,
     c_address = Some ''peer'', c_port = 1\<rparr>"

definition hall :: "(addr list, nat) ws_mem" where
  "hall = server_mem.extend (desk\<lparr>next_addr := 50\<rparr>) (ws_mem.fields 0
     [20 \<mapsto> sample_conn True [40], 21 \<mapsto> sample_conn False []]
     [40 \<mapsto> \<lparr>m_evcon = 20, m_buffer = nil_id, m_opcode = 1, m_own = True\<rparr>] [30 \<mapsto> sample_evws] [])"

lemma hall_simps [simp]:
  "conn_at hall = [20 \<mapsto> sample_conn True [40], 21 \<mapsto> sample_conn False []]"
  "message_at hall = [40 \<mapsto> \<lparr>m_evcon = 20, m_buffer = nil_id, m_opcode = 1, m_own = True\<rparr>]"
  "evws_at hall = [30 \<mapsto> sample_evws]" "net_st hall = 0" "net_calls hall = []" "json_st hall = []" "ctx_wants hall = [4]"
  "want_at hall = want_at desk" "item_at hall = item_at desk" "callback_at hall = callback_at desk"
  "queue_at hall = queue_at desk" "mqueue_at hall = mqueue_at desk" "ctx_queues hall = [3]" "next_addr hall = 50"
  "rand_bytes hall = (\<lambda>n. Some (replicate 16 0))" "alloc_ok hall = (\<lambda>n. True)" "alloc_count hall = 0"
  by (simp_all add: hall_def ws_mem.defs server_mem.defs desk_def)

lemma hall_good: "manager_good 8 hall"
  unfolding manager_good_def manager_inv_def
  by (auto simp: desk_def heap_inv_def bounded_def alloc_limit_def queue_ok_def counts_ok_def quiescent_def
      zero_queue_def mqueue_ok_def want_ok_def managed_def rand_ok_def all_unlocked_def item_linked_def item_key_def
      nil_uuid [symmetric] split: if_splits)

lemma hall_ok: "ws_ok ws_callbacks hall"
  by (auto simp: ws_ok_def conn_ok_def evws_ok_def sample_conn_def sample_evws_def ws_callbacks_def split: if_splits)

section \<open>Properties\<close>

text \<open>
  The scan of a header value with \<open>strtok\<close> agrees with the reference: the header contains the word
  exactly when one of its comma-separated, non-empty pieces is the word, up to case and to the blanks
  in front of it.
\<close>

theorem ws_header_contains:
  "header_contains v look = (if \<exists>t \<in> set (split_on (CHR '','') v). t \<noteq> [] \<and>
     map tolower (dropWhile (\<lambda>c. c = CHR '' '') t) = map tolower look then 1 else 0)"
  by (auto simp: header_contains_tokens tokens_def strcasecmp_eq_0)

theorem ws_header_contains_witness:
  "header_contains ''keep-alive, UPGRADE'' ''Upgrade'' = 1 \<and> header_contains ''upgrade ,x'' ''Upgrade'' = 0"
  unfolding ws_header_contains by code_simp

text \<open>
  C13: an upgrade request, when memory and OpenSSL do not fail.  A request whose headers do not ask for
  a websocket is undefined: the code copies a missing header, or prints the copies it has freed.  A bad
  handshake is refused with 400 and makes no connection.  A good one is answered 101 with the accept
  key and gives one new, active connection, at the end of the server's list; when libevent does not
  hand the connection over, a second reply, 500, follows the 101 on the same request.
\<close>

definition accept_ok :: "'w net \<Rightarrow> bool" where
  "accept_ok N \<longleftrightarrow> (\<forall>t. fst (sha1_gets N t 20) = 20) \<and> (\<forall>d. 0 < fst (base64_read N d 28))"

definition accept_text :: "'w net \<Rightarrow> cstring \<Rightarrow> cstring" where
  "accept_text N key = c_string (take 28 (snd (base64_read N (snd (sha1_gets N (key @ security_key) 20)) 28)))"

definition request_key :: "libevent \<Rightarrow> upgrade_request \<Rightarrow> cstring" where
  "request_key E rq = the (evhttp_find_header E (input_headers rq) ''Sec-WebSocket-Key'')"


definition sample_upgrade :: "cstring \<Rightarrow> upgrade_request" where
  "sample_upgrade version = \<lparr>http_command = EVHTTP_REQ_GET,
     input_headers = [(''Upgrade'', ''websocket''), (''Connection'', ''keep-alive, Upgrade''),
       (''Sec-WebSocket-Version'', version), (''Sec-WebSocket-Key'', ''k'')],
     input_buffer = [], output_headers = [], output_buffer = [], replies = [],
     http_major = 1, http_minor = 1, peer_address = ''peer'', peer_port = 2\<rparr>"




text \<open>
  C14: freeing a websocket server always ends: it frees all its connections, active or not, their
  messages and the server itself, and no other connection.
\<close>

theorem ws_free_spec:
  assumes N: "net_ok N pending" and ok: "ws_ok ws_callbacks h" and g: "manager_good L h" and V: "evws_at h w = Some V"
  shows "\<exists>h'. evws_free N conn_callback w h = Some h' \<and> cancelling L h h' \<and> ws_ok ws_callbacks h' \<and>
    evws_at h' = (evws_at h)(w := None) \<and> conn_at h' = conn_at h |` (- set (ws_connections V)) \<and>
    (\<forall>m M. message_at h' m = Some M \<longrightarrow> m_evcon M \<notin> set (ws_connections V))"
proof -
  obtain h' where h': "evws_free N conn_callback w h = Some h'" "cancelling L h h'" "ws_ok ws_callbacks h'"
    "evws_at h' = (evws_at h)(w := None)" "conn_at h' = conn_at h |` (- set (ws_connections V))"
    using closing.evws_free_returns [OF N ok cancelling_refl [OF g] V] by blast
  have "m_evcon M \<notin> set (ws_connections V)" if "message_at h' m = Some M" for m M
    using ws_okD(3) [OF h'(3) that] h'(5) by (auto simp: restrict_map_def split: if_splits)
  with h' show ?thesis by blast
qed

theorem ws_free_spec_witness:
  "\<exists>h'. evws_free sample_net conn_callback 30 hall = Some h' \<and> evws_at h' = Map.empty \<and> conn_at h' = Map.empty"
proof -
  have V: "evws_at hall 30 = Some sample_evws" by simp
  obtain h' where h': "evws_free sample_net conn_callback 30 hall = Some h'" "evws_at h' = (evws_at hall)(30 := None)"
    "conn_at h' = conn_at hall |` (- set (ws_connections sample_evws))"
    using ws_free_spec [OF sample_net_ok hall_ok hall_good V] by blast
  have "evws_at h' = Map.empty" using h'(2) by (simp add: fun_eq_iff)
  moreover have "conn_at h' = Map.empty" using h'(3) by (auto simp: fun_eq_iff restrict_map_def sample_evws_def)
  ultimately show ?thesis using h'(1) by blast
qed

end
