(* ===== verification/Connection_Ws_Correct.thy ===== *)
theory Connection_Ws_Correct
  imports Ws_Spec
begin

text \<open>
  Lemmas about \<open>src/connection-ws.c\<close>: an answer sends one text and leaves no JSON object behind (\<open>said\<close>);
  what the queue callback does for a want that is cancelled, live or dangling (\<open>delivered\<close>); what follows
  from it for a queue that runs the callback; and what a message that asks to wait does
  (\<open>said\<close> or \<open>registered\<close>).
\<close>

section \<open>Answering on a websocket\<close>

lemma ws_ok_json [simp]: "ws_ok F (h\<lparr>json_st := j\<rparr>) = ws_ok F h"
  by (simp add: ws_ok_def conn_ok_def evws_ok_def)

lemma ws_json_simps [simp]:
  "conn_at (h\<lparr>json_st := j\<rparr>) = conn_at h" "message_at (h\<lparr>json_st := j\<rparr>) = message_at h"
  "evws_at (h\<lparr>json_st := j\<rparr>) = evws_at h" "net_st (h\<lparr>json_st := j\<rparr>) = net_st h"
  by simp_all

text \<open>One text is sent on the connection \<open>a\<close>; the JSON objects that are left are \<open>S\<close>.\<close>

definition said :: "'w net \<Rightarrow> ('j \<Rightarrow> addr set) \<Rightarrow> addr \<Rightarrow> ('j, 'w, 'z) ws \<Rightarrow> addr set \<Rightarrow> ('j, 'w, 'z) ws option \<Rightarrow> bool" where
  "said N owned a h S res \<longleftrightarrow> (\<exists>text j h2 j'. evws_connection_send N conn_callback a text (h\<lparr>json_st := j\<rparr>) = Some h2 \<and>
     res = Some (h2\<lparr>json_st := j'\<rparr>) \<and> owned j' = S)"

lemma saidI:
  "evws_connection_send N conn_callback a text (h\<lparr>json_st := j\<rparr>) = Some h2 \<Longrightarrow> res = Some (h2\<lparr>json_st := j'\<rparr>) \<Longrightarrow>
   owned j' = S \<Longrightarrow> said N owned a h S res"
  unfolding said_def by blast

lemma said_json [simp]: "said N owned a (h\<lparr>json_st := j\<rparr>) S res = said N owned a h S res"
  by (simp add: said_def)

lemma send_cancelling:
  assumes N: "net_ok N pending" and ok: "ws_ok ws_callbacks h" and g: "manager_good L h" and c: "conn_at h a \<noteq> None"
  shows "\<exists>h2. evws_connection_send N conn_callback a t (h\<lparr>json_st := j\<rparr>) = Some h2 \<and>
    cancelling L (h\<lparr>json_st := j\<rparr>) h2 \<and> conn_changed a h h2"
proof -
  obtain c0 where c0: "conn_at h a = Some c0" using c by auto
  have c1: "conn_at (h\<lparr>json_st := j\<rparr>) a = Some c0" using c0 by simp
  have ok1: "ws_ok ws_callbacks (h\<lparr>json_st := j\<rparr>)" using ok by simp
  have g1: "cancelling L (h\<lparr>json_st := j\<rparr>) (h\<lparr>json_st := j\<rparr>)" using g by (intro cancelling_refl) simp
  obtain h2 where "evws_connection_send N conn_callback a t (h\<lparr>json_st := j\<rparr>) = Some h2"
    "cancelling L (h\<lparr>json_st := j\<rparr>) h2" "conn_changed a (h\<lparr>json_st := j\<rparr>) h2"
    using closing.send_returns(1) [OF N ok1 g1 c1, of WSLAY_TEXT_FRAME t] by (auto simp: evws_connection_send_def)
  then show ?thesis by (auto simp: conn_changed_def)
qed

lemma ws_json_said:
  assumes J: "json_contract (lib_json W) owned" and o: "set_option object \<subseteq> owned (json_st h)"
    and N: "net_ok N pending" and ok: "ws_ok ws_callbacks h" and g: "manager_good L h" and c: "conn_at h a \<noteq> None"
  shows "said N owned a h (owned (json_st h) - set_option object) (connection_ws_json N W (Some a) object h)"
proof -
  obtain s j1 where p: "json_object_to_json_string (lib_json W) object (json_st h) = Some (s, j1)"
    "owned j1 = owned (json_st h)" by (rule json_print [OF J o])
  obtain j2 where r: "json_put (lib_json W) object j1 = Some j2" "owned j2 = owned j1 - set_option object"
    by (rule json_release [OF J, of object j1]) (use o p in auto)
  let ?text = "if s = None \<or> object = None then protocol_failure_fallback else the s"
  obtain h2 where h2: "evws_connection_send N conn_callback a ?text (h\<lparr>json_st := j1\<rparr>) = Some h2"
    "cancelling L (h\<lparr>json_st := j1\<rparr>) h2" using send_cancelling [OF N ok g c] by blast
  from h2(2) have "json_st h2 = j1" unfolding cancelling_def using ws_only_at(2) by fastforce
  with p(1) r(1) h2(1) have "connection_ws_json N W (Some a) object h = Some (h2\<lparr>json_st := j2\<rparr>)"
    by (simp add: connection_ws_json_def with_json_def put_json_def)
  from saidI [OF h2(1) this, of owned, OF refl] r(2) p(2) show ?thesis by simp
qed

lemma ws_error_said:
  assumes J: "json_contract (lib_json W) owned" and w: "json_wraps (lib_json W)"
    and N: "net_ok N pending" and ok: "ws_ok ws_callbacks h" and g: "manager_good L h" and c: "conn_at h a \<noteq> None"
  shows "said N owned a h (owned (json_st h)) (connection_ws_error N W (Some a) message h)"
proof -
  obtain r j' where cr: "protocol_create_base (lib_json W) 0 (Some message) None (json_st h) = Some (r, j')"
    "set_option r \<subseteq> owned j'" "owned j' - set_option r = owned (json_st h) - set_option None"
    by (rule created_object [OF J w, of "Some message" None "json_st h" 0]) auto
  let ?h = "h\<lparr>json_st := j'\<rparr>"
  have "said N owned a ?h (owned (json_st ?h) - set_option r) (connection_ws_json N W (Some a) r ?h)"
    by (rule ws_json_said [OF J _ N]) (use cr ok g c in simp_all)
  with cr show ?thesis by (simp add: connection_ws_error_def protocol_create_failure_def with_json_def)
qed

lemma ws_payload_said:
  assumes J: "json_contract (lib_json W) owned" and w: "json_wraps (lib_json W)"
    and p: "set_option payload \<subseteq> owned (json_st h)"
    and N: "net_ok N pending" and ok: "ws_ok ws_callbacks h" and g: "manager_good L h" and c: "conn_at h a \<noteq> None"
  shows "said N owned a h (owned (json_st h) - set_option payload) (connection_ws_payload N W (Some a) payload h)"
proof -
  obtain r j' where cr: "protocol_create_base (lib_json W) 1 None payload (json_st h) = Some (r, j')"
    "set_option r \<subseteq> owned j'" "owned j' - set_option r = owned (json_st h) - set_option payload" "r \<noteq> None"
    by (rule created_object [OF J w, of None payload "json_st h" 1]) (use p in auto)
  let ?h = "h\<lparr>json_st := j'\<rparr>"
  have "said N owned a ?h (owned (json_st ?h) - set_option r) (connection_ws_json N W (Some a) r ?h)"
    by (rule ws_json_said [OF J _ N]) (use cr ok g c in simp_all)
  with cr show ?thesis by (auto simp: connection_ws_payload_def protocol_create_success_def with_json_def)
qed

text \<open>A connection that is no longer there cannot be answered.\<close>

lemma send_dead: "conn_at h a = None \<Longrightarrow> evws_connection_send N runc a text h = None"
  by (simp add: evws_connection_send_def evws_connection_send_int_def)

lemma ws_json_dead: "conn_at h a = None \<Longrightarrow> connection_ws_json N W (Some a) object h = None"
  by (auto simp: connection_ws_json_def with_json_def send_dead split: Option.bind_splits)

lemma ws_error_dead: "conn_at h a = None \<Longrightarrow> connection_ws_error N W (Some a) message h = None"
  by (auto simp: connection_ws_error_def with_json_def ws_json_dead split: Option.bind_splits)

lemma ws_payload_dead: "conn_at h a = None \<Longrightarrow> connection_ws_payload N W (Some a) payload h = None"
  by (auto simp: connection_ws_payload_def with_json_def put_json_def ws_json_dead ws_error_dead split: Option.bind_splits)

section \<open>Delivering an item to a want\<close>

text \<open>The want is on the connection \<open>a\<close>, and the item is in the hands of the callback.\<close>

definition ready :: "nat \<Rightarrow> ('j, 'w, 'z) ws \<Rightarrow> addr \<Rightarrow> addr \<Rightarrow> bool" where
  "ready L h item want \<longleftrightarrow> ws_ok ws_callbacks h \<and> manager_good L h \<and> loose h item \<and> want \<in> set (ctx_wants h)"

definition wanted_by :: "('j, 'w, 'z) ws \<Rightarrow> addr \<Rightarrow> addr \<Rightarrow> cstring \<Rightarrow> bool" where
  "wanted_by h want a ident \<longleftrightarrow> (\<exists>W. want_at h want = Some W \<and> want_client W = Some a \<and> want_identifier W = Some ident \<and> \<not> cancelled W)"

lemma loose_json [simp]: "loose (h\<lparr>json_st := j\<rparr>) a = loose h a"
  by (simp add: loose_def)

lemma ready_json [simp]: "ready L (h\<lparr>json_st := j\<rparr>) item want = ready L h item want"
  "wanted_by (h\<lparr>json_st := j\<rparr>) want a i = wanted_by h want a i"
  by (simp_all add: ready_def wanted_by_def)

lemma cancelling_ready: "cancelling L h h2 \<Longrightarrow> ws_ok ws_callbacks h2 \<Longrightarrow> ready L h item want \<Longrightarrow> ready L h2 item want"
  unfolding cancelling_def ready_def
  by (auto simp: loose_def ws_only_at(3) ws_only_at(6))

lemma cleanup_done:
  assumes J: "json_contract (lib_json W) owned" and r: "ready L h item want"
    and o: "set_option response \<subseteq> owned (json_st h)" "set_option detail \<subseteq> owned (json_st h) - set_option response"
  shows "\<exists>j'. wait_cleanup W item want response detail h = Some (drop_item item (want_freed want (h\<lparr>json_st := j'\<rparr>))) \<and>
    owned j' = owned (json_st h) - set_option response - set_option detail"
proof -
  have f: "manager_queue_want_free want h = Some (want_freed want h)"
    using r by (intro want_free_eq [OF manager_good_inv]) (auto simp: ready_def)
  have "loose (want_freed want h) item" using r by (simp add: ready_def loose_def)
  then have i: "queue_item_free item (want_freed want h) = Some (drop_item item (want_freed want h))"
    by (rule queue_item_free_loose)
  obtain j1 where j1: "json_put (lib_json W) response (json_st h) = Some j1" "owned j1 = owned (json_st h) - set_option response"
    by (rule json_release [OF J o(1)])
  obtain j2 where j2: "json_put (lib_json W) detail j1 = Some j2" "owned j2 = owned j1 - set_option detail"
    by (rule json_release [OF J, of detail j1]) (use o j1 in auto)
  have js: "json_st (drop_item item (want_freed want h)) = json_st h"
    "(drop_item item (want_freed want h))\<lparr>json_st := j\<rparr> = drop_item item (want_freed want (h\<lparr>json_st := j\<rparr>))" for j
    by (simp_all add: drop_item_def want_freed_def)
  have "wait_cleanup W item want response detail h = Some (drop_item item (want_freed want (h\<lparr>json_st := j2\<rparr>)))"
    using f i j1(1) j2(1) js by (simp add: wait_cleanup_def put_json_def)
  with j1 j2 show ?thesis by blast
qed

text \<open>One text is sent to the client, then the want and the item are released.\<close>

definition delivered :: "'w net \<Rightarrow> ('j \<Rightarrow> addr set) \<Rightarrow> addr \<Rightarrow> addr \<Rightarrow> addr \<Rightarrow> ('j, 'w, 'z) ws \<Rightarrow> addr set \<Rightarrow> ('j, 'w, 'z) ws option \<Rightarrow> bool" where
  "delivered N owned a item want h S res \<longleftrightarrow> (\<exists>text j h2 j'.
     evws_connection_send N conn_callback a text (h\<lparr>json_st := j\<rparr>) = Some h2 \<and>
     res = Some (drop_item item (want_freed want (h2\<lparr>json_st := j'\<rparr>))) \<and> owned j' = S)"

lemma delivered_json [simp]: "delivered N owned a item want (h\<lparr>json_st := j\<rparr>) S res = delivered N owned a item want h S res"
  by (simp add: delivered_def)

lemma said_delivered:
  assumes J: "json_contract (lib_json W) owned" and r: "ready L h item want" and N: "net_ok N pending" and c: "conn_at h a \<noteq> None"
    and s: "said N owned a h S res" and o: "set_option response \<subseteq> S" "set_option detail \<subseteq> S - set_option response"
  shows "delivered N owned a item want h (S - set_option response - set_option detail)
    (do { h \<leftarrow> res; wait_cleanup W item want response detail h })"
proof -
  from s obtain t j h2 j' where h2: "evws_connection_send N conn_callback a t (h\<lparr>json_st := j\<rparr>) = Some h2"
    "res = Some (h2\<lparr>json_st := j'\<rparr>)" "owned j' = S" unfolding said_def by blast
  have r1: "ws_ok ws_callbacks h" "manager_good L h" using r by (simp_all add: ready_def)
  from send_cancelling [OF N r1 c, of t j] h2(1) have k: "cancelling L (h\<lparr>json_st := j\<rparr>) h2" "conn_changed a h h2" by auto
  have "ready L h2 item want" by (rule cancelling_ready [OF k(1) conn_changed_ok [OF k(2) r1(1)]]) (use r in simp)
  then have "ready L (h2\<lparr>json_st := j'\<rparr>) item want" by simp
  from cleanup_done [OF J this, of response detail] o h2(3) obtain j2 where
    "wait_cleanup W item want response detail (h2\<lparr>json_st := j'\<rparr>) = Some (drop_item item (want_freed want (h2\<lparr>json_st := j2\<rparr>)))"
    "owned j2 = S - set_option response - set_option detail" by auto
  with h2 show ?thesis unfolding delivered_def by auto
qed

lemma wait_error_delivered:
  assumes J: "json_contract (lib_json W) owned" and w: "json_wraps (lib_json W)" and r: "ready L h item want"
    and b: "wanted_by h want a ident" and N: "net_ok N pending" and c: "conn_at h a \<noteq> None"
    and o: "set_option response \<subseteq> owned (json_st h)" "set_option detail \<subseteq> owned (json_st h) - set_option response"
  shows "delivered N owned a item want h (owned (json_st h) - set_option response - set_option detail)
    (wait_error N W item want message response detail h)"
proof -
  have g: "manager_queue_want_get_connection want h = Some (Some a)"
    using b by (auto simp: wanted_by_def manager_queue_want_get_connection_def)
  have "said N owned a h (owned (json_st h)) (connection_ws_error N W (Some a) message h)"
    by (rule ws_error_said [OF J w N _ _ c]) (use r in \<open>auto simp: ready_def\<close>)
  from said_delivered [OF J r N c this o] g show ?thesis by (simp add: wait_error_def)
qed

lemma payload_delivered:
  assumes J: "json_contract (lib_json W) owned" and w: "json_wraps (lib_json W)" and r: "ready L h item want"
    and b: "wanted_by h want a ident" and N: "net_ok N pending" and c: "conn_at h a \<noteq> None"
    and o: "set_option response \<subseteq> owned (json_st h)"
  shows "delivered N owned a item want h (owned (json_st h) - set_option response)
    (do { connection \<leftarrow> manager_queue_want_get_connection want h;
          h \<leftarrow> connection_ws_payload N W connection response h;
          wait_cleanup W item want None None h })"
proof -
  have g: "manager_queue_want_get_connection want h = Some (Some a)"
    using b by (auto simp: wanted_by_def manager_queue_want_get_connection_def)
  have "said N owned a h (owned (json_st h) - set_option response) (connection_ws_payload N W (Some a) response h)"
    by (rule ws_payload_said [OF J w o N _ _ c]) (use r in \<open>auto simp: ready_def\<close>)
  from said_delivered [OF J r N c this, of None None] g show ?thesis by simp
qed

lemma callback_delivers:
  assumes J: "json_contract (lib_json W) owned" and w: "json_wraps (lib_json W)" and r: "ready L h item want"
    and b: "wanted_by h want a ident" and N: "net_ok N pending" and c: "conn_at h a \<noteq> None"
  shows "delivered N owned a item want h (owned (json_st h)) (connection_queue_callback_wait N W item want h)"
proof -
  let ?J = "lib_json W"
  have can: "manager_queue_want_is_cancelled want h = Some False"
    using b by (auto simp: wanted_by_def manager_queue_want_is_cancelled_def)
  have idf: "manager_queue_want_get_identifier want (h\<lparr>json_st := j\<rparr>) = Some (Some ident)" for j
    using b by (auto simp: wanted_by_def manager_queue_want_get_identifier_def)
  have rj: "ready L (h\<lparr>json_st := j\<rparr>) item want" "wanted_by (h\<lparr>json_st := j\<rparr>) want a ident"
    "conn_at (h\<lparr>json_st := j\<rparr>) a \<noteq> None" for j using r b c by simp_all
  obtain co j1 where j1: "json_object_new_object ?J (json_st h) = (Some co, j1)" using new_object_wraps [OF w] by blast
  then have o1: "co \<notin> owned (json_st h)" "owned j1 = insert co (owned (json_st h))"
    using json_gives(1) [OF J, of "json_st h"] by (simp_all add: gives_def)
  obtain i v where i: "item_at h item = Some i" "i_value i = Some v"
    using r by (auto simp: ready_def loose_def split: option.splits)
  note err = wait_error_delivered [OF J w rj(1) rj(2) N rj(3), unfolded delivered_json]
  note step = can j1 idf
  show ?thesis
    using json_gives(3) [OF J, of j1 ident]
  proof (cases rule: gives_cases)
    case (none j2)
    have "delivered N owned a item want h (owned j2 - {co}) (wait_error N W item want ''failed to add identifier'' (Some co) None (h\<lparr>json_st := j2\<rparr>))"
      using err [of "Some co" j2 None] none o1 by simp
    with step none o1 show ?thesis by (simp add: connection_queue_callback_wait_def with_json_def)
  next
    case (some d j2)
    note d = some
    obtain j3 where j3: "json_object_object_add_ex ?J co ''id'' (Some d) j2 = Some (0, j3)" "owned j3 = owned j2 - {d}"
    proof -
      obtain r3 j3 where a3: "json_object_object_add_ex ?J co ''id'' (Some d) j2 = Some (r3, j3)"
        "owned j3 = (if r3 = 0 then owned j2 - set_option (Some d) else owned j2)"
        by (rule json_add [OF J, of co j2 "Some d" "''id''"]) (use d o1 in auto)
      from add_wraps [OF w a3(1)] a3 that show thesis by simp
    qed
    have o3: "owned j3 = insert co (owned (json_st h))" using j3 d o1 by auto
    have i3: "item_at (h\<lparr>json_st := j3\<rparr>) item = Some i" using i by simp
    obtain e j4 where e: "protocol_encode_item ?J item (h\<lparr>json_st := j3\<rparr>) j3 = Some (e, j4)" "gives owned j3 (e, j4)"
      using encode_item_owned [OF J i3 i(2), of j3] by (auto simp: owned_result_def)
    show ?thesis
    proof (cases e)
      case None
      then have "delivered N owned a item want h (owned j4 - {co}) (wait_error N W item want ''failed to add item'' (Some co) None (h\<lparr>json_st := j4\<rparr>))"
        using err [of "Some co" j4 None] e o3 by (simp add: gives_def)
      with step d j3 e None o1 o3 show ?thesis by (simp add: connection_queue_callback_wait_def with_json_def gives_def)
    next
      case (Some x)
      with e o3 have o4: "x \<notin> owned j3" "owned j4 = insert x (owned j3)" by (simp_all add: gives_def)
      obtain j5 where j5: "json_object_object_add_ex ?J co ''item'' (Some x) j4 = Some (0, j5)" "owned j5 = owned j4 - {x}"
      proof -
        obtain r5 j5 where a5: "json_object_object_add_ex ?J co ''item'' (Some x) j4 = Some (r5, j5)"
          "owned j5 = (if r5 = 0 then owned j4 - set_option (Some x) else owned j4)"
          by (rule json_add [OF J, of co j4 "Some x" "''item''"]) (use o3 o4 in auto)
        from add_wraps [OF w a5(1)] a5 that show thesis by simp
      qed
      have o5: "owned j5 = insert co (owned (json_st h))" using j5 o4 o3 by auto
      from payload_delivered [OF J w rj(1) rj(2) N rj(3), of "Some co" j5] o5 o1
      have "delivered N owned a item want h (owned (json_st h))
        (do { connection \<leftarrow> manager_queue_want_get_connection want (h\<lparr>json_st := j5\<rparr>);
              h \<leftarrow> connection_ws_payload N W connection (Some co) (h\<lparr>json_st := j5\<rparr>);
              wait_cleanup W item want None None h })" by simp
      with step d j3 e Some j5 show ?thesis by (simp add: connection_queue_callback_wait_def with_json_def)
    qed
  qed
qed

text \<open>A cancelled want is released with the item, and nothing is sent.\<close>

lemma callback_cancelled:
  assumes J: "json_contract (lib_json W) owned" and r: "ready L h item want"
    and W: "want_at h want = Some Wn" "cancelled Wn"
  shows "connection_queue_callback_wait N W item want h = Some (drop_item item (want_freed want h))"
proof -
  have "manager_queue_want_is_cancelled want h = Some True" using W by (simp add: manager_queue_want_is_cancelled_def)
  moreover have "manager_queue_want_free want h = Some (want_freed want h)"
    using r by (intro want_free_eq [OF manager_good_inv]) (auto simp: ready_def)
  moreover have "loose (want_freed want h) item" using r by (simp add: ready_def loose_def)
  then have "queue_item_free item (want_freed want h) = Some (drop_item item (want_freed want h))" by (rule queue_item_free_loose)
  moreover have "h\<lparr>json_st := json_st h\<rparr> = h" for h :: "('a, 'b, 'c) ws" by simp
  ultimately show ?thesis
    by (simp add: connection_queue_callback_wait_def wait_cleanup_def put_json_def)
qed

text \<open>A want whose connection is gone, and that was not cancelled, is answered through a dangling pointer.\<close>

lemma callback_dangling:
  assumes W: "want_at h want = Some Wn" "\<not> cancelled Wn" "want_client Wn = Some a" and d: "conn_at h a = None"
  shows "connection_queue_callback_wait N W item want h = None"
proof -
  have can: "manager_queue_want_is_cancelled want h = Some False" using W by (simp add: manager_queue_want_is_cancelled_def)
  have g: "manager_queue_want_get_connection want (h\<lparr>json_st := j\<rparr>) = Some (Some a)" for j
    using W by (simp add: manager_queue_want_get_connection_def)
  have e: "wait_error N W item want m r x (h\<lparr>json_st := j\<rparr>) = None" for m r x j
    using d by (simp add: wait_error_def g ws_error_dead)
  have p: "connection_ws_payload N W (Some a) r (h\<lparr>json_st := j\<rparr>) = None" for r j
    using d by (simp add: ws_payload_dead)
  show ?thesis
    by (auto simp: connection_queue_callback_wait_def with_json_def can e p g split: Option.bind_splits option.split prod.split)
qed

section \<open>Delivering from a queue\<close>

text \<open>The situations in which a queue calls a callback, on a manager that is in order.\<close>

lemma good_put_delivers:
  assumes g: "manager_good L h" and Q: "queue_at h q = Some Q" and m: "mem_available h"
    and p: "pick (\<lambda>w. callback_accepts (fst w) key) (waiters h q) = Some ((wkey, Some f, arg), ws)"
  obtains a h1 where "manager_good L h1" "loose h1 a" "queue_mem.more h1 = queue_mem.more h"
    "queue_put run q key val h = do { h2 \<leftarrow> run f a arg h1; h3 \<leftarrow> queue_item_free a h2; Some (1, h3) }"
proof -
  from manager_good_heap [OF g] Q show thesis
  proof (cases rule: queue_put_cases [where run = run and key = key and val = val])
    case (fail h')
    with m show thesis by simp
  next
    case (store a h0)
    then have "pick (\<lambda>w. callback_accepts (fst w) key) (waiters h q) = None"
      using Q by (simp add: waiters_def pick_None)
    with p show thesis by simp
  next
    case (deliver a h0 xs c ys cb f')
    note g0 = manager_good_store [OF g deliver(1)]
    have Q0: "queue_at h0 q = Some Q" using same_store_queue [OF deliver(1)] Q by auto
    have c: "c \<in> set (callbacks Q)" using deliver(5) by simp
    let ?h1 = "handed q Q c cb a key val h0"
    note hf = handed_facts [OF manager_good_heap [OF g0] Q0 deliver(6) c deliver(2-4), where key = key and val = val]
    have "waiter_of h0 = waiter_of h" by (rule same_store_waiter_of [OF deliver(1)])
    then have "waiter_of h c = (cb_key cb, Some f', cb_addcbarg cb)"
      using deliver(6,7) by (metis (no_types, lifting) option.case(2) waiter_of_def)
    moreover have "pick (\<lambda>w. callback_accepts (fst w) key) (waiters h q) =
        Some (waiter_of h c, map (waiter_of h) (xs @ ys))"
      using Q deliver(5,8,9) by (simp add: waiters_def pick_split)
    ultimately have f: "f = f'" "arg = cb_addcbarg cb" using p by simp_all
    have "manager_good L ?h1"
      by (rule manager_good_frame [OF g0 handed_frame [OF Q0] hf(1)])
         (auto simp: handed_def new_item_def split: if_splits)
    moreover have "queue_mem.more ?h1 = queue_mem.more h"
      using deliver(1) handed_frame [OF Q0, of c cb a key val] by (simp add: same_store_def queue_frame_def)
    ultimately show thesis using that [of ?h1 a] hf(2) deliver(10) f by simp
  qed
qed

lemma good_wait_delivers:
  assumes g: "manager_good L h" and Q: "queue_at h q = Some Q" and p: "pick (wanted key) (content h q) \<noteq> None"
  obtains a h1 where "manager_good L h1" "loose h1 a" "queue_mem.more h1 = queue_mem.more h"
    "queue_wait run q key (Some f) arg h = do { h2 \<leftarrow> run f a arg h1; h3 \<leftarrow> queue_item_free a h2; Some (1, h3) }"
proof -
  from manager_good_heap [OF g] Q show thesis
  proof (cases rule: queue_wait_cases [where run = run and key = key and f = f and arg = arg])
    case (deliver xs a ys i)
    have a: "a \<in> set (items Q)" using deliver(1) by simp
    show thesis
      by (rule that [OF taken_good(1) [OF g Q deliver(2) a] taken_good(2) [OF g Q deliver(2) a]])
         (use deliver(5) in \<open>simp_all add: taken_def set_queue_def\<close>)
  qed (use p Q in \<open>auto simp: pick_None content_def wanted_def\<close>)
qed

lemma ws_more:
  fixes h h' :: "('j, 'w, 'z) ws"
  assumes "queue_mem.more h' = queue_mem.more h"
  shows "conn_at h' = conn_at h" "message_at h' = message_at h" "evws_at h' = evws_at h" "net_st h' = net_st h"
    "json_st h' = json_st h" "want_at h' = want_at h" "ctx_wants h' = ctx_wants h" "ws_ok F h' = ws_ok F h"
  using assms
  by (cases h rule: ws_mem.cases_scheme; cases h' rule: ws_mem.cases_scheme;
      simp add: ws_ok_def conn_ok_def evws_ok_def)+

lemma delivery_frees_twice:
  assumes W: "libs_ok W owned" and N: "net_ok N pending" and r: "ready L h a want"
    and Wn: "want_at h want = Some Wn" "want_client Wn = Some con" "want_identifier Wn = Some ident"
  shows "do { h2 \<leftarrow> queue_callback_runner N W FN_queue_wait a (Some want) h; h3 \<leftarrow> queue_item_free a h2; Some (1 :: int, h3) } = None"
proof -
  note J = libs_okD(1,2) [OF W]
  have run: "queue_callback_runner N W FN_queue_wait a (Some want) h = connection_queue_callback_wait N W a want h"
    by (simp add: queue_callback_runner_def)
  have twice: "queue_item_free a (drop_item a g) = None" for g :: "('a, 'b, 'c) ws" by (rule drop_item_twice)
  show ?thesis
  proof (cases "cancelled Wn")
    case True
    with callback_cancelled [OF J(1) r Wn(1)] run twice show ?thesis by simp
  next
    case False
    show ?thesis
    proof (cases "conn_at h con")
      case None
      with callback_dangling [OF Wn(1) False Wn(2)] run show ?thesis by simp
    next
      case (Some c)
      have b: "wanted_by h want con ident" using Wn False by (simp add: wanted_by_def)
      have "conn_at h con \<noteq> None" using Some by simp
      from callback_delivers [OF J r b N this] run twice show ?thesis by (auto simp: delivered_def)
    qed
  qed
qed

section \<open>Asking to wait\<close>

text \<open>The JSON object in a message, and what it asks for: identifier, queue and key.\<close>

definition wait_request :: "'j libs \<Rightarrow> evws_message \<Rightarrow> ('j, 'z) server \<Rightarrow> (addr \<times> 'j) option" where
  "wait_request W M h = (let (n, body) = evbuffer_copyout (lib_ev W) (m_buffer M) (length (m_buffer M)) in
     if n \<noteq> int (length (m_buffer M)) then None
     else (case json_tokener_parse (lib_json W) (c_string body) (json_st h) of
       (None, j) \<Rightarrow> None | (Some r, j) \<Rightarrow> Some (r, j)))"

definition attribute_of :: "'j libs \<Rightarrow> addr \<Rightarrow> cstring \<Rightarrow> 'j \<Rightarrow> cstring option" where
  "attribute_of W r key j = (case json_object_object_get_ex (lib_json W) r key j of
     Some (True, a) \<Rightarrow> (case json_object_get_string (lib_json W) a j of Some s \<Rightarrow> s | None \<Rightarrow> None)
   | _ \<Rightarrow> None)"

definition asked :: "'j libs \<Rightarrow> evws_message \<Rightarrow> ('j, 'z) server \<Rightarrow> (cstring \<times> addr \<times> cstring option) option" where
  "asked W M h = do {
     (r, j) \<leftarrow> wait_request W M h;
     ident \<leftarrow> attribute_of W r ''identifier'' j;
     name \<leftarrow> attribute_of W r ''queue'' j;
     mq \<leftarrow> queue_named h name;
     Some (ident, mq, attribute_of W r ''key'' j) }"

lemma json_get_string_eq:
  assumes J: "json_contract (lib_json W) owned" and r: "r \<in> owned (json_st h)"
  shows "json_get_string W r key h = Some (attribute_of W r key (json_st h))"
proof -
  from J r obtain found a where a: "json_object_object_get_ex (lib_json W) r key (json_st h) = Some (found, a)"
    "found \<longrightarrow> json_object_get_string (lib_json W) a (json_st h) \<noteq> None"
    unfolding json_contract_def json_reads_def by blast
  then show ?thesis by (cases found) (auto simp: json_get_string_def attribute_of_def)
qed

lemma ws_read_eq:
  assumes J: "json_contract (lib_json W) owned" and g: "alloc_ok h (alloc_count h)" and M: "message_at h m = Some M"
  obtains (none) j where "wait_request W M h = None" "connection_ws_read W m h = Some (None, (charged h)\<lparr>json_st := j\<rparr>)"
      "owned j = owned (json_st h)"
    | (some) r j where "wait_request W M h = Some (r, j)" "connection_ws_read W m h = Some (Some r, (charged h)\<lparr>json_st := j\<rparr>)"
      "r \<notin> owned (json_st h)" "owned j = insert r (owned (json_st h))"
proof -
  obtain n body where c: "evbuffer_copyout (lib_ev W) (m_buffer M) (length (m_buffer M)) = (n, body)" by force
  have b: "evws_message_get_buffer m h = Some (m_buffer M)" using M by (simp add: evws_message_get_buffer_def)
  have id: "(charged h)\<lparr>json_st := json_st h\<rparr> = charged h" by (simp add: charged_def)
  show thesis
  proof (cases "n = int (length (m_buffer M))")
    case False
    with b c g have "connection_ws_read W m h = Some (None, charged h)" "wait_request W M h = None"
      by (simp_all add: connection_ws_read_def alloc_block_charged wait_request_def)
    then show thesis by (intro none [of "json_st h"]) (simp_all only: id)
  next
    case True
    show thesis
      using json_gives(5) [OF J, of "json_st h" "c_string body"]
    proof (cases rule: gives_cases)
      case (none j)
      with b c g True show thesis
        by (intro that(1) [of j]) (simp_all add: connection_ws_read_def alloc_block_charged wait_request_def with_json_def)
    next
      case (some r j)
      with b c g True show thesis
        by (intro that(2) [of r j]) (simp_all add: connection_ws_read_def alloc_block_charged wait_request_def with_json_def)
    qed
  qed
qed

lemma get_named:
  "manager_inv L h \<Longrightarrow> manager_queue_get L junk name False h = Some (Option.bind name (queue_named h), h)"
  by (auto simp: manager_queue_get_def manager_scan queue_named_def QUEUE_UUID_STR_LEN_def split: option.split)

lemma queue_named_charged [simp]: "queue_named ((charged h)\<lparr>json_st := j\<rparr>) s = queue_named h s"
proof -
  have "queue_id ((charged h)\<lparr>json_st := j\<rparr>) = queue_id h" by (simp add: queue_id_def fun_eq_iff charged_def)
  then show ?thesis by (simp add: queue_named_def charged_def)
qed

lemma queue_named_listed: "queue_named h s = Some m \<Longrightarrow> m \<in> set (ctx_queues h)"
  by (auto simp: queue_named_def find_Some_iff split: if_splits)

lemma message_error_said:
  assumes W: "libs_ok W owned" and N: "net_ok N pending" and ok: "ws_ok ws_callbacks h" and g: "manager_good L h"
    and M: "message_at h m = Some M"
  shows "said N owned (m_evcon M) h (owned (json_st h)) (message_error N W m text h)"
proof -
  have "conn_at h (m_evcon M) \<noteq> None" using ws_okD(3) [OF ok M] by auto
  from ws_error_said [OF libs_okD(1,2) [OF W] N ok g this] M show ?thesis
    by (simp add: message_error_def evws_message_get_connection_def)
qed

lemma said_put:
  assumes J: "json_contract (lib_json W) owned" and s: "said N owned a h S res" and r: "r \<in> S"
  shows "said N owned a h (S - {r}) (do { h \<leftarrow> res; put_json W (Some r) h })"
proof -
  from s obtain t j h2 j' where h2: "evws_connection_send N conn_callback a t (h\<lparr>json_st := j\<rparr>) = Some h2"
    "res = Some (h2\<lparr>json_st := j'\<rparr>)" "owned j' = S" unfolding said_def by blast
  obtain j2 where "json_put (lib_json W) (Some r) j' = Some j2" "owned j2 = owned j' - set_option (Some r)"
    by (rule json_release [OF J, of "Some r" j']) (use r h2 in auto)
  with h2 show ?thesis by (intro saidI [OF h2(1)]) (auto simp: put_json_def)
qed

text \<open>A want and a waiter are registered, and nothing is sent.\<close>

definition registered :: "nat \<Rightarrow> ('j \<Rightarrow> addr set) \<Rightarrow> addr \<Rightarrow> cstring \<Rightarrow> addr \<Rightarrow> addr \<Rightarrow> cstring option \<Rightarrow>
   ('j, 'w, 'z) ws \<Rightarrow> ('j, 'w, 'z) ws \<Rightarrow> bool" where
  "registered L owned a ident mq q key h h' \<longleftrightarrow> (\<exists>w. want_at h w = None \<and> ctx_wants h' = ctx_wants h @ [w] \<and>
     want_at h' = (want_at h)(w \<mapsto> \<lparr>want_identifier = Some ident, cancelled = False, want_queue = Some mq, want_client = Some a\<rparr>) \<and>
     waiters h' q = waiters h q @ [(key, Some FN_queue_wait, Some w)] \<and> content h' q = content h q \<and>
     (\<forall>p. p \<noteq> q \<longrightarrow> same_view p h h') \<and> net_st h' = net_st h \<and> conn_at h' = conn_at h \<and> message_at h' = message_at h \<and>
     owned (json_st h') = owned (json_st h) \<and> manager_good L h' \<and> ws_ok ws_callbacks h')"

lemma view_ext:
  assumes "item_at h' = item_at h" "callback_at h' = callback_at h" "queue_at h' = queue_at h"
  shows "waiters h' = waiters h" "content h' = content h" "same_view p h h'"
proof -
  have e: "waiter_of h' = waiter_of h" "entry_of h' = entry_of h"
    using assms by (simp_all add: fun_eq_iff waiter_of_def entry_of_def)
  show "waiters h' = waiters h" "content h' = content h"
    using assms(3) unfolding waiters_def content_def e by simp_all
  then show "same_view p h h'" by (simp add: same_view_def)
qed

lemma charged_ws [simp]:
  fixes h :: "('j, 'w, 'z) ws"
  shows "conn_at (charged h) = conn_at h" "message_at (charged h) = message_at h" "evws_at (charged h) = evws_at h"
    "net_st (charged h) = net_st h" "ws_ok F (charged h) = ws_ok F h"
  by (simp_all add: charged_def ws_ok_def conn_ok_def evws_ok_def)

lemma ask_refused:
  assumes W: "libs_ok W owned" and N: "net_ok N pending" and ok: "ws_ok ws_callbacks h" and g: "manager_good (long_size W) h"
    and M: "message_at h m = Some M" and al: "alloc_ok h (alloc_count h)" and no: "asked W M h = None"
  shows "said N owned (m_evcon M) (charged h) (owned (json_st h)) (connection_ws_callback_wait N W m h)"
proof -
  note J = libs_okD(1) [OF W]
  have e: "said N owned (m_evcon M) (charged h) (owned j) (message_error N W m t ((charged h)\<lparr>json_st := j\<rparr>))" for t j
    using message_error_said [OF W N, of "(charged h)\<lparr>json_st := j\<rparr>" "long_size W" m M t] ok g M charged_good [OF g] by simp
  from J al M show ?thesis
  proof (cases rule: ws_read_eq)
    case (none j)
    with e [of j] show ?thesis by (simp add: connection_ws_callback_wait_def)
  next
    case (some r j)
    let ?h = "(charged h)\<lparr>json_st := j\<rparr>"
    have rj: "r \<in> owned (json_st ?h)" using some by simp
    have "manager_good (long_size W) ?h" using charged_good [OF g] by simp
    then have inv: "manager_inv (long_size W) ?h" by (rule manager_good_inv)
    note get = json_get_string_eq [OF J rj]
    have done_err: "said N owned (m_evcon M) (charged h) (owned (json_st h)) (do { h \<leftarrow> message_error N W m t ?h; put_json W (Some r) h })" for t
      using said_put [OF J e [of j t], of r] some by simp
    have st: "json_st ?h = j" by simp
    show ?thesis
    proof (cases "attribute_of W r ''identifier'' j")
      case None
      with some(2) get done_err show ?thesis by (simp add: connection_ws_callback_wait_def)
    next
      case (Some i)
      have "Option.bind (attribute_of W r ''queue'' j) (queue_named ?h) = None"
        using no some(1) Some by (auto simp: asked_def split: Option.bind_splits)
      with get_named [OF inv, of "stack_junk W" "attribute_of W r ''queue'' j"]
      have "manager_queue_get (long_size W) (stack_junk W) (attribute_of W r ''queue'' j) False ?h = Some (None, ?h)" by simp
      with some(2) get Some done_err show ?thesis by (simp add: connection_ws_callback_wait_def)
    qed
  qed
qed

lemma want_added_more:
  fixes h :: "('j, 'w, 'z) ws"
  shows "conn_at (want_added w i c m h) = conn_at h" "message_at (want_added w i c m h) = message_at h"
    "evws_at (want_added w i c m h) = evws_at h" "net_st (want_added w i c m h) = net_st h" "json_st (want_added w i c m h) = json_st h"
  by (simp_all add: want_added_def set_want_def)

text \<open>What the callback does once it knows the queue.\<close>

lemma ask_entered:
  assumes W: "libs_ok W owned" and g: "manager_good (long_size W) h" and M: "message_at h m = Some M" and m: "room 1 h"
    and as: "asked W M h = Some (ident, mq, key)"
  obtains r j w h0 q Q where "r \<notin> owned (json_st h)" "owned j = insert r (owned (json_st h))"
    "same_store ((charged h)\<lparr>json_st := j\<rparr>) h0" "want_at h w = None" "0 < w" "w < next_addr h0" "next_addr h0 = Suc (next_addr h)"
    "mqueue_at h mq \<noteq> None" "manager_queue_get_queue mq h = Some (Some q)" "queue_at h q = Some Q"
    "connection_ws_callback_wait N W m h = do {
       h \<leftarrow> do { (r, h) \<leftarrow> queue_wait (queue_callback_runner N W) q key (Some FN_queue_wait) (Some w)
                      (want_added w ident (m_evcon M) mq h0);
                  if r < 0 then do { h \<leftarrow> manager_queue_want_free w h; message_error N W m ''failed to wait for want'' h }
                  else Some h };
       put_json W (Some r) h }"
proof -
  note J = libs_okD(1) [OF W]
  have al: "alloc_ok h (alloc_count h)" using m by (simp add: room_def)
  from J al M show thesis
  proof (cases rule: ws_read_eq)
    case (none j)
    with as show thesis by (simp add: asked_def)
  next
    case (some r j)
    let ?h = "(charged h)\<lparr>json_st := j\<rparr>"
    have rj: "r \<in> owned (json_st ?h)" using some by simp
    note get = json_get_string_eq [OF J rj]
    have good: "manager_good (long_size W) ?h" using charged_good [OF g] by simp
    note inv = manager_good_inv [OF good]
    obtain name where at: "attribute_of W r ''identifier'' j = Some ident" "attribute_of W r ''queue'' j = Some name"
      "queue_named h name = Some mq" "key = attribute_of W r ''key'' j"
      using as some(1) by (auto simp: asked_def split: Option.bind_splits)
    have named: "manager_queue_get (long_size W) (stack_junk W) (Some name) False ?h = Some (Some mq, ?h)"
      using get_named [OF inv, of "stack_junk W" "Some name"] at(3) by simp
    have "mq \<in> set (ctx_queues h)" using queue_named_listed [OF at(3)] .
    then have "mq \<in> set (ctx_queues h)" by simp
    then obtain MQ q Q where q: "mqueue_at h mq = Some MQ" "mq_q MQ = Some q" "queue_at h q = Some Q"
      "manager_queue_get_queue mq h = Some (Some q)" using queue_of [OF manager_good_inv [OF g]] by blast
    have con: "evws_message_get_connection m ?h = Some (m_evcon M)" using M by (simp add: evws_message_get_connection_def)
    from inv show thesis
    proof (cases rule: want_new_cases [where ident = ident and con = "m_evcon M" and m = mq])
      case (fail h')
      with m show thesis by (simp add: room_def charged_def)
    next
      case (new w h0)
      have q0: "manager_queue_get_queue mq (want_added w ident (m_evcon M) mq h0) = Some (Some q)"
        using q(1,2) new(2) by (simp add: manager_queue_get_queue_def same_store_def manager_more charged_def)
      have wn: "want_at h w = None" using new(2,3) by (simp add: same_store_def manager_more charged_def)
      show thesis
        by (rule that [OF some(3,4) new(2) wn new(4,5) _ _ q(4,3)])
           (use some(2) get at named con new(1,6) q0 q(1) in \<open>simp_all add: connection_ws_callback_wait_def cong: if_cong\<close>)
    qed
  qed
qed

lemma want_added_good:
  assumes g: "manager_good L h" and w: "want_at h w = None" "0 < w" "w < next_addr h"
  shows "manager_good L (want_added w i c m h)"
  by (rule manager_good_same_items [OF g want_added_inv [OF manager_good_inv [OF g] w]]) simp_all

lemma ask_outcome:
  assumes W: "libs_ok W owned" and N: "net_ok N pending" and ok: "ws_ok ws_callbacks h" and g: "manager_good (long_size W) h"
    and M: "message_at h m = Some M" and m: "room 2 h" and as: "asked W M h = Some (ident, mq, key)"
  shows "\<exists>q. manager_queue_get_queue mq h = Some (Some q) \<and>
    (if pick (wanted key) (content h q) \<noteq> None then connection_ws_callback_wait N W m h = None
     else \<exists>h'. connection_ws_callback_wait N W m h = Some h' \<and>
       registered (long_size W) owned (m_evcon M) ident mq q key h h')"
proof -
  have m1: "room 1 h" using m by (simp add: room_def)
  obtain r j w h0 q Q where e: "r \<notin> owned (json_st h)" "owned j = insert r (owned (json_st h))"
    "same_store ((charged h)\<lparr>json_st := j\<rparr>) h0" "want_at h w = None" "0 < w" "w < next_addr h0" "next_addr h0 = Suc (next_addr h)"
    "mqueue_at h mq \<noteq> None" "manager_queue_get_queue mq h = Some (Some q)" "queue_at h q = Some Q"
    "connection_ws_callback_wait N W m h = do {
       h \<leftarrow> do { (r, h) \<leftarrow> queue_wait (queue_callback_runner N W) q key (Some FN_queue_wait) (Some w)
                      (want_added w ident (m_evcon M) mq h0);
                  if r < 0 then do { h \<leftarrow> manager_queue_want_free w h; message_error N W m ''failed to wait for want'' h }
                  else Some h };
       put_json W (Some r) h }"
    by (rule ask_entered [OF W g M m1 as])
  let ?a = "m_evcon M" let ?h = "(charged h)\<lparr>json_st := j\<rparr>" let ?h1 = "want_added w ident ?a mq h0"
  have "manager_good (long_size W) ?h" using charged_good [OF g] by simp
  from manager_good_store [OF this e(3)] have g0: "manager_good (long_size W) h0" .
  have same0: "item_at h0 = item_at h" "callback_at h0 = callback_at h" "queue_at h0 = queue_at h" "alloc_ok h0 = alloc_ok h"
    "queue_mem.more h0 = queue_mem.more ?h"
    using e(3) by (simp_all add: same_store_def charged_def)
  note more0 = ws_more [OF same0(5)]
  have w0: "want_at h0 = want_at h" "ctx_wants h0 = ctx_wants h" using more0(6,7) by simp_all
  have g1: "manager_good (long_size W) ?h1" by (rule want_added_good [OF g0 _ e(5,6)]) (use w0 e(4) in simp)
  have ok0: "ws_ok ws_callbacks h0" using more0(8) [of ws_callbacks] ok by simp
  have ok1: "ws_ok ws_callbacks ?h1" using ok0 by (simp add: ws_ok_def conn_ok_def evws_ok_def want_added_more)
  have Q1: "queue_at ?h1 q = Some Q" using e(10) same0 by simp
  have v1: "waiters ?h1 = waiters h" "content ?h1 = content h" "\<And>p. same_view p h ?h1"
    using same0 by (intro view_ext; simp)+
  show ?thesis
  proof (cases "pick (wanted key) (content h q) = None")
    case False
    then have "pick (wanted key) (content ?h1 q) \<noteq> None" using v1 by simp
    from good_wait_delivers [OF g1 Q1 this, where run = "queue_callback_runner N W" and f = FN_queue_wait and arg = "Some w"]
    obtain x h2 where x: "manager_good (long_size W) h2" "loose h2 x" "queue_mem.more h2 = queue_mem.more ?h1"
      "queue_wait (queue_callback_runner N W) q key (Some FN_queue_wait) (Some w) ?h1 =
        do { h2 \<leftarrow> queue_callback_runner N W FN_queue_wait x (Some w) h2; h3 \<leftarrow> queue_item_free x h2; Some (1, h3) }" by blast
    note more2 = ws_more [OF x(3)]
    have "ready (long_size W) h2 x w" using x(1,2) more2(7) more2(8) [of ws_callbacks] ok1 by (simp add: ready_def)
    from delivery_frees_twice [OF W N this, of _ ?a ident] more2(6)
    have "queue_wait (queue_callback_runner N W) q key (Some FN_queue_wait) (Some w) ?h1 = None"
      unfolding x(4) by simp
    with e(9,11) False show ?thesis by auto
  next
    case True
    from manager_good_heap [OF g1] Q1
    obtain h' where h': "connection_ws_callback_wait N W m h = Some h'"
      "registered (long_size W) owned ?a ident mq q key h h'"
    proof (cases rule: queue_wait_cases [where run = "queue_callback_runner N W" and key = key and f = FN_queue_wait and arg = "Some w"])
      case (deliver xs x ys i)
      then have "pick (wanted key) (content ?h1 q) \<noteq> None"
        using Q1 by (auto simp: pick_None content_def wanted_def entry_of_def item_key_def)
      with True v1 show thesis by simp
    next
      case (fail h'')
      then have False using m e(7) same0 by (auto simp: mem_available_def room_def)
      then show thesis ..
    next
      case (wait c h2)
      let ?h3 = "waiting q Q c key FN_queue_wait (Some w) h2"
      note s2 = wait(1)
      have g2: "manager_good (long_size W) h2" by (rule manager_good_store [OF g1 s2])
      have same2: "item_at h2 = item_at ?h1" "callback_at h2 = callback_at ?h1" "queue_at h2 = queue_at ?h1"
        "queue_mem.more h2 = queue_mem.more ?h1" using s2 by (simp_all add: same_store_def)
      have Q2: "queue_at h2 q = Some Q" using same2 Q1 by simp
      have v2: "waiters h2 = waiters h" "content h2 = content h" "\<And>p. same_view p h h2"
        using same2 same0 by (intro view_ext; simp)+
      have c2: "callback_at h2 c = None" using wait(2) .
      have "item_key h2 = item_key ?h1" using same2 by (simp add: item_key_def fun_eq_iff)
      with wait(5) have "heap_inv ?h3"
        by (intro waiting_inv [OF manager_good_heap [OF g2] Q2 c2 wait(3,4)]) simp
      then have g3: "manager_good (long_size W) ?h3"
        by (rule manager_good_frame [OF g2 waiting_frame [OF Q2]]) auto
      have more3: "queue_mem.more ?h3 = queue_mem.more ?h1" using same2 by simp
      note more = ws_more [OF more3]
      have js: "json_st ?h3 = j" using more(5) more0(5) by (simp add: want_added_more)
      obtain j2 where j2: "json_put (lib_json W) (Some r) j = Some j2" "owned j2 = owned j - set_option (Some r)"
        by (rule json_release [OF libs_okD(1) [OF W], of "Some r" j]) (use e(2) in auto)
      let ?h4 = "?h3\<lparr>json_st := j2\<rparr>"
      have res: "connection_ws_callback_wait N W m h = Some ?h4"
        using e(11) wait(6) js j2(1) by (simp add: put_json_def)
      have vw: "waiters ?h4 q = waiters h q @ [(key, Some FN_queue_wait, Some w)]" "content ?h4 q = content h q"
        using waiting_waiters [OF manager_good_heap [OF g2] Q2 c2] view_ext [of ?h4 ?h3] v2 by simp_all
      have vp: "same_view p h ?h4" if "p \<noteq> q" for p
        using same_view_trans [OF v2(3) waiting_view [OF manager_good_heap [OF g2] c2 that]]
        by (rule same_view_trans) (rule view_ext(3), simp_all)
      have f: "conn_at ?h4 = conn_at h" "message_at ?h4 = message_at h" "evws_at ?h4 = evws_at h" "net_st ?h4 = net_st h"
        using more(1-4) more0(1-4) by (simp_all add: want_added_more)
      have wa: "want_at ?h4 = (want_at h)(w \<mapsto> \<lparr>want_identifier = Some ident, cancelled = False,
          want_queue = Some mq, want_client = Some ?a\<rparr>)" "ctx_wants ?h4 = ctx_wants h @ [w]"
        using more(6,7) w0 by simp_all
      have ow: "owned (json_st ?h4) = owned (json_st h)" using j2(2) e(1,2) by simp
      have "ws_ok ws_callbacks ?h4" using ok f by (simp add: ws_ok_def conn_ok_def evws_ok_def)
      moreover have "manager_good (long_size W) ?h4" using g3 by simp
      ultimately have "registered (long_size W) owned ?a ident mq q key h ?h4"
        unfolding registered_def using e(4) vw vp f wa ow by (intro exI [of _ w] conjI) auto
      with res that show thesis by blast
    qed
    with e(9) True show ?thesis by auto
  qed
qed

end
