(* ===== verification/Connection_Ws_Spec.thy ===== *)
theory Connection_Ws_Spec
  imports Connection_Ws_Correct
begin

text \<open>
  The properties of the websocket handlers of \<open>src/connection-ws.c\<close>, with a client for the witnesses.
\<close>

section \<open>A client for the witnesses\<close>

text \<open>Every message parses to a request of the want \<open>i\<close> on the queue of the nil id, with a given key.\<close>

definition asking_json :: "cstring option \<Rightarrow> addr list json_c" where
  "asking_json key = list_json\<lparr>json_object_object_get_ex := (\<lambda>c k j. Some (True, Some (length k))),
     json_object_get_string := (\<lambda>a j. Some (if a = Some 10 then Some ''i'' else if a = Some 5 then Some nil_id else key))\<rparr>"

definition asking :: "cstring option \<Rightarrow> addr list libs" where
  "asking key = sample_libs\<lparr>lib_json := asking_json key\<rparr>"

lemma asking_ok: "libs_ok (asking key) set"
  using list_json_contract list_json_roomy
  by (auto simp: libs_ok_def asking_def asking_json_def sample_libs_def json_roomy_def json_wraps_def list_json_def
      json_contract_def json_makes_def json_adds_def json_appends_def json_puts_def json_prints_def json_reads_def)

lemma asking_size [simp]: "long_size (asking key) = 8"
  by (simp add: asking_def sample_libs_def)

lemma hall_asked: "message_at h m = Some M \<Longrightarrow> queue_named h nil_id = Some q \<Longrightarrow> asked (asking key) M h = Some (''i'', q, key)"
  by (simp add: asked_def wait_request_def asking_def sample_libs_def sample_ev_def asking_json_def list_json_def attribute_of_def)

lemma hall_queue: "queue_named hall nil_id = Some 3"
  by (simp add: queue_named_def queue_id_def desk_def nil_id_def)

lemma hall_content: "content hall 2 = [(None, Some ''v'')]" "waiters hall 2 = []" "manager_queue_get_queue 3 hall = Some (Some 2)"
  by (simp_all add: content_def waiters_def entry_of_def desk_def zero_queue_def manager_queue_get_queue_def)

lemma hall_room: "room 2 hall"
  by (simp add: room_def alloc_limit_def)

text \<open>As before, with a message of the ended connection 21.\<close>

definition late_hall :: "(addr list, nat) ws_mem" where
  "late_hall = (hall\<lparr>conn_at := [20 \<mapsto> sample_conn True [40], 21 \<mapsto> sample_conn False [41]]\<rparr>)\<lparr>message_at :=
     (message_at hall)(41 \<mapsto> \<lparr>m_evcon = 21, m_buffer = nil_id, m_opcode = 1, m_own = False\<rparr>)\<rparr>"

lemma late_hall_only: "ws_only hall late_hall"
  unfolding late_hall_def by (rule ws_only_trans; rule ws_only_updates)

lemma late_hall_good: "manager_good 8 late_hall"
  by (rule server_frame_good [OF hall_good ws_only_frame [OF late_hall_only]])

lemma late_hall_ok: "ws_ok ws_callbacks late_hall"
  by (auto simp: late_hall_def ws_ok_def conn_ok_def evws_ok_def sample_conn_def sample_evws_def ws_callbacks_def split: if_splits)

lemma late_hall_queue: "queue_named late_hall nil_id = Some 3"
proof -
  have "queue_id late_hall = queue_id hall" by (simp add: queue_id_def fun_eq_iff late_hall_def)
  moreover have "ctx_queues late_hall = ctx_queues hall" by (simp add: late_hall_def)
  ultimately have "queue_named late_hall nil_id = queue_named hall nil_id" by (simp add: queue_named_def)
  then show ?thesis using hall_queue by simp
qed

lemma late_hall_content: "content late_hall 2 = [(None, Some ''v'')]" "manager_queue_get_queue 3 late_hall = Some (Some 2)"
proof -
  have "content late_hall = content hall" by (rule view_ext) (simp_all add: late_hall_def)
  then show "content late_hall 2 = [(None, Some ''v'')]" using hall_content by simp
  show "manager_queue_get_queue 3 late_hall = Some (Some 2)"
    using hall_content by (simp add: manager_queue_get_queue_def late_hall_def)
qed

text \<open>As before, with the want 4 waiting on the queue.\<close>

definition waiting_hall :: "(addr list, nat) ws_mem" where
  "waiting_hall = waiting 2 (zero_queue\<lparr>item_count := 1, items := [6]\<rparr>) 9 (Some ''z'') FN_queue_wait (Some 4) hall"

lemma waiting_hall_good: "manager_good 8 waiting_hall"
proof -
  have Q: "queue_at hall 2 = Some (zero_queue\<lparr>item_count := 1, items := [6]\<rparr>)" by (simp add: desk_def)
  have "heap_inv waiting_hall"
    unfolding waiting_hall_def
    by (rule waiting_inv [OF manager_good_heap [OF hall_good] Q]) (simp_all add: desk_def item_key_def item_matches_def)
  then show ?thesis
    unfolding waiting_hall_def by (rule manager_good_frame [OF hall_good waiting_frame [OF Q]]) simp_all
qed

lemma waiting_hall_facts:
  "ws_ok ws_callbacks waiting_hall" "ctx_wants waiting_hall = [4]" "want_at waiting_hall = want_at desk"
  "waiters waiting_hall 2 = [(Some ''z'', Some FN_queue_wait, Some 4)]" "content waiting_hall 2 = [(None, Some ''v'')]"
  "\<exists>Q. queue_at waiting_hall 2 = Some Q" "mem_available waiting_hall"
proof -
  have m: "queue_mem.more waiting_hall = queue_mem.more hall" by (simp add: waiting_hall_def)
  note more = ws_more [OF m]
  show "ws_ok ws_callbacks waiting_hall" using more(8) hall_ok by simp
  show "ctx_wants waiting_hall = [4]" "want_at waiting_hall = want_at desk" using more(6,7) by simp_all
  show "waiters waiting_hall 2 = [(Some ''z'', Some FN_queue_wait, Some 4)]" "content waiting_hall 2 = [(None, Some ''v'')]"
    "\<exists>Q. queue_at waiting_hall 2 = Some Q" "mem_available waiting_hall"
    by (simp_all add: waiting_hall_def waiters_def waiter_of_def content_def entry_of_def desk_def zero_queue_def
        mem_available_def alloc_limit_def)
qed

section \<open>Properties\<close>

text \<open>
  C24: what comes of a message on a websocket, when memory is available.  A message that cannot be read,
  has no identifier or names no queue is answered with one text on its connection.  Otherwise, if the
  queue has no matching entry, a want is registered for the client and a waiter for the want at the end
  of the queue's list, nothing is sent, every other queue is as before and no JSON object is left.  If
  it has one, the outcome is undefined: the entry is freed twice.
\<close>

theorem ws_wait_spec:
  assumes W: "libs_ok W owned" and N: "net_ok N pending" and ok: "ws_ok ws_callbacks h" and g: "manager_good (long_size W) h"
    and M: "message_at h m = Some M" and m: "room 2 h"
  shows "case asked W M h of
      None \<Rightarrow> said N owned (m_evcon M) (charged h) (owned (json_st h)) (connection_ws_callback_wait N W m h)
    | Some (ident, mq, key) \<Rightarrow> (\<exists>q. manager_queue_get_queue mq h = Some (Some q) \<and>
        (if pick (wanted key) (content h q) \<noteq> None then connection_ws_callback_wait N W m h = None
         else \<exists>h'. connection_ws_callback_wait N W m h = Some h' \<and>
           registered (long_size W) owned (m_evcon M) ident mq q key h h'))"
proof (cases "asked W M h")
  case None
  have "alloc_ok h (alloc_count h)" using m by (simp add: room_def)
  from ask_refused [OF W N ok g M this None] None show ?thesis by simp
next
  case (Some x)
  obtain ident mq key where x: "x = (ident, mq, key)" by (cases x)
  from ask_outcome [OF W N ok g M m Some [unfolded x]] Some x show ?thesis by simp
qed

theorem ws_wait_spec_witness:
  "connection_ws_callback_wait sample_net (asking None) 40 hall = None \<and>
   (\<exists>h'. connection_ws_callback_wait sample_net (asking (Some ''z'')) 40 hall = Some h' \<and>
      registered 8 set 20 ''i'' 3 2 (Some ''z'') hall h')"
proof -
  have g: "manager_good (long_size (asking key)) hall" for key using hall_good by simp
  have M: "message_at hall 40 = Some \<lparr>m_evcon = 20, m_buffer = nil_id, m_opcode = 1, m_own = True\<rparr>" by simp
  note spec = ws_wait_spec [OF asking_ok sample_net_ok hall_ok g M hall_room, unfolded hall_asked [OF M hall_queue], simplified]
  have q: "manager_queue_get_queue 3 hall = Some (Some 2)" by (rule hall_content)
  show ?thesis
    using spec [of None] spec [of "Some ''z''"] q
    by (simp add: hall_content wanted_def item_matches_def)
qed

text \<open>
  C23: the callback a queue runs for a want.  A cancelled want is released together with the item, which
  is lost, and nothing is sent.  For a live connection exactly one text is sent on it, whatever fails on
  the way to the answer, then the want and the item are released and no JSON object is left.  For a
  connection that is gone, and whose want was not cancelled, the outcome is undefined.
\<close>

theorem ws_delivery_spec:
  assumes W: "libs_ok W owned" and N: "net_ok N pending" and r: "ready L h item want"
    and w: "want_at h want = Some Wn" "want_client Wn = Some a" "want_identifier Wn = Some ident"
  shows "if cancelled Wn then connection_queue_callback_wait N W item want h = Some (drop_item item (want_freed want h))
    else if conn_at h a = None then connection_queue_callback_wait N W item want h = None
    else delivered N owned a item want h (owned (json_st h)) (connection_queue_callback_wait N W item want h)"
  using callback_cancelled [OF libs_okD(1) [OF W] r w(1)] callback_dangling [OF w(1) _ w(2)]
    callback_delivers [OF libs_okD(1,2) [OF W] r _ N, of a ident] w
  by (auto simp: wanted_by_def)

definition handing_hall :: "(addr list, nat) ws_mem" where
  "handing_hall = hall\<lparr>item_at := (item_at desk)(6 := None, 7 \<mapsto> \<lparr>i_key = None, i_value = Some ''u'', i_inserted = False,
     i_owner = Some 2, i_lockcount = 0\<rparr>), queue_at := [2 \<mapsto> zero_queue]\<rparr>"

lemma handing_hall_ready: "ready 8 handing_hall 7 4"
proof -
  have "manager_good 8 handing_hall"
    unfolding manager_good_def manager_inv_def
    by (auto simp: handing_hall_def desk_def heap_inv_def bounded_def alloc_limit_def queue_ok_def counts_ok_def quiescent_def
        zero_queue_def mqueue_ok_def want_ok_def managed_def rand_ok_def all_unlocked_def item_linked_def item_key_def
        nil_uuid [symmetric] split: if_splits)
  moreover have "ws_ok ws_callbacks handing_hall"
    using hall_ok by (simp add: handing_hall_def ws_ok_def conn_ok_def evws_ok_def)
  ultimately show ?thesis by (simp add: ready_def handing_hall_def loose_def)
qed

theorem ws_delivery_spec_witness:
  "delivered sample_net set 20 7 4 handing_hall {} (connection_queue_callback_wait sample_net sample_libs 7 4 handing_hall)"
proof -
  have w: "want_at handing_hall 4 = Some \<lparr>want_identifier = Some ''i'', cancelled = False, want_queue = Some 3, want_client = Some 20\<rparr>"
    by (simp add: handing_hall_def desk_def)
  have c: "conn_at handing_hall 20 \<noteq> None" "json_st handing_hall = []" by (simp_all add: handing_hall_def)
  show ?thesis
    using ws_delivery_spec [OF sample_libs_ok sample_net_ok handing_hall_ready w, of 20 "''i''"] c by simp
qed

text \<open>
  C39: no delivery to a websocket has a defined outcome.  The callback frees the item, and \<open>queue_put\<close>,
  and \<open>queue_wait\<close> when the queue has a matching entry, free it once more; so whether the want is
  cancelled, its connection gone or everything in order, both are undefined.
\<close>

theorem ws_delivery_double_free:
  assumes W: "libs_ok W owned" and N: "net_ok N pending" and ok: "ws_ok ws_callbacks h" and g: "manager_good L h"
    and Q: "queue_at h q = Some Q" and w: "want \<in> set (ctx_wants h)" "want_at h want = Some Wn"
    and c: "want_client Wn = Some con" "want_identifier Wn = Some ident"
  shows "(mem_available h \<and> (\<exists>wkey ws. pick (\<lambda>w. callback_accepts (fst w) key) (waiters h q) = Some ((wkey, Some FN_queue_wait, Some want), ws))
      \<longrightarrow> queue_put (queue_callback_runner N W) q key val h = None) \<and>
    (pick (wanted key) (content h q) \<noteq> None
      \<longrightarrow> queue_wait (queue_callback_runner N W) q key (Some FN_queue_wait) (Some want) h = None)"
proof -
  have twice: "do { h2 \<leftarrow> queue_callback_runner N W FN_queue_wait a (Some want) h1; h3 \<leftarrow> queue_item_free a h2; Some (1 :: int, h3) } = None"
    if "manager_good L h1" "loose h1 a" "queue_mem.more h1 = queue_mem.more h" for h1 a
  proof -
    note more = ws_more [OF that(3)]
    have "ready L h1 a want" using that(1,2) more(7) more(8) [of ws_callbacks] ok w(1) by (simp add: ready_def)
    from delivery_frees_twice [OF W N this _ c] more(6) w(2) show ?thesis by simp
  qed
  show ?thesis
  proof (intro conjI impI, elim conjE exE)
    fix wkey ws assume "mem_available h" and
      "pick (\<lambda>w. callback_accepts (fst w) key) (waiters h q) = Some ((wkey, Some FN_queue_wait, Some want), ws)"
    then show "queue_put (queue_callback_runner N W) q key val h = None"
      by (rule good_put_delivers [OF g Q, where run = "queue_callback_runner N W" and val = val]) (simp add: twice)
  next
    assume "pick (wanted key) (content h q) \<noteq> None"
    then show "queue_wait (queue_callback_runner N W) q key (Some FN_queue_wait) (Some want) h = None"
      by (rule good_wait_delivers [OF g Q, where run = "queue_callback_runner N W" and f = FN_queue_wait and arg = "Some want"])
         (simp add: twice)
  qed
qed

theorem ws_delivery_double_free_witness:
  "queue_put (queue_callback_runner sample_net sample_libs) 2 (Some ''z'') ''u'' waiting_hall = None \<and>
   queue_wait (queue_callback_runner sample_net sample_libs) 2 None (Some FN_queue_wait) (Some 4) waiting_hall = None"
proof -
  obtain Q where Q: "queue_at waiting_hall 2 = Some Q" using waiting_hall_facts(6) by blast
  have w: "4 \<in> set (ctx_wants waiting_hall)" "want_at waiting_hall 4 =
      Some \<lparr>want_identifier = Some ''i'', cancelled = False, want_queue = Some 3, want_client = Some 20\<rparr>"
    by (simp_all add: waiting_hall_facts desk_def)
  note spec = ws_delivery_double_free [OF sample_libs_ok sample_net_ok waiting_hall_facts(1) waiting_hall_good Q w, of 20 "''i''"]
  show ?thesis
    using spec [of "Some ''z''" "''u''"] spec [of None "''u''"]
    by (simp add: waiting_hall_facts callback_accepts_def wanted_def item_matches_def)
qed

text \<open>
  C40: a message can still arrive on a connection that has ended, such as one in the same read as a failed
  write.  Its want is registered; when the peer then closes, the connection is freed and the want is
  neither cancelled nor freed.  It is left with the address of freed memory, and every later delivery to
  it is undefined.
\<close>

theorem ws_dangling_want:
  assumes W: "libs_ok W owned" and N: "net_ok N pending" and ok: "ws_ok ws_callbacks h" and g: "manager_good (long_size W) h"
    and M: "message_at h m = Some M" and r: "room 2 h" and a: "asked W M h = Some (ident, mq, key)"
    and q: "manager_queue_get_queue mq h = Some (Some q)" "pick (wanted key) (content h q) = None"
    and c: "conn_at h (m_evcon M) = Some c" "\<not> c_active c"
  shows "\<exists>h1 h2 w Wn. connection_ws_callback_wait N W m h = Some h1 \<and>
    evws_connection_event_cb N conn_callback 0x10 (m_evcon M) h1 = Some h2 \<and>
    want_at h2 w = Some Wn \<and> want_client Wn = Some (m_evcon M) \<and> \<not> cancelled Wn \<and> conn_at h2 (m_evcon M) = None \<and>
    (\<nexists>item h3. connection_queue_callback_wait N W item w h2 = Some h3)"
proof -
  obtain h1 where h1: "connection_ws_callback_wait N W m h = Some h1"
    "registered (long_size W) owned (m_evcon M) ident mq q key h h1"
    using ask_outcome [OF W N ok g M r a] q by auto
  let ?Wn = "\<lparr>want_identifier = Some ident, cancelled = False, want_queue = Some mq, want_client = Some (m_evcon M)\<rparr>"
  from h1(2) obtain w where w': "want_at h1 = (want_at h)(w \<mapsto> ?Wn)" and c': "conn_at h1 = conn_at h"
    and ok1: "ws_ok ws_callbacks h1" unfolding registered_def by blast
  have w: "want_at h1 w = Some ?Wn" and c1: "conn_at h1 (m_evcon M) = Some c" using w' c' c(1) by simp_all
  obtain x V where V: "c_evws c = Some x" "evws_at h1 x = Some V"
    using ws_okD(1) [OF ok1 c1] by (auto simp: conn_ok_def)
  obtain h2 where h2: "evws_connection_free N conn_callback (m_evcon M) h1 = Some h2" "ws_only h1 h2"
    "conn_at h2 = (conn_at h1)(m_evcon M := None)"
    using free_inactive [OF N ok1 c1 c(2) V] by blast
  have "event_callback 0x10 c V = None" using c(2) by (simp add: event_callback_def split: option.split)
  with event_cb_eq [OF c1 V, of N conn_callback "0x10"] h2(1)
  have e: "evws_connection_event_cb N conn_callback 0x10 (m_evcon M) h1 = Some h2" by simp
  have w2: "want_at h2 w = Some ?Wn" using ws_only_at(1) [OF h2(2)] w by simp
  have d: "conn_at h2 (m_evcon M) = None" using h2(3) by simp
  have "connection_queue_callback_wait N W item w h2 = None" for item
    by (rule callback_dangling [OF w2 _ _ d]) simp_all
  with h1(1) e w2 d show ?thesis by (intro exI [of _ h1] exI [of _ h2] exI [of _ w] exI [of _ ?Wn]) simp
qed

theorem ws_dangling_want_witness:
  "\<exists>h1 h2 w. connection_ws_callback_wait sample_net (asking (Some ''z'')) 41 late_hall = Some h1 \<and>
    evws_connection_event_cb sample_net conn_callback 0x10 21 h1 = Some h2 \<and>
    connection_queue_callback_wait sample_net (asking (Some ''z'')) 99 w h2 = None"
proof -
  have M: "message_at late_hall 41 = Some \<lparr>m_evcon = 21, m_buffer = nil_id, m_opcode = 1, m_own = False\<rparr>"
    by (simp add: late_hall_def)
  have g: "manager_good (long_size (asking (Some ''z''))) late_hall" using late_hall_good by simp
  have r: "room 2 late_hall" by (simp add: room_def late_hall_def alloc_limit_def)
  have p: "pick (wanted (Some ''z'')) (content late_hall 2) = None"
    by (simp add: late_hall_content wanted_def item_matches_def)
  have c: "conn_at late_hall 21 = Some (sample_conn False [41])" by (simp add: late_hall_def)
  obtain h1 h2 w where "connection_ws_callback_wait sample_net (asking (Some ''z'')) 41 late_hall = Some h1"
    "evws_connection_event_cb sample_net conn_callback 0x10 21 h1 = Some h2"
    "\<nexists>item h3. connection_queue_callback_wait sample_net (asking (Some ''z'')) item w h2 = Some h3"
    using ws_dangling_want [OF asking_ok sample_net_ok late_hall_ok g M r hall_asked [OF M late_hall_queue] late_hall_content(2) p] c
    by (auto simp: sample_conn_def)
  then show ?thesis by (metis not_Some_eq)
qed

end
