(* ===== verification/Config.thy ===== *)
theory Config
  imports Connection_Ws_Spec
begin

text \<open>
  Reading the configuration: \<open>src/config.c\<close> and \<open>src/config-internal.h\<close>.  The memory of the server is
  extended by the configuration context.  The configuration file is read once and its JSON document is
  only looked at: the functions of json-c that do so are the record \<open>config_json\<close>, over a type \<open>'v\<close> of
  JSON values (a NULL pointer, which also stands for the JSON null, is \<open>None\<close>).  An authentication of
  \<open>src/auth.c\<close> is a value in the model of that file; here it is given an address, at which it is kept.
\<close>

section \<open>Structures\<close>

record config_authentication =
  ca_name :: cstring
  ca_type :: "cstring option"
  ca_file :: "cstring option"
  ca_auth :: "addr option"

record config_server =
  cs_hostname :: "cstring option"
  cs_port :: "16 word"
  cs_certificate :: "cstring option"
  cs_privatekey :: "cstring option"
  cs_authentication :: "addr option"

record ('j, 'w, 'v) config_mem = "('j, 'w) ws_mem" +
  cfg_servers :: "addr list"
  cfg_authentications :: "addr list"
  cfg_object :: "'v option"
  current_iter :: "addr option"
  server_at :: "addr \<Rightarrow> config_server option"
  authentication_at :: "addr \<Rightarrow> config_authentication option"
  released :: "'v list"

type_synonym ('j, 'w, 'v, 'z) config = "('j, 'w, 'v, 'z) config_mem_scheme"

record 'v config_json =
  json_object_from_file :: "cstring \<Rightarrow> 'v option"
  json_object_object_get :: "'v \<Rightarrow> cstring \<Rightarrow> 'v option"
  json_object_entries :: "'v \<Rightarrow> (cstring \<times> 'v option) list option"
  json_is_array :: "'v \<Rightarrow> bool"
  json_array_length :: "'v \<Rightarrow> nat"
  json_array_get_idx :: "'v \<Rightarrow> nat \<Rightarrow> 'v option"
  json_pointer_get :: "'v option \<Rightarrow> cstring \<Rightarrow> int \<times> 'v option"
  json_string :: "'v option \<Rightarrow> cstring option"
  json_int :: "'v option \<Rightarrow> int"

definition set_server :: "addr \<Rightarrow> config_server \<Rightarrow> ('j, 'w, 'v, 'z) config \<Rightarrow> ('j, 'w, 'v, 'z) config" where
  "set_server s S h = h\<lparr>server_at := (server_at h)(s \<mapsto> S)\<rparr>"

definition free_server :: "addr \<Rightarrow> ('j, 'w, 'v, 'z) config \<Rightarrow> ('j, 'w, 'v, 'z) config" where
  "free_server s h = h\<lparr>server_at := (server_at h)(s := None)\<rparr>"

definition set_authentication :: "addr \<Rightarrow> config_authentication \<Rightarrow> ('j, 'w, 'v, 'z) config \<Rightarrow> ('j, 'w, 'v, 'z) config" where
  "set_authentication a A h = h\<lparr>authentication_at := (authentication_at h)(a \<mapsto> A)\<rparr>"

definition free_authentication :: "addr \<Rightarrow> ('j, 'w, 'v, 'z) config \<Rightarrow> ('j, 'w, 'v, 'z) config" where
  "free_authentication a h = h\<lparr>authentication_at := (authentication_at h)(a := None)\<rparr>"

section \<open>Authentications\<close>

fun scan_authentications :: "('j, 'w, 'v, 'z) config \<Rightarrow> cstring \<Rightarrow> addr list \<Rightarrow> addr option option" where
  "scan_authentications h name [] = Some None"
| "scan_authentications h name (a # as) = do {
     A \<leftarrow> authentication_at h a;
     if strcasecmp (ca_name A) name = 0 then Some (Some a) else scan_authentications h name as }"

definition config_authentication_get :: "cstring \<Rightarrow> ('j, 'w, 'v, 'z) config \<Rightarrow> addr option option" where
  "config_authentication_get name h = scan_authentications h name (cfg_authentications h)"

text \<open>A string at a path of the document; NULL when the path or the string is missing.\<close>

definition string_at :: "'v config_json \<Rightarrow> 'v option \<Rightarrow> cstring \<Rightarrow> cstring option" where
  "string_at C config path = (let (r, obj) = json_pointer_get C config path in if r \<noteq> 0 then None else json_string C obj)"

text \<open>
  When the first allocation fails, the label \<open>error\<close> reads \<open>authentication->auth\<close> through the NULL pointer.
\<close>

definition config_process_authentication ::
  "'v config_json \<Rightarrow> cstring \<Rightarrow> 'v option \<Rightarrow> ('j, 'w, 'v, 'z) config \<Rightarrow> (int \<times> ('j, 'w, 'v, 'z) config) option" where
  "config_process_authentication C name config h = (case calloc h of
       (None, h) \<Rightarrow> None
     | (Some a, h) \<Rightarrow>
         (case string_at C config ''/type'' of
            None \<Rightarrow> Some (0, free_authentication a h)
          | Some ty \<Rightarrow>
             (case string_at C config ''/file'' of
                None \<Rightarrow> Some (0, free_authentication a h)
              | Some file \<Rightarrow>
                 (case auth_method_from_string ty h of
                    (None, h) \<Rightarrow> Some (0, free_authentication a h)
                  | (Some M, h) \<Rightarrow>
                     (let (r, M, h) = auth_set_password_file M file h in
                      if r = 0 then (let M = auth_free M in Some (0, free_authentication a h))
                      else (let m = next_addr h;
                                h = h\<lparr>next_addr := Suc m, auth_at := (auth_at h)(m \<mapsto> M)\<rparr>;
                                h = set_authentication a \<lparr>ca_name = name, ca_type = Some ty, ca_file = Some file, ca_auth = Some m\<rparr> h
                            in Some (1, h\<lparr>cfg_authentications := a # cfg_authentications h\<rparr>)))))))"

section \<open>Servers\<close>

definition SHRT_MAX :: int where "SHRT_MAX = 32767"

text \<open>The optional parts of a server: \<open>None\<close> is the jump to \<open>error\<close>.\<close>

definition server_security :: "'v config_json \<Rightarrow> 'v \<Rightarrow> (cstring option \<times> cstring option) option" where
  "server_security C config = (let (r, obj) = json_pointer_get C (Some config) ''/security/certificate'' in
     if r \<noteq> 0 then Some (None, None)
     else do {
       certificate \<leftarrow> json_string C obj;
       privatekey \<leftarrow> string_at C (Some config) ''/security/privatekey'';
       Some (Some certificate, Some privatekey) })"

definition server_authentication ::
  "'v config_json \<Rightarrow> 'v \<Rightarrow> ('j, 'w, 'v, 'z) config \<Rightarrow> addr option option option" where
  "server_authentication C config h = (let (r, obj) = json_pointer_get C (Some config) ''/authentication'' in
     if r \<noteq> 0 then Some (Some None)
     else (case json_string C obj of
         None \<Rightarrow> Some None
       | Some name \<Rightarrow> do { a \<leftarrow> config_authentication_get name h; Some (map_option Some a) }))"

definition config_process_server ::
  "'v config_json \<Rightarrow> 'v \<Rightarrow> ('j, 'w, 'v, 'z) config \<Rightarrow> (int \<times> ('j, 'w, 'v, 'z) config) option" where
  "config_process_server C config h = (case calloc h of
       (None, h) \<Rightarrow> Some (0, h)
     | (Some s, h) \<Rightarrow>
         (case string_at C (Some config) ''/hostname'' of
            None \<Rightarrow> Some (0, free_server s h)
          | Some hostname \<Rightarrow>
             (let (r, obj) = json_pointer_get C (Some config) ''/port''; port = json_int C obj in
              if r \<noteq> 0 \<or> port = 0 then Some (0, free_server s h)
              else if port \<le> 0 \<or> SHRT_MAX < port then Some (0, free_server s h)
              else (case server_security C config of
                  None \<Rightarrow> Some (0, free_server s h)
                | Some (certificate, privatekey) \<Rightarrow> do {
                    authentication \<leftarrow> server_authentication C config h;
                    case authentication of
                      None \<Rightarrow> Some (0, free_server s h)
                    | Some authentication \<Rightarrow>
                        (let h = set_server s \<lparr>cs_hostname = Some hostname, cs_port = of_int port,
                              cs_certificate = certificate, cs_privatekey = privatekey, cs_authentication = authentication\<rparr> h
                         in Some (1, h\<lparr>cfg_servers := s # cfg_servers h\<rparr>)) }))))"

section \<open>The file\<close>

text \<open>The loops of \<open>config_load_file\<close>: 0 as soon as one entry fails.\<close>

fun load_authentications ::
  "'v config_json \<Rightarrow> (cstring \<times> 'v option) list \<Rightarrow> ('j, 'w, 'v, 'z) config \<Rightarrow> (int \<times> ('j, 'w, 'v, 'z) config) option" where
  "load_authentications C [] h = Some (1, h)"
| "load_authentications C ((key, val) # es) h = do {
     (r, h) \<leftarrow> config_process_authentication C key val h;
     if r = 0 then Some (0, h) else load_authentications C es h }"

fun load_servers ::
  "'v config_json \<Rightarrow> 'v option list \<Rightarrow> ('j, 'w, 'v, 'z) config \<Rightarrow> (int \<times> ('j, 'w, 'v, 'z) config) option" where
  "load_servers C [] h = Some (1, h)"
| "load_servers C (server # vs) h = (case server of
     None \<Rightarrow> Some (0, h)
   | Some v \<Rightarrow> do {
       (r, h) \<leftarrow> config_process_server C v h;
       if r = 0 then Some (0, h) else load_servers C vs h })"

text \<open>
  \<open>json_object_object_foreach\<close> on a value that is no object reads through a NULL pointer.
\<close>

definition config_load_file ::
  "'v config_json \<Rightarrow> cstring \<Rightarrow> ('j, 'w, 'v, 'z) config \<Rightarrow> (int \<times> ('j, 'w, 'v, 'z) config) option" where
  "config_load_file C filename h =
     (let h = h\<lparr>cfg_object := json_object_from_file C filename\<rparr> in
      case cfg_object h of
        None \<Rightarrow> Some (0, h)
      | Some object \<Rightarrow> do {
          (r, h) \<leftarrow> (case json_object_object_get C object ''authentication'' of
              None \<Rightarrow> Some (1, h)
            | Some authentications \<Rightarrow> do {
                es \<leftarrow> json_object_entries C authentications;
                load_authentications C es h });
          if r = 0 then Some (0, h)
          else (case json_object_object_get C object ''servers'' of
              None \<Rightarrow> Some (0, h)
            | Some servers \<Rightarrow>
                if \<not> json_is_array C servers then Some (0, h)
                else load_servers C (map (json_array_get_idx C servers) [0..<json_array_length C servers]) h) })"

definition config_free :: "('j, 'w, 'v, 'z) config \<Rightarrow> ('j, 'w, 'v, 'z) config" where
  "config_free h = (case cfg_object h of None \<Rightarrow> h | Some v \<Rightarrow> h\<lparr>released := v # released h\<rparr>)"

section \<open>Iteration\<close>

definition LIST_FIRST :: "addr list \<Rightarrow> addr option" where
  "LIST_FIRST xs = (case xs of [] \<Rightarrow> None | x # _ \<Rightarrow> Some x)"

fun LIST_NEXT :: "addr \<Rightarrow> addr list \<Rightarrow> addr option" where
  "LIST_NEXT a [] = None"
| "LIST_NEXT a (x # xs) = (if x = a then LIST_FIRST xs else LIST_NEXT a xs)"

definition config_iter_server_begin :: "('j, 'w, 'v, 'z) config \<Rightarrow> int \<times> ('j, 'w, 'v, 'z) config" where
  "config_iter_server_begin h =
     (if current_iter h \<noteq> None then (0, h)
      else (let first = LIST_FIRST (cfg_servers h)
            in (if first \<noteq> None then 1 else 0, h\<lparr>current_iter := first\<rparr>)))"

definition config_iter_server_close :: "('j, 'w, 'v, 'z) config \<Rightarrow> ('j, 'w, 'v, 'z) config" where
  "config_iter_server_close h = h\<lparr>current_iter := None\<rparr>"

definition config_iter_server_next :: "('j, 'w, 'v, 'z) config \<Rightarrow> addr option \<times> ('j, 'w, 'v, 'z) config" where
  "config_iter_server_next h = (case current_iter h of
       None \<Rightarrow> (None, h)
     | Some iter \<Rightarrow> (Some iter, h\<lparr>current_iter := LIST_NEXT iter (cfg_servers h)\<rparr>))"

section \<open>Properties of a server\<close>

definition config_server_get_hostname :: "addr \<Rightarrow> ('j, 'w, 'v, 'z) config \<Rightarrow> cstring option option" where
  "config_server_get_hostname s h = do { S \<leftarrow> server_at h s; Some (cs_hostname S) }"

definition config_server_get_port :: "addr \<Rightarrow> ('j, 'w, 'v, 'z) config \<Rightarrow> 16 word option" where
  "config_server_get_port s h = do { S \<leftarrow> server_at h s; Some (cs_port S) }"

definition config_server_has_security :: "addr \<Rightarrow> ('j, 'w, 'v, 'z) config \<Rightarrow> bool option" where
  "config_server_has_security s h = do { S \<leftarrow> server_at h s; Some (cs_certificate S \<noteq> None \<and> cs_privatekey S \<noteq> None) }"

definition config_server_get_certificate :: "addr \<Rightarrow> ('j, 'w, 'v, 'z) config \<Rightarrow> cstring option option" where
  "config_server_get_certificate s h = do { S \<leftarrow> server_at h s; Some (cs_certificate S) }"

definition config_server_get_privatekey :: "addr \<Rightarrow> ('j, 'w, 'v, 'z) config \<Rightarrow> cstring option option" where
  "config_server_get_privatekey s h = do { S \<leftarrow> server_at h s; Some (cs_privatekey S) }"

text \<open>The last two read through a NULL pointer when the server has no authentication.\<close>

definition config_server_get_authentication :: "addr \<Rightarrow> ('j, 'w, 'v, 'z) config \<Rightarrow> addr option option" where
  "config_server_get_authentication s h = do {
     S \<leftarrow> server_at h s;
     a \<leftarrow> cs_authentication S;
     A \<leftarrow> authentication_at h a;
     Some (ca_auth A) }"

definition config_server_get_realm :: "addr \<Rightarrow> ('j, 'w, 'v, 'z) config \<Rightarrow> cstring option" where
  "config_server_get_realm s h = do {
     S \<leftarrow> server_at h s;
     a \<leftarrow> cs_authentication S;
     A \<leftarrow> authentication_at h a;
     Some (ca_name A) }"

end
