(* ===== verification/Config_Spec.thy ===== *)
theory Config_Spec
  imports Config
begin

text \<open>
  The reference the configuration is checked against: a document describes a list of servers, or is not
  valid.
\<close>

section \<open>What a document describes\<close>

record server_view =
  v_hostname :: cstring
  v_port :: "16 word"
  v_security :: "(cstring \<times> cstring) option"
  v_realm :: "cstring option"

definition valid_authentication :: "'v config_json \<Rightarrow> 'v option \<Rightarrow> bool" where
  "valid_authentication C v \<longleftrightarrow> (case string_at C v ''/type'' of None \<Rightarrow> False | Some ty \<Rightarrow> strcasecmp ''plaintext'' ty = 0) \<and>
     string_at C v ''/file'' \<noteq> None"

definition described_port :: "'v config_json \<Rightarrow> 'v \<Rightarrow> int option" where
  "described_port C v = (let (r, obj) = json_pointer_get C (Some v) ''/port'' in
     if r = 0 \<and> 1 \<le> json_int C obj \<and> json_int C obj \<le> 32767 then Some (json_int C obj) else None)"

definition described_realm :: "'v config_json \<Rightarrow> cstring list \<Rightarrow> 'v \<Rightarrow> cstring option option" where
  "described_realm C names v = (let (r, obj) = json_pointer_get C (Some v) ''/authentication'' in
     if r \<noteq> 0 then Some None
     else do { n \<leftarrow> json_string C obj; realm \<leftarrow> List.find (\<lambda>m. strcasecmp m n = 0) names; Some (Some realm) })"

definition described_security :: "'v config_json \<Rightarrow> 'v \<Rightarrow> (cstring \<times> cstring) option option" where
  "described_security C v = (let (r, obj) = json_pointer_get C (Some v) ''/security/certificate'' in
     if r \<noteq> 0 then Some None
     else do { c \<leftarrow> json_string C obj; k \<leftarrow> string_at C (Some v) ''/security/privatekey''; Some (Some (c, k)) })"

definition described_server :: "'v config_json \<Rightarrow> cstring list \<Rightarrow> 'v option \<Rightarrow> server_view option" where
  "described_server C names server = do {
     v \<leftarrow> server;
     hostname \<leftarrow> string_at C (Some v) ''/hostname'';
     port \<leftarrow> described_port C v;
     security \<leftarrow> described_security C v;
     realm \<leftarrow> described_realm C names v;
     Some \<lparr>v_hostname = hostname, v_port = of_int port, v_security = security, v_realm = realm\<rparr> }"

section \<open>The configuration in memory\<close>

definition auth_names :: "('j, 'w, 'v, 'z) config \<Rightarrow> cstring list" where
  "auth_names h = map (\<lambda>a. ca_name (the (authentication_at h a))) (cfg_authentications h)"

definition server_view_of :: "('j, 'w, 'v, 'z) config \<Rightarrow> addr \<Rightarrow> server_view" where
  "server_view_of h s = (let S = the (server_at h s) in
     \<lparr>v_hostname = the (cs_hostname S), v_port = cs_port S,
      v_security = (case (cs_certificate S, cs_privatekey S) of (Some c, Some k) \<Rightarrow> Some (c, k) | _ \<Rightarrow> None),
      v_realm = map_option (\<lambda>a. ca_name (the (authentication_at h a))) (cs_authentication S)\<rparr>)"

text \<open>
  The invariant: the lists hold allocated structures; every authentication has an instance, every
  server a hostname, a port from 1 to 32767, a certificate and a key or neither, and an authentication
  that is in the list, or none.
\<close>

definition authentication_ok :: "('j, 'w, 'v, 'z) config \<Rightarrow> addr \<Rightarrow> bool" where
  "authentication_ok h a \<longleftrightarrow> a < next_addr h \<and> (\<exists>A m M. authentication_at h a = Some A \<and> ca_auth A = Some m \<and>
     m < next_addr h \<and> auth_at h m = Some M)"

definition server_ok :: "('j, 'w, 'v, 'z) config \<Rightarrow> addr \<Rightarrow> bool" where
  "server_ok h s \<longleftrightarrow> s < next_addr h \<and> (\<exists>S. server_at h s = Some S \<and> cs_hostname S \<noteq> None \<and>
     1 \<le> uint (cs_port S) \<and> uint (cs_port S) \<le> 32767 \<and> (cs_certificate S = None \<longleftrightarrow> cs_privatekey S = None) \<and>
     set_option (cs_authentication S) \<subseteq> set (cfg_authentications h))"

definition config_ok :: "('j, 'w, 'v, 'z) config \<Rightarrow> bool" where
  "config_ok h \<longleftrightarrow> distinct (cfg_authentications h) \<and> distinct (cfg_servers h) \<and>
     (\<forall>a \<in> set (cfg_authentications h). authentication_ok h a) \<and> (\<forall>s \<in> set (cfg_servers h). server_ok h s)"

definition space :: "nat \<Rightarrow> 'z mem_scheme \<Rightarrow> bool" where
  "space n h \<longleftrightarrow> granted h \<and> next_addr h + n \<le> alloc_limit"

lemma calloc_space: "space (Suc n) h \<Longrightarrow> calloc h =
    (Some (next_addr h), h\<lparr>alloc_count := Suc (alloc_count h), next_addr := Suc (next_addr h)\<rparr>)"
  by (simp add: space_def calloc_granted)

lemma auth_method_granted:
  "granted h \<Longrightarrow> auth_method_from_string ty h = (if strcasecmp ''plaintext'' ty = 0
     then (Some \<lparr>au_method = Auth_plaintext, au_methoddata = \<lparr>source = None, source_last_read = 0, passwords = []\<rparr>\<rparr>,
       h\<lparr>alloc_count := alloc_count h + 2\<rparr>) else (None, h))"
  by (simp add: auth_method_from_string_def auth_methods_list_def auth_new_int_def alloc_block_def auth_plaintext_new_def granted_def)

lemma set_file_granted:
  "granted h \<Longrightarrow> auth_set_password_file \<lparr>au_method = Auth_plaintext, au_methoddata = \<lparr>source = None, source_last_read = 0, passwords = []\<rparr>\<rparr> fl h =
     (1, \<lparr>au_method = Auth_plaintext, au_methoddata = \<lparr>source = Some fl, source_last_read = 0, passwords = []\<rparr>\<rparr>, h\<lparr>alloc_count := Suc (alloc_count h)\<rparr>)"
  by (simp add: auth_set_password_file_def auth_plaintext_set_password_file_def strdup_def granted_def free_entries.simps)

text \<open>
  What reading the configuration leaves as it is, next to the queues: the iterator, the servers and routes, and
  the parts that extend this memory.
\<close>

definition rest_of :: "('j, 'w, 'v, 'z) config \<Rightarrow> addr option \<times> manager_server list \<times> ev_call list \<times> 'z" where
  "rest_of h = (current_iter h, ctx_servers h, ev_calls h, config_mem.more h)"

lemma rest_of_object [simp]: "rest_of (h\<lparr>cfg_object := x\<rparr>) = rest_of h"
  by (simp add: rest_of_def)

text \<open>An authentication that was added.\<close>

definition authentication_added :: "cstring \<Rightarrow> cstring \<Rightarrow> cstring \<Rightarrow> ('j, 'w, 'v, 'z) config \<Rightarrow> ('j, 'w, 'v, 'z) config" where
  "authentication_added name ty fl h =
     (let a = next_addr h; m = Suc a in h\<lparr>alloc_count := alloc_count h + 4, next_addr := a + 2,
        auth_at := (auth_at h)(m \<mapsto> \<lparr>au_method = Auth_plaintext,
          au_methoddata = \<lparr>source = Some fl, source_last_read = 0, passwords = []\<rparr>\<rparr>),
        authentication_at := (authentication_at h)(a \<mapsto> \<lparr>ca_name = name, ca_type = Some ty, ca_file = Some fl, ca_auth = Some m\<rparr>),
        cfg_authentications := a # cfg_authentications h\<rparr>)"

lemma process_authentication:
  assumes "space 2 h"
  shows "if valid_authentication C v
    then \<exists>ty fl. config_process_authentication C name v h = Some (1, authentication_added name ty fl h)
    else \<exists>h'. config_process_authentication C name v h = Some (0, h')"
proof -
  have g: "granted h" using assms by (simp add: space_def)
  have gu: "granted (h\<lparr>alloc_count := n, next_addr := x\<rparr>)" "granted (h\<lparr>next_addr := x, alloc_count := n\<rparr>)" for n x
    using g by (simp_all add: granted_def)
  have c: "calloc h = (Some (next_addr h), h\<lparr>alloc_count := Suc (alloc_count h), next_addr := Suc (next_addr h)\<rparr>)"
    using calloc_space [of 1 h] assms by (simp add: numeral_2_eq_2)
  show ?thesis
  proof (cases "valid_authentication C v")
    case True
    then obtain ty fl where s: "string_at C v ''/type'' = Some ty" "strcasecmp ''plaintext'' ty = 0"
      "string_at C v ''/file'' = Some fl" by (auto simp: valid_authentication_def split: option.splits)
    then have "config_process_authentication C name v h = Some (1, authentication_added name ty fl h)"
      using c gu by (simp add: config_process_authentication_def auth_method_granted set_file_granted
        authentication_added_def set_authentication_def Let_def)
    with True show ?thesis by auto
  next
    case False
    then show ?thesis
      using c gu by (auto simp: config_process_authentication_def valid_authentication_def auth_method_granted split: option.splits)
  qed
qed

lemma added_simps [simp]:
  "cfg_authentications (authentication_added name ty fl h) = next_addr h # cfg_authentications h"
  "cfg_servers (authentication_added name ty fl h) = cfg_servers h"
  "server_at (authentication_added name ty fl h) = server_at h"
  "next_addr (authentication_added name ty fl h) = next_addr h + 2"
  "alloc_ok (authentication_added name ty fl h) = alloc_ok h"
  "rest_of (authentication_added name ty fl h) = rest_of h"
  "authentication_at (authentication_added name ty fl h) = (authentication_at h)(next_addr h \<mapsto>
     \<lparr>ca_name = name, ca_type = Some ty, ca_file = Some fl, ca_auth = Some (Suc (next_addr h))\<rparr>)"
  "auth_at (authentication_added name ty fl h) = (auth_at h)(Suc (next_addr h) \<mapsto> \<lparr>au_method = Auth_plaintext,
     au_methoddata = \<lparr>source = Some fl, source_last_read = 0, passwords = []\<rparr>\<rparr>)"
  by (simp_all add: authentication_added_def rest_of_def Let_def)

lemma object_frame: "server_frame (h\<lparr>cfg_object := x\<rparr>) h' = server_frame h h'"
  by (simp add: server_frame_def)

lemma added_frame: "space 2 h \<Longrightarrow> server_frame h (authentication_added name ty fl h)"
  by (simp add: server_frame_def authentication_added_def space_def Let_def)

lemma config_okD:
  assumes "config_ok h"
  shows "a \<in> set (cfg_authentications h) \<Longrightarrow> authentication_ok h a" "s \<in> set (cfg_servers h) \<Longrightarrow> server_ok h s"
  using assms by (simp_all add: config_ok_def)

lemma fresh_authentication: "config_ok h \<Longrightarrow> next_addr h \<notin> set (cfg_authentications h)"
  by (auto simp: config_ok_def authentication_ok_def)

lemma added_ok:
  assumes ok: "config_ok h"
  shows "config_ok (authentication_added name ty fl h)"
    and "auth_names (authentication_added name ty fl h) = name # auth_names h"
proof -
  let ?h = "authentication_added name ty fl h"
  note fr = fresh_authentication [OF ok]
  have "authentication_ok ?h a" if "a \<in> set (cfg_authentications h)" for a
  proof -
    from config_okD(1) [OF ok that] obtain A m M where A: "a < next_addr h" "authentication_at h a = Some A"
      "ca_auth A = Some m" "m < next_addr h" "auth_at h m = Some M" by (auto simp: authentication_ok_def)
    then show ?thesis
      unfolding authentication_ok_def by (intro conjI exI [of _ A] exI [of _ m] exI [of _ M]) simp_all
  qed
  moreover have "authentication_ok ?h (next_addr h)" by (simp add: authentication_ok_def)
  moreover have "server_ok ?h s" if "s \<in> set (cfg_servers h)" for s
    using config_okD(2) [OF ok that] by (auto simp: server_ok_def)
  ultimately show "config_ok ?h" using ok fr by (simp add: config_ok_def)
  show "auth_names ?h = name # auth_names h" using fr by (auto simp: auth_names_def)
qed

text \<open>Loading the authentications, when memory is available.\<close>

lemma load_authentications_spec:
  "config_ok h \<Longrightarrow> space (2 * length es) h \<Longrightarrow>
   if \<forall>(key, v) \<in> set es. valid_authentication C v
   then \<exists>h'. load_authentications C es h = Some (1, h') \<and> config_ok h' \<and> auth_names h' = rev (map fst es) @ auth_names h \<and>
     cfg_servers h' = cfg_servers h \<and> next_addr h' = next_addr h + 2 * length es \<and> granted h' \<and> rest_of h' = rest_of h \<and>
     server_frame h h'
   else \<exists>h'. load_authentications C es h = Some (0, h')"
proof (induction es arbitrary: h)
  case Nil
  then show ?case by (simp add: space_def)
next
  case (Cons e es)
  obtain key v where e: "e = (key, v)" by (cases e)
  have s2: "space 2 h" using Cons.prems(2) by (simp add: space_def)
  show ?case
  proof (cases "valid_authentication C v")
    case False
    with process_authentication [OF s2, of C v key] e show ?thesis by auto
  next
    case True
    with process_authentication [OF s2, of C v key] obtain ty fl where
      p: "config_process_authentication C key v h = Some (1, authentication_added key ty fl h)" by auto
    let ?h = "authentication_added key ty fl h"
    have s: "space (2 * length es) ?h" using Cons.prems(2) by (simp add: space_def granted_def)
    note IH = Cons.IH [OF added_ok(1) [OF Cons.prems(1)] s]
    show ?thesis
      using IH p e True added_ok(2) [OF Cons.prems(1), of key ty fl] server_frame_trans [OF added_frame [OF s2]] by (auto split: if_splits)
  qed
qed

section \<open>Servers\<close>

lemma find_map_eq: "List.find P (map f xs) = map_option f (List.find (\<lambda>x. P (f x)) xs)"
  by (induction xs) auto

lemma authentication_search:
  assumes ok: "config_ok h"
  shows "config_authentication_get n h = Some (List.find (\<lambda>a. strcasecmp (ca_name (the (authentication_at h a))) n = 0) (cfg_authentications h))"
proof -
  have "scan_authentications h n as = Some (List.find (\<lambda>a. strcasecmp (ca_name (the (authentication_at h a))) n = 0) as)"
    if "\<forall>a \<in> set as. authentication_ok h a" for as
    using that by (induction as) (auto simp: authentication_ok_def)
  with ok show ?thesis by (simp add: config_authentication_get_def config_ok_def)
qed

lemma scan_frame: "authentication_at h' = authentication_at h \<Longrightarrow> scan_authentications h' n as = scan_authentications h n as"
proof (induction as)
  case (Cons a as)
  then show ?case by (cases "authentication_at h a") simp_all
qed simp

lemma server_authentication_eq:
  assumes ok: "config_ok h"
  shows "\<exists>r. server_authentication C v h = Some r \<and> described_realm C (auth_names h) v =
    map_option (map_option (\<lambda>a. ca_name (the (authentication_at h a)))) r \<and>
    (\<forall>a. r = Some (Some a) \<longrightarrow> a \<in> set (cfg_authentications h))"
proof (cases "fst (json_pointer_get C (Some v) ''/authentication'') = 0 \<and> json_string C (snd (json_pointer_get C (Some v) ''/authentication'')) \<noteq> None")
  case False
  then show ?thesis by (auto simp: server_authentication_def described_realm_def split: prod.split)
next
  case True
  then obtain obj n where p: "json_pointer_get C (Some v) ''/authentication'' = (0, obj)" "json_string C obj = Some n"
    by (cases "json_pointer_get C (Some v) ''/authentication''") auto
  let ?f = "List.find (\<lambda>a. strcasecmp (ca_name (the (authentication_at h a))) n = 0) (cfg_authentications h)"
  have "server_authentication C v h = Some (map_option Some ?f)"
    using p authentication_search [OF ok] by (simp add: server_authentication_def)
  moreover have "described_realm C (auth_names h) v = map_option (map_option (\<lambda>a. ca_name (the (authentication_at h a)))) (map_option Some ?f)"
    using p by (cases ?f) (simp_all add: described_realm_def auth_names_def find_map_eq)
  moreover have "a \<in> set (cfg_authentications h)" if "map_option Some ?f = Some (Some a)" for a
    using that by (auto simp: find_Some_iff)
  ultimately show ?thesis by blast
qed

lemma server_security_eq:
  "described_security C v = map_option (\<lambda>(c, k). case (c, k) of (Some x, Some y) \<Rightarrow> Some (x, y) | _ \<Rightarrow> None) (server_security C v) \<and>
   (\<forall>c k. server_security C v = Some (c, k) \<longrightarrow> (c = None \<longleftrightarrow> k = None))"
  by (auto simp: described_security_def server_security_def split: prod.split Option.bind_split)

text \<open>A server that was added.\<close>

definition server_added :: "config_server \<Rightarrow> ('j, 'w, 'v, 'z) config \<Rightarrow> ('j, 'w, 'v, 'z) config" where
  "server_added S h = (let s = next_addr h in h\<lparr>alloc_count := Suc (alloc_count h), next_addr := Suc s,
     server_at := (server_at h)(s \<mapsto> S), cfg_servers := s # cfg_servers h\<rparr>)"

lemma server_added_simps [simp]:
  "cfg_servers (server_added S h) = next_addr h # cfg_servers h" "cfg_authentications (server_added S h) = cfg_authentications h"
  "server_at (server_added S h) = (server_at h)(next_addr h \<mapsto> S)" "authentication_at (server_added S h) = authentication_at h"
  "auth_at (server_added S h) = auth_at h" "next_addr (server_added S h) = Suc (next_addr h)" "alloc_ok (server_added S h) = alloc_ok h"
  "rest_of (server_added S h) = rest_of h"
  by (simp_all add: server_added_def rest_of_def Let_def)

lemma server_added_frame: "space 1 h \<Longrightarrow> server_frame h (server_added S h)"
  by (simp add: server_frame_def server_added_def space_def Let_def)

lemma server_added_ok:
  assumes ok: "config_ok h" and S: "cs_hostname S \<noteq> None" "1 \<le> uint (cs_port S)" "uint (cs_port S) \<le> 32767"
      "cs_certificate S = None \<longleftrightarrow> cs_privatekey S = None" "set_option (cs_authentication S) \<subseteq> set (cfg_authentications h)"
  shows "config_ok (server_added S h)" and "auth_names (server_added S h) = auth_names h"
    and "map (server_view_of (server_added S h)) (cfg_servers h) = map (server_view_of h) (cfg_servers h)"
proof -
  let ?h = "server_added S h"
  have fr: "next_addr h \<notin> set (cfg_servers h)" using ok by (auto simp: config_ok_def server_ok_def)
  have "authentication_ok ?h a" if "a \<in> set (cfg_authentications h)" for a
    using config_okD(1) [OF ok that] by (auto simp: authentication_ok_def)
  moreover have "server_ok ?h s" if "s \<in> set (cfg_servers h)" for s
    using config_okD(2) [OF ok that] fr that by (auto simp: server_ok_def)
  moreover have "server_ok ?h (next_addr h)" using S by (simp add: server_ok_def)
  ultimately show "config_ok ?h" using ok fr by (simp add: config_ok_def)
  show "auth_names ?h = auth_names h" by (simp add: auth_names_def)
  show "map (server_view_of ?h) (cfg_servers h) = map (server_view_of h) (cfg_servers h)"
    using fr by (auto simp: server_view_of_def)
qed

lemma process_server:
  assumes ok: "config_ok h" and sp: "space 1 h"
  shows "case described_server C (auth_names h) (Some v) of
      None \<Rightarrow> \<exists>h'. config_process_server C v h = Some (0, h')
    | Some view \<Rightarrow> \<exists>S. config_process_server C v h = Some (1, server_added S h) \<and>
        config_ok (server_added S h) \<and> server_view_of (server_added S h) (next_addr h) = view"
proof -
  let ?h = "h\<lparr>alloc_count := Suc (alloc_count h), next_addr := Suc (next_addr h)\<rparr>"
  have c: "calloc h = (Some (next_addr h), ?h)" using calloc_space [of 0 h] sp by simp
  obtain r where r: "server_authentication C v h = Some r" "described_realm C (auth_names h) v =
    map_option (map_option (\<lambda>a. ca_name (the (authentication_at h a)))) r" "\<forall>a. r = Some (Some a) \<longrightarrow> a \<in> set (cfg_authentications h)"
    using server_authentication_eq [OF ok, of C v] by blast
  have r1: "server_authentication C v ?h = Some r"
  proof -
    have e: "config_authentication_get n ?h = config_authentication_get n h" for n
      unfolding config_authentication_get_def using scan_frame [of ?h h n] by simp
    show ?thesis using r(1) unfolding server_authentication_def e .
  qed
  note sec = server_security_eq [of C v]
  obtain p obj where p: "json_pointer_get C (Some v) ''/port'' = (p, obj)" by force
  show ?thesis
  proof (cases "described_server C (auth_names h) (Some v)")
    case None
    then show ?thesis
      using c r r1 sec p
      by (auto simp: described_server_def config_process_server_def described_port_def SHRT_MAX_def Let_def
          split: option.splits Option.bind_splits)
  next
    case (Some view)
    then obtain hostname port security realm where d: "string_at C (Some v) ''/hostname'' = Some hostname" "described_port C v = Some port"
      "described_security C v = Some security" "described_realm C (auth_names h) v = Some realm"
      "view = \<lparr>v_hostname = hostname, v_port = of_int port, v_security = security, v_realm = realm\<rparr>"
      by (auto simp: described_server_def split: Option.bind_splits)
    from d(2) p have port: "p = 0" "port = json_int C obj" "1 \<le> port" "port \<le> 32767"
      by (auto simp: described_port_def split: if_splits)
    obtain ct pk where ck: "server_security C v = Some (ct, pk)" using sec d(3) by (cases "server_security C v") auto
    with sec d(3) have ss: "server_security C v = Some (ct, pk)" "ct = None \<longleftrightarrow> pk = None"
      "security = (case (ct, pk) of (Some x, Some y) \<Rightarrow> Some (x, y) | _ \<Rightarrow> None)" by simp_all
    obtain a where a: "r = Some a" "realm = map_option (\<lambda>a. ca_name (the (authentication_at h a))) a"
      using r(2) d(4) by (cases r) simp_all
    let ?S = "\<lparr>cs_hostname = Some hostname, cs_port = of_int port, cs_certificate = ct, cs_privatekey = pk, cs_authentication = a\<rparr>"
    have u: "uint (of_int port :: 16 word) = port" using port(3,4) by (simp add: unsigned_of_int take_bit_int_eq_self)
    have "config_process_server C v h = Some (1, server_added ?S h)"
      using c d(1) p port ss(1) r1 a(1)
      by (simp add: config_process_server_def SHRT_MAX_def set_server_def server_added_def Let_def)
    moreover have "config_ok (server_added ?S h)"
      by (rule server_added_ok(1) [OF ok]) (use u port ss(2) r(3) a(1) in \<open>auto split: option.splits\<close>)
    moreover have "server_view_of (server_added ?S h) (next_addr h) = view"
      using d(5) ss(3) a(2) by (simp add: server_view_of_def split: option.splits)
    ultimately show ?thesis using Some by auto
  qed
qed

lemma load_servers_spec:
  "config_ok h \<Longrightarrow> space (length vs) h \<Longrightarrow>
   case those (map (described_server C (auth_names h)) vs) of
     None \<Rightarrow> \<exists>h'. load_servers C vs h = Some (0, h')
   | Some views \<Rightarrow> \<exists>h'. load_servers C vs h = Some (1, h') \<and> config_ok h' \<and> auth_names h' = auth_names h \<and>
       map (server_view_of h') (cfg_servers h') = rev views @ map (server_view_of h) (cfg_servers h) \<and>
       next_addr h' = next_addr h + length vs \<and> granted h' \<and> rest_of h' = rest_of h \<and> server_frame h h'"
proof (induction vs arbitrary: h)
  case Nil
  then show ?case by (simp add: space_def)
next
  case (Cons w vs)
  have s1: "space 1 h" using Cons.prems(2) by (simp add: space_def)
  show ?case
  proof (cases "described_server C (auth_names h) w")
    case None
    then show ?thesis
      using process_server [OF Cons.prems(1) s1, of C "the w"] by (cases w) auto
  next
    case (Some view)
    then obtain v where w: "w = Some v" by (cases w) (auto simp: described_server_def)
    from process_server [OF Cons.prems(1) s1, of C v] Some w obtain S where
      S: "config_process_server C v h = Some (1, server_added S h)" "config_ok (server_added S h)"
        "server_view_of (server_added S h) (next_addr h) = view" by auto
    let ?h = "server_added S h"
    have n: "auth_names ?h = auth_names h" by (simp add: auth_names_def)
    have fr: "next_addr h \<notin> set (cfg_servers h)" using Cons.prems(1) by (auto simp: config_ok_def server_ok_def)
    then have o: "map (server_view_of ?h) (cfg_servers h) = map (server_view_of h) (cfg_servers h)"
      by (auto simp: server_view_of_def)
    have "space (length vs) ?h" using Cons.prems(2) by (simp add: space_def granted_def)
    from Cons.IH [OF S(2) this] Some w S n o server_frame_trans [OF server_added_frame [OF s1]] show ?thesis
      by (cases "those (map (described_server C (auth_names h)) vs)") auto
  qed
qed

text \<open>The reference: what a file describes, and the number of structures it takes.\<close>

definition document :: "'v config_json \<Rightarrow> cstring \<Rightarrow> ((cstring \<times> 'v option) list \<times> 'v option list) option" where
  "document C fl = do {
     object \<leftarrow> json_object_from_file C fl;
     servers \<leftarrow> json_object_object_get C object ''servers'';
     if json_is_array C servers
     then Some (case json_object_object_get C object ''authentication'' of None \<Rightarrow> [] | Some a \<Rightarrow> the (json_object_entries C a),
       map (json_array_get_idx C servers) [0..<json_array_length C servers])
     else None }"

definition described :: "'v config_json \<Rightarrow> cstring \<Rightarrow> server_view list option" where
  "described C fl = do {
     (es, vs) \<leftarrow> document C fl;
     if \<forall>(key, v) \<in> set es. valid_authentication C v
     then those (map (described_server C (rev (map fst es))) vs) else None }"

definition document_size :: "'v config_json \<Rightarrow> cstring \<Rightarrow> nat" where
  "document_size C fl = (case json_object_from_file C fl of None \<Rightarrow> 0
     | Some object \<Rightarrow> (case json_object_object_get C object ''authentication'' of None \<Rightarrow> 0
         | Some a \<Rightarrow> 2 * length (the (json_object_entries C a))) +
       (case json_object_object_get C object ''servers'' of None \<Rightarrow> 0 | Some servers \<Rightarrow> json_array_length C servers))"

text \<open>\<open>authentication\<close>, when it is there, is an object.\<close>

definition well_typed :: "'v config_json \<Rightarrow> cstring \<Rightarrow> bool" where
  "well_typed C fl \<longleftrightarrow> (case json_object_from_file C fl of None \<Rightarrow> True
     | Some object \<Rightarrow> (case json_object_object_get C object ''authentication'' of None \<Rightarrow> True
         | Some a \<Rightarrow> json_object_entries C a \<noteq> None))"

definition unconfigured :: "('j, 'w, 'v, 'z) config \<Rightarrow> bool" where
  "unconfigured h \<longleftrightarrow> cfg_servers h = [] \<and> cfg_authentications h = []"

lemma unconfigured_ok: "unconfigured h \<Longrightarrow> config_ok h" "unconfigured h \<Longrightarrow> auth_names h = []"
  by (simp_all add: unconfigured_def config_ok_def auth_names_def)

lemma load_file:
  fixes h :: "('j, 'w, 'v, 'z) config"
  assumes u: "unconfigured h" and sp: "space (document_size C fl) h" and ty: "well_typed C fl"
  shows "case described C fl of
      None \<Rightarrow> \<exists>h'. config_load_file C fl h = Some (0, h')
    | Some views \<Rightarrow> \<exists>h'. config_load_file C fl h = Some (1, h') \<and> config_ok h' \<and>
        map (server_view_of h') (cfg_servers h') = rev views \<and> next_addr h' = next_addr h + document_size C fl \<and> granted h' \<and>
        rest_of h' = rest_of h \<and> server_frame h h'"
proof (cases "json_object_from_file C fl")
  case None
  then show ?thesis by (simp add: described_def document_def config_load_file_def)
next
  case (Some object)
  let ?h = "h\<lparr>cfg_object := Some object\<rparr>"
  define es where "es = (case json_object_object_get C object ''authentication'' of None \<Rightarrow> [] | Some a \<Rightarrow> the (json_object_entries C a))"
  have u1: "unconfigured ?h" using u by (simp add: unconfigured_def)
  have sp1: "space (2 * length es) ?h"
    using sp Some by (auto simp: space_def granted_def document_size_def es_def split: option.splits)
  have les: "(case json_object_object_get C object ''authentication'' of None \<Rightarrow> Some (1, ?h)
      | Some a \<Rightarrow> do { es \<leftarrow> json_object_entries C a; load_authentications C es ?h }) = load_authentications C es ?h"
    using ty Some by (auto simp: es_def well_typed_def split: option.splits)
  have eq: "config_load_file C fl h = do {
      (r, h) \<leftarrow> load_authentications C es ?h;
      if r = 0 then Some (0, h)
      else (case json_object_object_get C object ''servers'' of None \<Rightarrow> Some (0, h)
        | Some servers \<Rightarrow> if \<not> json_is_array C servers then Some (0, h)
            else load_servers C (map (json_array_get_idx C servers) [0..<json_array_length C servers]) h) }"
    using les Some by (simp add: config_load_file_def)
  note la = load_authentications_spec [OF unconfigured_ok(1) [OF u1] sp1, of C]
  show ?thesis
  proof (cases "\<forall>(key, v) \<in> set es. valid_authentication C v")
    case False
    with la obtain h' where "load_authentications C es ?h = Some (0, h')" by auto
    moreover have "described C fl = None"
      using False Some by (auto simp: described_def document_def es_def split: Option.bind_splits)
    ultimately show ?thesis by (simp add: eq)
  next
    case True
    with la unconfigured_ok(2) [OF u1] obtain h1 where h1: "load_authentications C es ?h = Some (1, h1)" "config_ok h1"
      "auth_names h1 = rev (map fst es)" "cfg_servers h1 = []" "next_addr h1 = next_addr h + 2 * length es" "granted h1" "rest_of h1 = rest_of h" "server_frame h h1"
      using u by (auto simp: unconfigured_def object_frame)
    show ?thesis
    proof (cases "json_object_object_get C object ''servers''")
      case None
      then show ?thesis using h1 Some by (simp add: eq described_def document_def)
    next
      case servers: (Some servers)
      show ?thesis
      proof (cases "json_is_array C servers")
        case False
        then show ?thesis using h1 Some servers by (simp add: eq described_def document_def)
      next
        case arr: True
        let ?vs = "map (json_array_get_idx C servers) [0..<json_array_length C servers]"
        have size: "document_size C fl = 2 * length es + length ?vs"
          using Some servers by (auto simp: document_size_def es_def split: option.splits)
        then have "space (length ?vs) h1" using sp h1(5,6) by (simp add: space_def)
        note ls = load_servers_spec [OF h1(2) this, of C]
        have d: "described C fl = those (map (described_server C (auth_names h1)) ?vs)"
          using True Some servers arr h1(3) by (simp add: described_def document_def es_def)
        show ?thesis
          unfolding d using ls h1(1,4,5,7) server_frame_trans [OF h1(8)] servers arr size
          by (cases "those (map (described_server C (auth_names h1)) ?vs)") (auto simp: eq)
      qed
    qed
  qed
qed

section \<open>A JSON library to run on\<close>

datatype cfg_value = CStr cstring | CNum int | CObj "(cstring \<times> cfg_value) list" | CArr "cfg_value list"

fun walk :: "cstring list \<Rightarrow> cfg_value option \<Rightarrow> int \<times> cfg_value option" where
  "walk [] v = (0, v)"
| "walk (k # ks) (Some (CObj es)) = (case map_of es k of None \<Rightarrow> (-1, None) | Some v \<Rightarrow> walk ks (Some v))"
| "walk (k # ks) _ = (-1, None)"

definition sample_json :: "cfg_value \<Rightarrow> cfg_value config_json" where
  "sample_json doc =
    \<lparr>json_object_from_file = (\<lambda>f. if f = ''disqueue.json'' then Some doc else None),
     json_object_object_get = (\<lambda>v k. case v of CObj es \<Rightarrow> map_of es k | _ \<Rightarrow> None),
     json_object_entries = (\<lambda>v. case v of CObj es \<Rightarrow> Some (map (apsnd Some) es) | _ \<Rightarrow> None),
     json_is_array = (\<lambda>v. case v of CArr _ \<Rightarrow> True | _ \<Rightarrow> False),
     json_array_length = (\<lambda>v. case v of CArr vs \<Rightarrow> length vs | _ \<Rightarrow> 0),
     json_array_get_idx = (\<lambda>v i. case v of CArr vs \<Rightarrow> if i < length vs then Some (vs ! i) else None | _ \<Rightarrow> None),
     json_pointer_get = (\<lambda>v p. walk (tl (split_on (CHR ''/'') p)) v),
     json_string = (\<lambda>v. case v of Some (CStr s) \<Rightarrow> Some s | _ \<Rightarrow> None),
     json_int = (\<lambda>v. case v of Some (CNum i) \<Rightarrow> i | _ \<Rightarrow> 0)\<rparr>"

definition sample_document :: "int \<Rightarrow> cfg_value" where
  "sample_document port = CObj
    [(''authentication'', CObj [(''users'', CObj [(''type'', CStr ''plaintext''), (''file'', CStr ''passwd'')])]),
     (''servers'', CArr
       [CObj [(''hostname'', CStr ''127.0.0.1''), (''port'', CNum port)],
        CObj [(''hostname'', CStr ''10.0.0.1''), (''port'', CNum 443), (''authentication'', CStr ''Users''),
          (''security'', CObj [(''certificate'', CStr ''crt''), (''privatekey'', CStr ''key'')])]])]"

definition blank :: "(addr list, nat, cfg_value) config_mem" where
  "blank = ws_mem.extend hall (config_mem.fields [] [] None None Map.empty Map.empty [])"

lemma blank_simps [simp]:
  "cfg_servers blank = []" "cfg_authentications blank = []" "current_iter blank = None" "next_addr blank = 50"
  "alloc_ok blank = (\<lambda>n. True)"
  by (simp_all add: blank_def ws_mem.defs config_mem.defs hall_def server_mem.defs desk_def)

section \<open>Properties\<close>

text \<open>
  C12: the configuration that \<open>config_load_file\<close> leaves behind is the one the document describes.  On a
  fresh context, with memory available, and when \<open>authentication\<close>, if present, is an object: if the
  document is valid, the result is 1, the structures are well formed (the invariant \<open>config_ok\<close>: ports
  from 1 to 32767, a certificate and a key or neither, references that are in the lists) and the
  servers in memory, in the reverse order of the document, have exactly the described hostnames,
  ports, key pairs and realms; otherwise the result is 0.
\<close>

theorem config_load_spec:
  assumes "unconfigured h" and "space (document_size C fl) h" and "well_typed C fl"
  shows "case described C fl of
      None \<Rightarrow> \<exists>h'. config_load_file C fl h = Some (0, h')
    | Some views \<Rightarrow> \<exists>h'. config_load_file C fl h = Some (1, h') \<and> config_ok h' \<and>
        map (server_view_of h') (cfg_servers h') = rev views"
  using load_file [OF assms] by (auto split: option.splits)

theorem config_load_spec_witness:
  "(\<exists>h'. config_load_file (sample_json (sample_document 3682)) ''disqueue.json'' blank = Some (1, h') \<and> config_ok h' \<and>
     map (server_view_of h') (cfg_servers h') =
       [\<lparr>v_hostname = ''10.0.0.1'', v_port = 443, v_security = Some (''crt'', ''key''), v_realm = Some ''users''\<rparr>,
        \<lparr>v_hostname = ''127.0.0.1'', v_port = 3682, v_security = None, v_realm = None\<rparr>]) \<and>
   (\<exists>h'. config_load_file (sample_json (sample_document 40000)) ''disqueue.json'' blank = Some (0, h'))"
proof -
  have sp: "space (document_size (sample_json (sample_document p)) ''disqueue.json'') blank" for p
    by (simp add: space_def granted_def document_size_def sample_json_def sample_document_def alloc_limit_def)
  have ty: "well_typed (sample_json (sample_document p)) ''disqueue.json''" for p
    by (simp add: well_typed_def sample_json_def sample_document_def)
  have d: "described (sample_json (sample_document 3682)) ''disqueue.json'' =
    Some [\<lparr>v_hostname = ''127.0.0.1'', v_port = 3682, v_security = None, v_realm = None\<rparr>,
        \<lparr>v_hostname = ''10.0.0.1'', v_port = 443, v_security = Some (''crt'', ''key''), v_realm = Some ''users''\<rparr>]"
    "described (sample_json (sample_document 40000)) ''disqueue.json'' = None"
    by code_simp+
  have u: "unconfigured blank" by (simp add: unconfigured_def)
  show ?thesis
    using config_load_spec [OF u sp ty, of 3682] config_load_spec [OF u sp ty, of 40000] by (simp add: d)
qed

end
