(* ===== verification/Command_Line.thy ===== *)
theory Command_Line
  imports Getopt Config_Spec
begin

text \<open>
  The command line of \<open>src/main.c\<close>: the loop over \<open>getopt\<close>, which is not known to end before it is
  proved, and what is done with the options.  The messages that are printed are not modelled.
\<close>

section \<open>The options\<close>

definition options :: cstring where
  "options = ''c:h''"

partial_function (option) option_loop ::
  "cstring list \<Rightarrow> cstring option \<Rightarrow> int \<Rightarrow> getopt_state \<Rightarrow> (cstring option \<times> int \<times> getopt_state) option" where
  "option_loop argv config_file show_help s = do {
     (c, s) \<leftarrow> getopt argv options s;
     if c = -1 then Some (config_file, show_help, s)
     else if c = char_code (CHR ''c'') then option_loop argv (opt_arg s) show_help s
     else if c = char_code (CHR ''h'') then option_loop argv config_file 1 s
     else if c = char_code (CHR ''?'') then option_loop argv config_file 1 s
     else option_loop argv config_file show_help s }"

definition EINVAL :: int where "EINVAL = 22"

definition command_line ::
  "'v config_json \<Rightarrow> cstring list \<Rightarrow> getopt_state \<Rightarrow> ('j, 'w, 'v, 'z) config \<Rightarrow>
   (int \<times> getopt_state \<times> ('j, 'w, 'v, 'z) config) option" where
  "command_line C argv s h = do {
     (config_file, show_help, s) \<leftarrow> option_loop argv None 0 s;
     if show_help \<noteq> 0 then Some (0, s, h)
     else (case config_file of
         None \<Rightarrow> Some (-1, s, h)
       | Some fl \<Rightarrow> do {
           (r, h) \<leftarrow> config_load_file C fl h;
           if r = 0 then Some (EINVAL, s, h) else Some (-1, s, h) }) }"

section \<open>The reference\<close>

text \<open>
  What the arguments mean: \<open>parse file shown cs args\<close> has read the file name \<open>file\<close> and decided \<open>shown\<close>; the
  letters \<open>cs\<close> of the current argument and the arguments \<open>args\<close> are still to be read.
\<close>

function parse :: "cstring option \<Rightarrow> bool \<Rightarrow> cstring \<Rightarrow> cstring list \<Rightarrow> cstring option \<times> bool" where
  "parse fl shown [] [] = (fl, shown)"
| "parse fl shown [] (a # args) =
     (if take 1 a = ''-'' \<and> a \<noteq> ''-'' \<and> a \<noteq> ''--'' then parse fl shown (tl a) args else (fl, shown))"
| "parse fl shown (c # cs) args =
     (if c = CHR ''h'' then parse fl True cs args
      else if c \<noteq> CHR ''c'' then parse fl True cs args
      else if cs \<noteq> [] then parse (Some cs) shown [] args
      else (case args of [] \<Rightarrow> (fl, True) | a # args \<Rightarrow> parse (Some a) shown [] args))"
  by pat_completeness auto
termination
  by (relation "measures [\<lambda>(fl, shown, cs, args). length args, \<lambda>(fl, shown, cs, args). length cs]") auto

text \<open>The state of the scanner between two letters: \<open>cs\<close> and \<open>args\<close> are what it has not read.\<close>

definition unread :: "cstring list \<Rightarrow> cstring \<Rightarrow> cstring list \<Rightarrow> getopt_state \<Rightarrow> bool" where
  "unread argv cs args s \<longleftrightarrow> opt_reset s = 0 \<and> place s = cs \<and>
     (let n = (if cs = [] then opt_ind s else Suc (opt_ind s)) in n \<le> length argv \<and> args = drop n argv)"

lemma unread_end: "unread argv [] [] s \<Longrightarrow> \<exists>s'. getopt argv options s = Some (-1, s')"
  by (simp add: unread_def getopt_def Let_def)

lemma drop_nth: "drop n xs = a # args \<Longrightarrow> n < length xs \<and> xs ! n = a \<and> drop (Suc n) xs = args"
  by (metis Cons_nth_drop_Suc drop_all leI list.distinct(1) list.inject)

lemma unread_argument:
  assumes "unread argv [] (a # args) s"
  shows "if take 1 a = ''-'' \<and> a \<noteq> ''-'' \<and> a \<noteq> ''--''
    then \<exists>s'. unread argv (tl a) args s' \<and> getopt argv options s = getopt argv options s'
    else \<exists>s'. getopt argv options s = Some (-1, s')"
proof -
  from assms have s: "opt_reset s = 0" "place s = []" "drop (opt_ind s) argv = a # args" by (simp_all add: unread_def Let_def)
  from drop_nth [OF s(3)] have n: "opt_ind s < length argv" "argv ! opt_ind s = a" "drop (Suc (opt_ind s)) argv = args" by auto
  have g: "getopt argv options s = (let s = s\<lparr>opt_reset := 0\<rparr> in case a of
             [] \<Rightarrow> Some (-1, s\<lparr>place := []\<rparr>)
           | d # rest \<Rightarrow>
               if d \<noteq> CHR ''-'' then Some (-1, s\<lparr>place := []\<rparr>)
               else (case rest of
                   [] \<Rightarrow> Some (-1, s\<lparr>opt_opt := 0, place := []\<rparr>)
                 | c # rest \<Rightarrow>
                     if c = CHR ''-'' \<and> rest = []
                     then Some (-1, s\<lparr>opt_opt := char_code c, opt_ind := Suc (opt_ind s), place := []\<rparr>)
                     else Some (getopt_letter argv options c (s\<lparr>place := rest\<rparr>))))"
    using s n by (simp add: getopt_def strchr_def options_def Let_def split: list.split)
  show ?thesis
  proof (cases "take 1 a = ''-'' \<and> a \<noteq> ''-'' \<and> a \<noteq> ''--''")
    case True
    then obtain c rest where a: "a = CHR ''-'' # c # rest" "\<not> (c = CHR ''-'' \<and> rest = [])"
      by (cases a; cases "tl a") auto
    let ?s = "s\<lparr>place := c # rest\<rparr>"
    have r: "s\<lparr>opt_reset := 0\<rparr> = s" using s(1) by (cases s) simp
    have "getopt argv options s = getopt argv options ?s"
      unfolding g Let_def r using a s(1) by (auto simp: getopt_def)
    moreover have "unread argv (tl a) args ?s" using a s n by (simp add: unread_def)
    ultimately show ?thesis using True by auto
  next
    case False
    then show ?thesis by (auto simp: g Let_def split: list.splits)
  qed
qed

lemma options_letters: "strchr options c = (if c = CHR ''c'' then Some ''c:h'' else if c = CHR '':'' then Some '':h''
    else if c = CHR ''h'' then Some ''h'' else None)"
  by (simp add: strchr_def options_def)

lemma letter_codes [simp]: "char_code (CHR ''c'') = 99" "char_code (CHR ''h'') = 104" "char_code (CHR ''?'') = 63" "BADCH = 63"
  by code_simp+

lemma getopt_next:
  "unread argv (c # cs) args s \<Longrightarrow> getopt argv options s = Some (getopt_letter argv options c (s\<lparr>place := cs\<rparr>))"
  by (simp add: unread_def getopt_def)

lemma unread_letter:
  assumes "unread argv (c # cs) args s"
  shows "if c = CHR ''h'' then \<exists>s'. getopt argv options s = Some (104, s') \<and> unread argv cs args s'
    else if c \<noteq> CHR ''c'' then \<exists>s'. getopt argv options s = Some (63, s') \<and> unread argv cs args s'
    else if cs \<noteq> [] then \<exists>s'. getopt argv options s = Some (99, s') \<and> opt_arg s' = Some cs \<and> unread argv [] args s'
    else (case args of
        [] \<Rightarrow> \<exists>s'. getopt argv options s = Some (63, s') \<and> unread argv [] [] s'
      | a # args' \<Rightarrow> \<exists>s'. getopt argv options s = Some (99, s') \<and> opt_arg s' = Some a \<and> unread argv [] args' s')"
proof -
  from assms have s: "opt_reset s = 0" "place s = c # cs" "Suc (opt_ind s) \<le> length argv" "args = drop (Suc (opt_ind s)) argv"
    by (simp_all add: unread_def)
  note g = getopt_next [OF assms]
  consider "c = CHR ''h''" | "c \<noteq> CHR ''h''" "c \<noteq> CHR ''c''" | "c = CHR ''c''" "cs \<noteq> []" | "c = CHR ''c''" "cs = []" by blast
  then show ?thesis
  proof cases
    case 1
    then show ?thesis
      using g s by (cases "cs = []") (simp_all add: getopt_letter_def options_letters unread_def Let_def)
  next
    case 2
    then show ?thesis
      using g s by (cases "cs = []") (simp_all add: getopt_letter_def options_letters unread_def Let_def)
  next
    case 3
    then show ?thesis
      using g s by (simp add: getopt_letter_def options_letters unread_def)
  next
    case 4
    show ?thesis
    proof (cases args)
      case Nil
      then show ?thesis
        using g s 4 by (simp add: getopt_letter_def options_letters unread_def, simp add: options_def)
    next
      case (Cons a args')
      with s(4) have "drop (Suc (opt_ind s)) argv = a # args'" by simp
      from drop_nth [OF this] show ?thesis
        using g s(1-3) 4 Cons by (simp add: getopt_letter_def options_letters unread_def)
    qed
  qed
qed

lemma option_loop_parse:
  "unread argv cs args s \<Longrightarrow> (shown \<longleftrightarrow> n \<noteq> 0) \<Longrightarrow>
   \<exists>n' s'. option_loop argv fl n s = Some (fst (parse fl shown cs args), n', s') \<and> (n' \<noteq> 0 \<longleftrightarrow> snd (parse fl shown cs args))"
proof (induction fl shown cs args arbitrary: n s rule: parse.induct)
  case (1 fl shown)
  with unread_end [OF 1(1)] show ?case by (subst option_loop.simps) auto
next
  case (2 fl shown a args)
  note u = unread_argument [OF 2(2)]
  show ?case
  proof (cases "take 1 a = ''-'' \<and> a \<noteq> ''-'' \<and> a \<noteq> ''--''")
    case True
    with u obtain s' where s': "unread argv (tl a) args s'" "getopt argv options s = getopt argv options s'" by auto
    have "option_loop argv fl n s = option_loop argv fl n s'"
      by (subst (1 2) option_loop.simps) (simp add: s'(2))
    with 2(1) [OF True s'(1) 2(3)] True show ?thesis by simp
  next
    case False
    with u obtain s' where "getopt argv options s = Some (-1, s')" by auto
    with False 2(3) show ?thesis by (subst option_loop.simps) auto
  qed
next
  case (3 fl shown c cs args)
  note u = unread_letter [OF 3(5)]
  consider "c = CHR ''h''" | "c \<noteq> CHR ''h''" "c \<noteq> CHR ''c''" | "c = CHR ''c''" "cs \<noteq> []" | "c = CHR ''c''" "cs = []" by blast
  then show ?case
  proof cases
    case 1
    with u obtain s' where s': "getopt argv options s = Some (104, s')" "unread argv cs args s'" by auto
    have "option_loop argv fl n s = option_loop argv fl 1 s'"
      by (subst option_loop.simps) (simp add: s'(1))
    with 3(1) [OF 1 s'(2), of 1] 1 show ?thesis by simp
  next
    case 2
    with u obtain s' where s': "getopt argv options s = Some (63, s')" "unread argv cs args s'" by auto
    have "option_loop argv fl n s = option_loop argv fl 1 s'"
      by (subst option_loop.simps) (simp add: s'(1))
    with 3(2) [OF 2 s'(2), of 1] 2 show ?thesis by simp
  next
    case c: 3
    with u obtain s' where s': "getopt argv options s = Some (99, s')" "opt_arg s' = Some cs" "unread argv [] args s'" by auto
    have "option_loop argv fl n s = option_loop argv (Some cs) n s'"
      by (subst option_loop.simps) (simp add: s'(1,2))
    with 3(3) [OF _ _ c(2) s'(3) 3(6)] c show ?thesis by simp
  next
    case c: 4
    show ?thesis
    proof (cases args)
      case Nil
      with u c obtain s' where s': "getopt argv options s = Some (63, s')" "unread argv [] [] s'" by auto
      from unread_end [OF s'(2)] obtain s'' where s'': "getopt argv options s' = Some (-1, s'')" by auto
      have "option_loop argv fl n s = option_loop argv fl 1 s'"
        by (subst option_loop.simps) (simp add: s'(1))
      also have "\<dots> = Some (fl, 1, s'')" by (subst option_loop.simps) (simp add: s'')
      finally show ?thesis using c Nil by simp
    next
      case (Cons a args')
      with u c obtain s' where s': "getopt argv options s = Some (99, s')" "opt_arg s' = Some a" "unread argv [] args' s'" by auto
      have "option_loop argv fl n s = option_loop argv (Some a) n s'"
        by (subst option_loop.simps) (simp add: s'(1,2))
      with 3(4) [OF _ _ _ Cons s'(3) 3(6)] c Cons show ?thesis by simp
    qed
  qed
qed

lemma parse_command:
  assumes "argv \<noteq> []"
  shows "\<exists>s. command_line C argv getopt_init h =
    (case parse None False [] (tl argv) of
       (_, True) \<Rightarrow> Some (0, s, h)
     | (None, False) \<Rightarrow> Some (-1, s, h)
     | (Some fl, False) \<Rightarrow> do { (r, h) \<leftarrow> config_load_file C fl h; Some (if r = 0 then EINVAL else -1, s, h) })"
proof -
  have "unread argv [] (tl argv) getopt_init"
    using assms by (cases argv) (simp_all add: unread_def getopt_init_def)
  from option_loop_parse [OF this, of False 0 None] obtain n s where
    o: "option_loop argv None 0 getopt_init = Some (fst (parse None False [] (tl argv)), n, s)"
      "n \<noteq> 0 \<longleftrightarrow> snd (parse None False [] (tl argv))" by auto
  obtain fl shown where p: "parse None False [] (tl argv) = (fl, shown)" by force
  have e: "(if r = 0 then Some (EINVAL, s, h) else Some (-1, s, h)) = Some (if r = 0 then EINVAL else -1, s, h)" for r :: int and h :: "('j, 'w, 'v, 'z) config"
    by simp
  show ?thesis
    using o p by (intro exI [of _ s]) (auto simp: command_line_def e split: option.split bool.split)
qed

section \<open>Properties\<close>

text \<open>
  C25: the command line.  With a program name in front, the loop over \<open>getopt\<close> ends, and \<open>command_line\<close> does
  what the reference \<open>parse\<close> says of the arguments: shown (asked for, or after a letter that is not
  known or has no argument) ends the program with 0; without a file the program continues with no
  configuration; otherwise the file is loaded, and the program continues exactly when that succeeds.
\<close>

theorem command_line_parse:
  assumes "argv \<noteq> []"
  shows "\<exists>s. command_line C argv getopt_init h =
    (case parse None False [] (tl argv) of
       (_, True) \<Rightarrow> Some (0, s, h)
     | (None, False) \<Rightarrow> Some (-1, s, h)
     | (Some fl, False) \<Rightarrow> do { (r, h) \<leftarrow> config_load_file C fl h; Some (if r = 0 then EINVAL else -1, s, h) })"
  by (rule parse_command [OF assms])

theorem command_line_parse_witness:
  "(\<exists>s. command_line (sample_json (sample_document 1)) [''disqueue'', ''-hc'', ''x''] getopt_init blank = Some (0, s, blank)) \<and>
   (\<exists>s. command_line (sample_json (sample_document 1)) [''disqueue'', ''x'', ''-h''] getopt_init blank = Some (-1, s, blank)) \<and>
   (\<exists>s. command_line (sample_json (sample_document 1)) [''disqueue'', ''-c'', ''missing''] getopt_init blank =
     Some (EINVAL, s, blank\<lparr>cfg_object := None\<rparr>))"
proof -
  have "config_load_file (sample_json (sample_document 1)) ''missing'' blank = Some (0, blank\<lparr>cfg_object := None\<rparr>)"
    by (simp add: config_load_file_def sample_json_def)
  then show ?thesis
    using command_line_parse [of "[''disqueue'', ''-hc'', ''x'']" "sample_json (sample_document 1)" blank]
      command_line_parse [of "[''disqueue'', ''x'', ''-h'']" "sample_json (sample_document 1)" blank]
      command_line_parse [of "[''disqueue'', ''-c'', ''missing'']" "sample_json (sample_document 1)" blank]
    by simp
qed

end
