(* ===== verification/Ssl.thy ===== *)
theory Ssl
  imports Config_Spec
begin

text \<open>
  The TLS context of \<open>src/ssl.c\<close> and \<open>src/ssl-internal.h\<close>.  The memory is extended by the global
  \<open>ssl_global_context_\<close> and by the state \<open>'t\<close> of the machine the server runs on: OpenSSL, the sockets and
  the event loop.  What the code calls of OpenSSL is the record \<open>tls\<close>; a call is undefined (\<open>None\<close>) when
  OpenSSL leaves it undefined, for instance on a context that was freed.
\<close>

section \<open>Structures\<close>

record ('j, 'w, 'v, 't) ssl_mem = "('j, 'w, 'v) config_mem" +
  ssl_initialised :: int
  keypair_loaded :: int
  ssl_ctx :: "addr option"
  machine :: 't
  bevcb_set :: "addr list"

type_synonym ('j, 'w, 'v, 't, 'z) ssl = "('j, 'w, 'v, 't, 'z) ssl_mem_scheme"

record 't tls =
  SSL_CTX_new :: "'t \<Rightarrow> addr option \<times> 't"
  SSL_CTX_free :: "addr option \<Rightarrow> 't \<Rightarrow> 't option"
  SSL_CTX_use_certificate_file :: "addr option \<Rightarrow> cstring option \<Rightarrow> 't \<Rightarrow> (int \<times> 't) option"
  SSL_CTX_use_PrivateKey_file :: "addr option \<Rightarrow> cstring option \<Rightarrow> 't \<Rightarrow> (int \<times> 't) option"
  SSL_new :: "addr option \<Rightarrow> 't \<Rightarrow> (addr option \<times> 't) option"
  bufferevent_openssl_socket_new :: "addr \<Rightarrow> addr \<Rightarrow> 't \<Rightarrow> (addr option \<times> 't) option"

section \<open>The context\<close>

definition ssl_setup :: "'t tls \<Rightarrow> ('j, 'w, 'v, 't, 'z) ssl \<Rightarrow> int \<times> ('j, 'w, 'v, 't, 'z) ssl" where
  "ssl_setup T h =
     (if ssl_initialised h \<noteq> 0 then (1, h)
      else (let (ctx, m) = SSL_CTX_new T (machine h);
                h = h\<lparr>ssl_ctx := ctx, machine := m\<rparr>
            in if ctx = None then (0, h) else (1, h\<lparr>ssl_initialised := 1, keypair_loaded := 0\<rparr>)))"

definition ssl_destroy :: "'t tls \<Rightarrow> ('j, 'w, 'v, 't, 'z) ssl \<Rightarrow> ('j, 'w, 'v, 't, 'z) ssl option" where
  "ssl_destroy T h =
     (if ssl_initialised h \<noteq> 0 then do {
        m \<leftarrow> SSL_CTX_free T (ssl_ctx h) (machine h);
        Some (h\<lparr>ssl_initialised := 0, keypair_loaded := 0, machine := m\<rparr>) }
      else Some h)"

definition ssl_load_certificate ::
  "'t tls \<Rightarrow> cstring option \<Rightarrow> ('j, 'w, 'v, 't, 'z) ssl \<Rightarrow> (int \<times> ('j, 'w, 'v, 't, 'z) ssl) option" where
  "ssl_load_certificate T filename h =
     (if keypair_loaded h \<noteq> 0 then Some (1, h)
      else do {
        (r, m) \<leftarrow> SSL_CTX_use_certificate_file T (ssl_ctx h) filename (machine h);
        let h = h\<lparr>machine := m\<rparr>;
        if r \<le> 0 then Some (0, h) else Some (1, h\<lparr>keypair_loaded := keypair_loaded h + 1\<rparr>) })"

definition ssl_load_privatekey ::
  "'t tls \<Rightarrow> cstring option \<Rightarrow> ('j, 'w, 'v, 't, 'z) ssl \<Rightarrow> (int \<times> ('j, 'w, 'v, 't, 'z) ssl) option" where
  "ssl_load_privatekey T filename h =
     (if keypair_loaded h = 2 then Some (1, h)
      else do {
        (r, m) \<leftarrow> SSL_CTX_use_PrivateKey_file T (ssl_ctx h) filename (machine h);
        let h = h\<lparr>machine := m\<rparr>;
        if r \<le> 0 then Some (0, h) else Some (1, h\<lparr>keypair_loaded := keypair_loaded h + 1\<rparr>) })"

definition ssl_use :: "addr \<Rightarrow> ('j, 'w, 'v, 't, 'z) ssl \<Rightarrow> ('j, 'w, 'v, 't, 'z) ssl" where
  "ssl_use http h = h\<lparr>bevcb_set := bevcb_set h @ [http]\<rparr>"

section \<open>Connections\<close>

definition ssl_create_connection ::
  "'t tls \<Rightarrow> ('j, 'w, 'v, 't, 'z) ssl \<Rightarrow> (addr option \<times> ('j, 'w, 'v, 't, 'z) ssl) option" where
  "ssl_create_connection T h =
     (if ssl_initialised h = 0 \<or> keypair_loaded h < 2 then Some (None, h)
      else do { (ssl, m) \<leftarrow> SSL_new T (ssl_ctx h) (machine h); Some (ssl, h\<lparr>machine := m\<rparr>) })"

definition ssl_create_bufferevent ::
  "'t tls \<Rightarrow> addr \<Rightarrow> ('j, 'w, 'v, 't, 'z) ssl \<Rightarrow> (addr option \<times> ('j, 'w, 'v, 't, 'z) ssl) option" where
  "ssl_create_bufferevent T base h = do {
     (ssl, h) \<leftarrow> ssl_create_connection T h;
     case ssl of
       None \<Rightarrow> Some (None, h)
     | Some ssl \<Rightarrow> do { (bev, m) \<leftarrow> bufferevent_openssl_socket_new T base ssl (machine h); Some (bev, h\<lparr>machine := m\<rparr>) } }"

end
