(* ===== verification/Disqueue.thy ===== *)
theory Disqueue
  imports Command_Line Ssl
begin

text \<open>
  The program: \<open>create_server\<close> and \<open>main\<close> of \<open>src/main.c\<close>, and the event loop that runs the handlers of the
  other theories.  The library functions \<open>main.c\<close> calls are the record \<open>host\<close>.  What arrives from the
  network while \<open>event_base_dispatch\<close> runs is given by it as a list of events; the callback each event
  runs is the one the program registered.
\<close>

section \<open>The host\<close>

text \<open>
  An HTTP request on a path of a server, an accepted connection on a server, a websocket upgrade on a
  path a websocket server bound, data on a websocket connection, and its end.
\<close>

datatype event =
    Http_request addr cstring http_request
  | Http_accept addr
  | Ws_upgrade addr upgrade_request
  | Ws_read addr
  | Ws_event "16 word" addr

record 't host =
  tls_lib :: "'t tls"
  event_base_new :: "'t \<Rightarrow> addr option \<times> 't"
  event_base_run :: "addr \<Rightarrow> 't \<Rightarrow> event list \<times> int \<times> 't"
  evhttp_new :: "addr \<Rightarrow> 't \<Rightarrow> addr option \<times> 't"
  evhttp_bind_socket :: "addr \<Rightarrow> cstring option \<Rightarrow> 16 word \<Rightarrow> 't \<Rightarrow> int \<times> 't"
  evhttp_free :: "addr \<Rightarrow> 't \<Rightarrow> 't option"

definition on_machine :: "('t \<Rightarrow> 'a \<times> 't) \<Rightarrow> ('j, 'w, 'v, 't, 'z) ssl \<Rightarrow> 'a \<times> ('j, 'w, 'v, 't, 'z) ssl" where
  "on_machine f h = (let (r, m) = f (machine h) in (r, h\<lparr>machine := m\<rparr>))"

section \<open>A server\<close>

text \<open>
  \<open>manager_add_server\<close> calls functions of \<open>src/ws.c\<close>, which \<open>ev_calls\<close> logs; here they are run, with the
  callbacks \<open>src/manager.c\<close> gives them.
\<close>

fun linked_call :: "ev_call \<Rightarrow> ('j, 'w, 'z) ws \<Rightarrow> ('j, 'w, 'z) ws option" where
  "linked_call (Evws_set_upgrade_cb w p) h = evws_set_upgrade_cb w (Some FN_ws_authenticated) p h"
| "linked_call (Evws_bind_path w path) h = evws_bind_path w path h"
| "linked_call (Evws_unbind_path w path) h = evws_unbind_path w path h"
| "linked_call (Evws_set_cb w) h = evws_set_cb w (Some FN_ws_wait) None h"
| "linked_call (Evws_set_close_cb w) h = evws_set_close_cb w (Some FN_ws_close) None h"
| "linked_call (Evws_set_error_cb w) h = evws_set_error_cb w (Some FN_ws_error) None h"
| "linked_call (Evhttp_set_cb s path r) h = Some h"
| "linked_call (Evhttp_del_cb s path) h = Some h"

fun linked_calls :: "ev_call list \<Rightarrow> ('j, 'w, 'z) ws \<Rightarrow> ('j, 'w, 'z) ws option" where
  "linked_calls [] h = Some h"
| "linked_calls (c # cs) h = do { h \<leftarrow> linked_call c h; linked_calls cs h }"

definition add_server ::
  "addr \<Rightarrow> addr \<Rightarrow> addr option \<Rightarrow> cstring option \<Rightarrow> ('j, 'w, 'z) ws \<Rightarrow> (int \<times> ('j, 'w, 'z) ws) option" where
  "add_server http ws auth realm h = (let (r, h') = manager_add_server http ws auth realm h in do {
     h' \<leftarrow> linked_calls (drop (length (ev_calls h)) (ev_calls h')) h';
     Some (r, h') })"

text \<open>The label \<open>error\<close> of \<open>create_server\<close>.\<close>

definition create_error ::
  "'t host \<Rightarrow> 'w net \<Rightarrow> addr option \<Rightarrow> addr option \<Rightarrow> ('j, 'w, 'v, 't, 'z) ssl \<Rightarrow> (int \<times> ('j, 'w, 'v, 't, 'z) ssl) option" where
  "create_error H N http ws h = do {
     h \<leftarrow> ssl_destroy (tls_lib H) h;
     h \<leftarrow> (case http of None \<Rightarrow> Some h
         | Some http \<Rightarrow> do { m \<leftarrow> evhttp_free H http (machine h); Some (h\<lparr>machine := m\<rparr>) });
     h \<leftarrow> (case ws of None \<Rightarrow> Some h | Some ws \<Rightarrow> evws_free N conn_callback ws h);
     Some (0, h) }"

text \<open>The part of \<open>create_server\<close> for a server with a certificate; the result is 0 for the jump to \<open>error\<close>.\<close>

definition secure_server ::
  "'t host \<Rightarrow> addr \<Rightarrow> cstring option \<Rightarrow> cstring option \<Rightarrow> ('j, 'w, 'v, 't, 'z) ssl \<Rightarrow> (int \<times> ('j, 'w, 'v, 't, 'z) ssl) option" where
  "secure_server H http certificate privatekey h =
     (let (r, h) = ssl_setup (tls_lib H) h in
      if r = 0 then Some (0, h)
      else do {
        (r, h) \<leftarrow> ssl_load_certificate (tls_lib H) certificate h;
        if r = 0 then Some (0, h)
        else do {
          (r, h) \<leftarrow> ssl_load_privatekey (tls_lib H) privatekey h;
          if r = 0 then Some (0, h) else Some (1, ssl_use http h) } })"

text \<open>The rest of \<open>create_server\<close>: the authentication and the manager.\<close>

definition create_managed ::
  "'t host \<Rightarrow> 'w net \<Rightarrow> addr \<Rightarrow> addr \<Rightarrow> addr \<Rightarrow> ('j, 'w, 'v, 't, 'z) ssl \<Rightarrow> (int \<times> ('j, 'w, 'v, 't, 'z) ssl) option" where
  "create_managed H N http ws server h = do {
     auth \<leftarrow> config_server_get_authentication server h;
     realm \<leftarrow> config_server_get_realm server h;
     (r, h) \<leftarrow> add_server http ws auth (Some realm) h;
     if r = 0 then create_error H N (Some http) (Some ws) h else Some (1, h) }"

definition create_server ::
  "'t host \<Rightarrow> 'w net \<Rightarrow> addr \<Rightarrow> addr \<Rightarrow> ('j, 'w, 'v, 't, 'z) ssl \<Rightarrow> (int \<times> ('j, 'w, 'v, 't, 'z) ssl) option" where
  "create_server H N base server h =
     (case on_machine (evhttp_new H base) h of
        (None, h) \<Rightarrow> create_error H N None None h
      | (Some http, h) \<Rightarrow> do {
          hostname \<leftarrow> config_server_get_hostname server h;
          port \<leftarrow> config_server_get_port server h;
          let (r, h) = on_machine (evhttp_bind_socket H http hostname port) h;
          if r \<noteq> 0 then create_error H N (Some http) None h
          else (case evws_new http h of
              (None, h) \<Rightarrow> create_error H N (Some http) None h
            | (Some ws, h) \<Rightarrow> do {
                security \<leftarrow> config_server_has_security server h;
                (r, h) \<leftarrow> (if security then do {
                    certificate \<leftarrow> config_server_get_certificate server h;
                    privatekey \<leftarrow> config_server_get_privatekey server h;
                    secure_server H http certificate privatekey h }
                  else Some (1, h));
                if r = 0 then create_error H N (Some http) (Some ws) h
                else create_managed H N http ws server h }) })"

text \<open>The loop of \<open>main\<close> over the configured servers.\<close>

partial_function (option) create_servers ::
  "'t host \<Rightarrow> 'w net \<Rightarrow> addr \<Rightarrow> ('j, 'w, 'v, 't, 'z) ssl \<Rightarrow> (int \<times> ('j, 'w, 'v, 't, 'z) ssl) option" where
  "create_servers H N base h = (case config_iter_server_next h of
       (None, h) \<Rightarrow> Some (1, h)
     | (Some server, h) \<Rightarrow> do {
         (r, h) \<leftarrow> create_server H N base server h;
         if r = 0 then Some (0, h) else create_servers H N base h })"

section \<open>The event loop\<close>

text \<open>
  The callbacks registered with the HTTP servers after the logged calls: \<open>evhttp_set_cb\<close> refuses a path
  that has one.
\<close>

fun registered :: "ev_call list \<Rightarrow> (addr \<times> cstring \<Rightarrow> route option) \<Rightarrow> addr \<times> cstring \<Rightarrow> route option" where
  "registered [] m = m"
| "registered (Evhttp_set_cb s p r # cs) m = registered cs (if m (s, p) = None then m((s, p) \<mapsto> r) else m)"
| "registered (Evhttp_del_cb s p # cs) m = registered cs (m((s, p) := None))"
| "registered (_ # cs) m = registered cs m"

fun run_event ::
  "'t host \<Rightarrow> 'w net \<Rightarrow> 'j libs \<Rightarrow> addr \<Rightarrow> event \<Rightarrow> ('j, 'w, 'v, 't, 'z) ssl \<Rightarrow> ('j, 'w, 'v, 't, 'z) ssl option" where
  "run_event H N W base (Http_request http path rq) h = (case registered (ev_calls h) Map.empty (http, path) of
       None \<Rightarrow> Some h
     | Some r \<Rightarrow> do { (rq, params, h) \<leftarrow> call_route W (queue_callback_runner N W) r rq h; Some h })"
| "run_event H N W base (Http_accept http) h =
     (if http \<in> set (bevcb_set h) then do { (bev, h) \<leftarrow> ssl_create_bufferevent (tls_lib H) base h; Some h } else Some h)"
| "run_event H N W base (Ws_upgrade w rq) h = do {
     (rq, h) \<leftarrow> evws_upgrade_http_cb N (lib_ev W) conn_callback (upgrade_callback W) w rq h;
     Some h }"
| "run_event H N W base (Ws_read a) h = evws_connection_read_cb N conn_callback (data_callback N W) a h"
| "run_event H N W base (Ws_event events a) h = evws_connection_event_cb N conn_callback events a h"

fun run_events ::
  "'t host \<Rightarrow> 'w net \<Rightarrow> 'j libs \<Rightarrow> addr \<Rightarrow> event list \<Rightarrow> ('j, 'w, 'v, 't, 'z) ssl \<Rightarrow> ('j, 'w, 'v, 't, 'z) ssl option" where
  "run_events H N W base [] h = Some h"
| "run_events H N W base (e # es) h = do { h \<leftarrow> run_event H N W base e h; run_events H N W base es h }"

definition event_base_dispatch ::
  "'t host \<Rightarrow> 'w net \<Rightarrow> 'j libs \<Rightarrow> addr \<Rightarrow> ('j, 'w, 'v, 't, 'z) ssl \<Rightarrow> (int \<times> ('j, 'w, 'v, 't, 'z) ssl) option" where
  "event_base_dispatch H N W base h = (let (es, r, m) = event_base_run H base (machine h) in do {
     h \<leftarrow> run_events H N W base es (h\<lparr>machine := m\<rparr>);
     Some (r, h) })"

section \<open>The program\<close>

text \<open>\<open>main\<close> from the start of the manager on.\<close>

definition main_serve ::
  "'t host \<Rightarrow> 'w net \<Rightarrow> 'j libs \<Rightarrow> addr \<Rightarrow> ('j, 'w, 'v, 't, 'z) ssl \<Rightarrow> (int \<times> ('j, 'w, 'v, 't, 'z) ssl) option" where
  "main_serve H N W base h = do {
     (r, h) \<leftarrow> create_servers H N base (manager_startup h);
     if r = 0 then Some (1, h)
     else do {
       (r, h) \<leftarrow> event_base_dispatch H N W base h;
       if r = -1 then Some (1, h)
       else do { h \<leftarrow> manager_shutdown h; Some (0, h) } } }"

text \<open>\<open>main\<close> once the command line is read.\<close>

definition main_start ::
  "'t host \<Rightarrow> 'w net \<Rightarrow> 'j libs \<Rightarrow> ('j, 'w, 'v, 't, 'z) ssl \<Rightarrow> (int \<times> ('j, 'w, 'v, 't, 'z) ssl) option" where
  "main_start H N W h = (let (r, h) = config_iter_server_begin h in
     if r = 0 then Some (1, h)
     else (case on_machine (event_base_new H) h of
         (None, h) \<Rightarrow> Some (1, h)
       | (Some base, h) \<Rightarrow> main_serve H N W base h))"

definition main ::
  "'v config_json \<Rightarrow> 't host \<Rightarrow> 'w net \<Rightarrow> 'j libs \<Rightarrow> cstring list \<Rightarrow> ('j, 'w, 'v, 't, 'z) ssl \<Rightarrow>
   (int \<times> ('j, 'w, 'v, 't, 'z) ssl) option" where
  "main C H N W argv h = do {
     (c, s, h) \<leftarrow> command_line C argv getopt_init h;
     if c \<noteq> -1 then Some (c, h) else main_start H N W h }"

end
