(* ===== verification/Start_Correct.thy ===== *)
theory Start_Correct
  imports Disqueue
begin

text \<open>
  Starting the configured servers, on a host that grants what it is asked for: \<open>create_server\<close> registers
  a server with its routes and callbacks, and the TLS context is set up once.
\<close>

section \<open>The host\<close>

text \<open>
  \<open>live c m\<close>: on the machine \<open>m\<close>, \<open>c\<close> is an \<open>SSL_CTX\<close> that was not freed.  A willing host opens servers and
  sockets, and accepts certificates and keys on a live context.
\<close>

definition willing :: "'t host \<Rightarrow> (addr \<Rightarrow> 't \<Rightarrow> bool) \<Rightarrow> bool" where
  "willing H live \<longleftrightarrow>
     (\<forall>base m. \<exists>a m'. evhttp_new H base m = (Some a, m') \<and> (\<forall>c. live c m \<longrightarrow> live c m')) \<and>
     (\<forall>http name port m. \<exists>m'. evhttp_bind_socket H http name port m = (0, m') \<and> (\<forall>c. live c m \<longrightarrow> live c m')) \<and>
     (\<forall>m. \<exists>c m'. SSL_CTX_new (tls_lib H) m = (Some c, m') \<and> live c m') \<and>
     (\<forall>c fl m. live c m \<longrightarrow> (\<exists>r m'. SSL_CTX_use_certificate_file (tls_lib H) (Some c) fl m = Some (r, m') \<and> 0 < r \<and> live c m')) \<and>
     (\<forall>c fl m. live c m \<longrightarrow> (\<exists>r m'. SSL_CTX_use_PrivateKey_file (tls_lib H) (Some c) fl m = Some (r, m') \<and> 0 < r \<and> live c m'))"

lemma willingD:
  assumes "willing H live"
  shows "\<exists>a m'. evhttp_new H base m = (Some a, m') \<and> (\<forall>c. live c m \<longrightarrow> live c m')"
    and "\<exists>m'. evhttp_bind_socket H http name port m = (0, m') \<and> (\<forall>c. live c m \<longrightarrow> live c m')"
    and "\<exists>c m'. SSL_CTX_new (tls_lib H) m = (Some c, m') \<and> live c m'"
    and "live c m \<Longrightarrow> \<exists>r m'. SSL_CTX_use_certificate_file (tls_lib H) (Some c) fl m = Some (r, m') \<and> 0 < r \<and> live c m'"
    and "live c m \<Longrightarrow> \<exists>r m'. SSL_CTX_use_PrivateKey_file (tls_lib H) (Some c) fl m = Some (r, m') \<and> 0 < r \<and> live c m'"
  using assms unfolding willing_def by blast+

section \<open>The TLS context\<close>

text \<open>The context is not set up, or complete.\<close>

definition tls_fine :: "(addr \<Rightarrow> 't \<Rightarrow> bool) \<Rightarrow> ('j, 'w, 'v, 't, 'z) ssl \<Rightarrow> bool" where
  "tls_fine live h \<longleftrightarrow> ssl_initialised h = 0 \<or>
     (keypair_loaded h = 2 \<and> (\<exists>c. ssl_ctx h = Some c \<and> live c (machine h)))"

lemma secure_first:
  assumes "ssl_initialised h = 0" and n: "SSL_CTX_new (tls_lib H) (machine h) = (Some ctx, m1)"
    and c: "SSL_CTX_use_certificate_file (tls_lib H) (Some ctx) certificate m1 = Some (r1, m2)" "0 < r1"
    and k: "SSL_CTX_use_PrivateKey_file (tls_lib H) (Some ctx) privatekey m2 = Some (r2, m3)" "0 < r2"
  shows "secure_server H http certificate privatekey h = Some (1, h\<lparr>ssl_initialised := 1, keypair_loaded := 2,
     ssl_ctx := Some ctx, machine := m3, bevcb_set := bevcb_set h @ [http]\<rparr>)"
  using assms by (simp add: secure_server_def ssl_setup_def ssl_load_certificate_def ssl_load_privatekey_def ssl_use_def Let_def)

lemma secure_later:
  assumes "ssl_initialised h \<noteq> 0" and "keypair_loaded h = 2"
  shows "secure_server H http certificate privatekey h = Some (1, h\<lparr>bevcb_set := bevcb_set h @ [http]\<rparr>)"
  using assms by (simp add: secure_server_def ssl_setup_def ssl_load_certificate_def ssl_load_privatekey_def ssl_use_def)

lemma secure_ok:
  assumes W: "willing H live" and t: "tls_fine live h"
  shows "\<exists>i n ctx m bs. secure_server H http certificate privatekey h = Some (1, h\<lparr>ssl_initialised := i, keypair_loaded := n,
     ssl_ctx := ctx, machine := m, bevcb_set := bs\<rparr>) \<and>
     tls_fine live (h\<lparr>ssl_initialised := i, keypair_loaded := n, ssl_ctx := ctx, machine := m, bevcb_set := bs\<rparr>)"
proof (cases "ssl_initialised h = 0")
  case True
  obtain ctx m1 where n: "SSL_CTX_new (tls_lib H) (machine h) = (Some ctx, m1)" "live ctx m1"
    using willingD(3) [OF W] by blast
  obtain r1 m2 where c: "SSL_CTX_use_certificate_file (tls_lib H) (Some ctx) certificate m1 = Some (r1, m2)" "0 < r1" "live ctx m2"
    using willingD(4) [OF W n(2)] by blast
  obtain r2 m3 where k: "SSL_CTX_use_PrivateKey_file (tls_lib H) (Some ctx) privatekey m2 = Some (r2, m3)" "0 < r2" "live ctx m3"
    using willingD(5) [OF W c(3)] by blast
  show ?thesis
    by (intro exI conjI, rule secure_first [OF True n(1) c(1,2) k(1,2)]) (simp add: tls_fine_def k(3))
next
  case False
  with t have k: "keypair_loaded h = 2" by (simp add: tls_fine_def)
  let ?b = "bevcb_set h @ [http]"
  have e: "h\<lparr>bevcb_set := b\<rparr> = h\<lparr>ssl_initialised := ssl_initialised h, keypair_loaded := keypair_loaded h, ssl_ctx := ssl_ctx h,
      machine := machine h, bevcb_set := b\<rparr>" for b by simp
  have "tls_fine live (h\<lparr>bevcb_set := ?b\<rparr>)" using t by (simp add: tls_fine_def)
  then show ?thesis
    using secure_later [OF False k] unfolding e by blast
qed

section \<open>Registering a server\<close>

definition endpoints :: "(cstring \<times> endpoint) list" where
  "endpoints = [(''/queues'', Callback_queues), (''/queue'', Callback_queue), (''/take'', Callback_take),
     (''/peek'', Callback_peek), (''/put'', Callback_put)]"

text \<open>Parameters at \<open>p\<close> that ask for the authentication \<open>auth\<close>.\<close>

definition protects :: "'z manager_mem_scheme \<Rightarrow> addr \<Rightarrow> cstring \<Rightarrow> endpoint option \<Rightarrow> addr \<Rightarrow> bool" where
  "protects h auth realm cb p \<longleftrightarrow> p < next_addr h \<and> params_at h p = Some \<lparr>cp_auth = auth, cp_realm = realm, cp_cb = cb\<rparr>"

definition serves :: "('j, 'w, 'z) ws \<Rightarrow> addr \<times> cstring \<Rightarrow> manager_server \<Rightarrow> bool" where
  "serves h = (\<lambda>(auth, realm) M. s_ws M < next_addr h \<and>
     (\<exists>V p. evws_at h (s_ws M) = Some V \<and> ws_http V = s_http M \<and> ws_connections V = [] \<and>
        datacb V = Some FN_ws_wait \<and> closecb V = Some FN_ws_close \<and> errorcb V = Some FN_ws_error \<and>
        upgradecb V = Some FN_ws_authenticated \<and> upgradecbarg V = Some p \<and> protects h auth realm None p) \<and>
     (\<forall>(path, e) \<in> set endpoints. \<exists>p. Evhttp_set_cb (s_http M) path (Authenticated (Some p)) \<in> set (ev_calls h) \<and>
        protects h auth realm (Some e) p))"

text \<open>What starting servers leaves as it is.\<close>

definition grown :: "('j, 'w, 'v, 't, 'z) ssl \<Rightarrow> ('j, 'w, 'v, 't, 'z) ssl \<Rightarrow> bool" where
  "grown h h' \<longleftrightarrow> next_addr h \<le> next_addr h' \<and> alloc_ok h' = alloc_ok h \<and> set (ev_calls h) \<subseteq> set (ev_calls h') \<and>
     (\<forall>a < next_addr h. evws_at h' a = evws_at h a \<and> params_at h' a = params_at h a) \<and>
     cfg_servers h' = cfg_servers h \<and> cfg_authentications h' = cfg_authentications h \<and> server_at h' = server_at h \<and>
     authentication_at h' = authentication_at h \<and> auth_at h' = auth_at h \<and> server_frame h h'"

lemma grown_refl [simp]: "grown h h"
  by (simp add: grown_def server_frame_def)

lemma grown_trans: "grown h h1 \<Longrightarrow> grown h1 h2 \<Longrightarrow> grown h h2"
  by (auto simp: grown_def intro: server_frame_trans)

lemma serves_grown:
  assumes "serves h a M" and g: "grown h h'"
  shows "serves h' a M"
proof -
  have p: "protects h au r cb p \<Longrightarrow> protects h' au r cb p" for au r cb p
    using g by (auto simp: grown_def protects_def)
  obtain au r where a: "a = (au, r)" by force
  from assms(1) obtain V q where V: "s_ws M < next_addr h" "evws_at h (s_ws M) = Some V" "ws_http V = s_http M" "ws_connections V = []"
    "datacb V = Some FN_ws_wait" "closecb V = Some FN_ws_close" "errorcb V = Some FN_ws_error"
    "upgradecb V = Some FN_ws_authenticated" "upgradecbarg V = Some q" "protects h au r None q"
    by (auto simp: serves_def a)
  have "\<exists>x. Evhttp_set_cb (s_http M) path (Authenticated (Some x)) \<in> set (ev_calls h') \<and> protects h' au r (Some e) x"
    if "(path, e) \<in> set endpoints" for path e
  proof -
    from assms(1) that obtain x where "Evhttp_set_cb (s_http M) path (Authenticated (Some x)) \<in> set (ev_calls h)" "protects h au r (Some e) x"
      by (auto simp: serves_def a)
    with p g show ?thesis by (auto simp: grown_def)
  qed
  moreover have "evws_at h' (s_ws M) = Some V" "s_ws M < next_addr h'" using g V(1,2) by (simp_all add: grown_def)
  ultimately show ?thesis using V p by (auto simp: serves_def a)
qed

lemma set_authenticated_space:
  "space 1 h \<Longrightarrow> set_authenticated a realm srv path cb h = h\<lparr>alloc_count := Suc (alloc_count h), next_addr := Suc (next_addr h),
     params_at := (params_at h)(next_addr h \<mapsto> \<lparr>cp_auth = a, cp_realm = realm, cp_cb = Some cb\<rparr>),
     ev_calls := ev_calls h @ [Evhttp_set_cb srv path (Authenticated (Some (next_addr h)))]\<rparr>"
  using calloc_space [of 0 h] by (simp add: set_authenticated_def connection_http_auth_callback_def ev_log_def)

definition params_for :: "addr \<Rightarrow> cstring \<Rightarrow> endpoint option \<Rightarrow> connection_params" where
  "params_for a realm cb = \<lparr>cp_auth = a, cp_realm = realm, cp_cb = cb\<rparr>"

text \<open>The memory after \<open>manager_add_server\<close>, whose structure and parameters are at \<open>n\<close> to \<open>n + 6\<close>.\<close>

definition server_calls :: "addr \<Rightarrow> addr \<Rightarrow> addr \<Rightarrow> ev_call list" where
  "server_calls http w n =
     [Evhttp_set_cb http ''/queues'' (Authenticated (Some (n + 1))), Evhttp_set_cb http ''/queue'' (Authenticated (Some (n + 2))),
      Evhttp_set_cb http ''/take'' (Authenticated (Some (n + 3))), Evhttp_set_cb http ''/peek'' (Authenticated (Some (n + 4))),
      Evhttp_set_cb http ''/put'' (Authenticated (Some (n + 5))), Evws_set_upgrade_cb w (Some (n + 6)),
      Evws_bind_path w ''/take/ws'', Evws_set_cb w, Evws_set_close_cb w, Evws_set_error_cb w]"

definition server_params :: "addr \<Rightarrow> cstring \<Rightarrow> addr \<Rightarrow> addr \<Rightarrow> connection_params option" where
  "server_params a realm n = [n + 1 \<mapsto> params_for a realm (Some Callback_queues), n + 2 \<mapsto> params_for a realm (Some Callback_queue),
     n + 3 \<mapsto> params_for a realm (Some Callback_take), n + 4 \<mapsto> params_for a realm (Some Callback_peek),
     n + 5 \<mapsto> params_for a realm (Some Callback_put), n + 6 \<mapsto> params_for a realm None]"

lemma manager_add_server_space:
  fixes h :: "'z manager_mem_scheme"
  assumes "space 7 h"
  shows "manager_add_server http w (Some a) (Some realm) h = (1, h\<lparr>alloc_count := alloc_count h + 7, next_addr := next_addr h + 7,
     params_at := params_at h ++ server_params a realm (next_addr h),
     ctx_servers := \<lparr>s_http = http, s_ws = w\<rparr> # ctx_servers h,
     ev_calls := ev_calls h @ server_calls http w (next_addr h)\<rparr>)"
proof -
  have g: "alloc_ok h = (\<lambda>_. True)" "next_addr h + 7 \<le> alloc_limit"
    using assms by (simp_all add: space_def granted_def fun_eq_iff)
  define st where "st k P E = h\<lparr>alloc_count := alloc_count h + k, next_addr := next_addr h + k, params_at := P, ev_calls := E\<rparr>" for k P E
  have sp: "k \<le> 6 \<Longrightarrow> space 1 (st k P E)" for k P E
    using g by (simp add: space_def granted_def st_def)
  have c: "k \<le> 6 \<Longrightarrow> calloc (st k P E) = (Some (next_addr h + k), st (Suc k) P E)" for k P E
    using calloc_space [of 0 "st k P E"] sp by (simp add: st_def)
  have s: "k \<le> 5 \<Longrightarrow> set_authenticated a realm http path cb (st k P E) =
     st (Suc k) (P(next_addr h + k \<mapsto> params_for a realm (Some cb))) (E @ [Evhttp_set_cb http path (Authenticated (Some (next_addr h + k)))])"
    for k P E path cb
    by (subst set_authenticated_space) (simp_all add: sp [simplified], simp add: st_def params_for_def)
  have u: "ev_log es (st k P E) = st k P (E @ es)" "(st k P E)\<lparr>params_at := P'\<rparr> = st k P' E" "params_at (st k P E) = P"
    "ctx_servers (st k P E) = ctx_servers h" for es k P P' E
    by (simp_all add: st_def ev_log_def)
  have h0: "calloc h = (Some (next_addr h), st 1 (params_at h) (ev_calls h))"
    using calloc_space [of 6 h] assms by (simp add: st_def)
  have "manager_add_server http w (Some a) (Some realm) h =
    (1, (st 7 (params_at h ++ server_params a realm (next_addr h)) (ev_calls h @ server_calls http w (next_addr h)))
       \<lparr>ctx_servers := \<lparr>s_http = http, s_ws = w\<rparr> # ctx_servers h\<rparr>)"
    unfolding manager_add_server_def connection_http_auth_callback_def
    by (simp add: h0 s c u Let_def server_calls_def server_params_def) (simp add: params_for_def eval_nat_numeral)
  then show ?thesis by (simp add: st_def)
qed

text \<open>The callbacks of its websocket server.\<close>

definition linked :: "addr \<Rightarrow> evws \<Rightarrow> evws" where
  "linked n V = V\<lparr>upgradecb := Some FN_ws_authenticated, upgradecbarg := Some (n + 6), datacb := Some FN_ws_wait,
     datacbarg := None, closecb := Some FN_ws_close, closecbarg := None, errorcb := Some FN_ws_error, errorcbarg := None\<rparr>"

definition server_mem_after :: "addr \<Rightarrow> addr \<Rightarrow> addr \<Rightarrow> cstring \<Rightarrow> evws \<Rightarrow> ('j, 'w, 'z) ws \<Rightarrow> ('j, 'w, 'z) ws" where
  "server_mem_after http w a realm V h = h\<lparr>alloc_count := alloc_count h + 7, next_addr := next_addr h + 7,
     params_at := params_at h ++ server_params a realm (next_addr h),
     ctx_servers := \<lparr>s_http = http, s_ws = w\<rparr> # ctx_servers h,
     ev_calls := ev_calls h @ server_calls http w (next_addr h),
     net_calls := net_calls h @ [Evhttp_set_upgrade_cb (ws_http V) ''/take/ws'' w],
     evws_at := (evws_at h)(w \<mapsto> linked (next_addr h) V)\<rparr>"

lemma add_server_space:
  assumes "space 7 h" and "evws_at h w = Some V"
  shows "add_server http w (Some a) (Some realm) h = Some (1, server_mem_after http w a realm V h)"
  using assms(2) unfolding add_server_def manager_add_server_space [OF assms(1)]
  by (simp add: server_calls_def evws_set_upgrade_cb_def evws_bind_path_def evws_set_cb_def evws_set_close_cb_def
      evws_set_error_cb_def net_log_def set_evws_def server_mem_after_def linked_def)

lemma server_params_at:
  assumes "1 \<le> k" "k \<le> 6"
  shows "server_params a realm n (n + k) = Some (params_for a realm
    (if k = 1 then Some Callback_queues else if k = 2 then Some Callback_queue else if k = 3 then Some Callback_take
     else if k = 4 then Some Callback_peek else if k = 5 then Some Callback_put else None))"
  using assms by (auto simp: server_params_def)

lemma server_params_old: "x \<le> n \<Longrightarrow> server_params a realm n x = None"
  by (auto simp: server_params_def)

lemma serves_after:
  assumes "w < next_addr h" and V: "ws_http V = http" "ws_connections V = []"
  shows "serves (server_mem_after http w a realm V h) (a, realm) \<lparr>s_http = http, s_ws = w\<rparr>"
proof -
  let ?h = "server_mem_after http w a realm V h" and ?n = "next_addr h"
  have p: "protects ?h a realm (if k = 1 then Some Callback_queues else if k = 2 then Some Callback_queue
     else if k = 3 then Some Callback_take else if k = 4 then Some Callback_peek else if k = 5 then Some Callback_put else None) (?n + k)"
    if "1 \<le> k" "k \<le> 6" for k
    using server_params_at [OF that, of a realm ?n] that by (simp add: protects_def server_mem_after_def params_for_def)
  have "\<exists>p. Evhttp_set_cb http path (Authenticated (Some p)) \<in> set (ev_calls ?h) \<and> protects ?h a realm (Some e) p"
    if pe: "(path, e) \<in> set endpoints" for path e
  proof -
    consider "path = ''/queues''" "e = Callback_queues" | "path = ''/queue''" "e = Callback_queue" | "path = ''/take''" "e = Callback_take"
      | "path = ''/peek''" "e = Callback_peek" | "path = ''/put''" "e = Callback_put"
      using pe by (auto simp: endpoints_def)
    then show ?thesis
    proof cases
      case 1 with p [of 1] show ?thesis by (intro exI [of _ "?n + 1"]) (simp add: server_mem_after_def server_calls_def)
    next
      case 2 with p [of 2] show ?thesis by (intro exI [of _ "?n + 2"]) (simp add: server_mem_after_def server_calls_def)
    next
      case 3 with p [of 3] show ?thesis by (intro exI [of _ "?n + 3"]) (simp add: server_mem_after_def server_calls_def)
    next
      case 4 with p [of 4] show ?thesis by (intro exI [of _ "?n + 4"]) (simp add: server_mem_after_def server_calls_def)
    next
      case 5 with p [of 5] show ?thesis by (intro exI [of _ "?n + 5"]) (simp add: server_mem_after_def server_calls_def)
    qed
  qed
  moreover have "protects ?h a realm None (?n + 6)" using p [of 6] by simp
  ultimately show ?thesis
    using assms by (auto simp: serves_def server_mem_after_def linked_def)
qed

text \<open>Every registered route asks for credentials that can be checked.\<close>

definition routed :: "('j, 'z) server \<Rightarrow> bool" where
  "routed h \<longleftrightarrow> (\<forall>s path r. Evhttp_set_cb s path r \<in> set (ev_calls h) \<longrightarrow>
     (\<exists>x P e A. r = Authenticated (Some x) \<and> x < next_addr h \<and> params_at h x = Some P \<and> cp_cb P = Some e \<and>
        auth_at h (cp_auth P) = Some A))"

lemma routed_after:
  assumes r: "routed h" and a: "auth_at h a = Some A"
  shows "routed (server_mem_after http w a realm V h)"
proof -
  let ?h = "server_mem_after http w a realm V h" and ?n = "next_addr h"
  have new: "\<exists>P e A. params_at ?h (?n + k) = Some P \<and> cp_cb P = Some e \<and> auth_at ?h (cp_auth P) = Some A" if "1 \<le> k" "k \<le> 5" for k
    using server_params_at [of k a realm ?n] that a by (auto simp: server_mem_after_def params_for_def)
  have old: "params_at ?h x = params_at h x" if "x < ?n" for x
    using that by (simp add: server_mem_after_def map_add_def server_params_old)
  show ?thesis
    unfolding routed_def
  proof (intro allI impI)
    fix s path r'
    assume "Evhttp_set_cb s path r' \<in> set (ev_calls ?h)"
    then consider "Evhttp_set_cb s path r' \<in> set (ev_calls h)"
      | k where "1 \<le> k" "k \<le> 5" "r' = Authenticated (Some (?n + k))"
      by (auto simp: server_mem_after_def server_calls_def)
    then show "\<exists>x P e A. r' = Authenticated (Some x) \<and> x < next_addr ?h \<and> params_at ?h x = Some P \<and> cp_cb P = Some e \<and> auth_at ?h (cp_auth P) = Some A"
    proof cases
      case 1
      with r obtain x P e A where x: "r' = Authenticated (Some x)" "x < ?n" "params_at h x = Some P" "cp_cb P = Some e"
        "auth_at h (cp_auth P) = Some A" unfolding routed_def by blast
      moreover have "x < next_addr ?h" "auth_at ?h = auth_at h" using x(2) by (simp_all add: server_mem_after_def)
      ultimately show ?thesis using old by auto
    next
      case 2
      moreover have "?n + k < next_addr ?h" using 2 by (simp add: server_mem_after_def)
      ultimately show ?thesis using new [of k] by blast
    qed
  qed
qed

lemma routed_cong:
  assumes r: "routed h" and "ev_calls h' = ev_calls h" and n: "next_addr h \<le> next_addr h'"
    and p: "\<forall>a < next_addr h. params_at h' a = params_at h a" and d: "dom (auth_at h) \<subseteq> dom (auth_at h')"
  shows "routed h'"
  unfolding routed_def assms(2)
proof (intro allI impI)
  fix s path rt
  assume "Evhttp_set_cb s path rt \<in> set (ev_calls h)"
  with r obtain x P e A where x: "rt = Authenticated (Some x)" "x < next_addr h" "params_at h x = Some P" "cp_cb P = Some e"
    "auth_at h (cp_auth P) = Some A" unfolding routed_def by blast
  then have "cp_auth P \<in> dom (auth_at h')" using d by auto
  then obtain B where "auth_at h' (cp_auth P) = Some B" by auto
  with x n p show "\<exists>x P e A. rt = Authenticated (Some x) \<and> x < next_addr h' \<and> params_at h' x = Some P \<and> cp_cb P = Some e \<and>
      auth_at h' (cp_auth P) = Some A" by auto
qed

section \<open>Creating a server\<close>

definition realm_of :: "('j, 'w, 'v, 'z) config \<Rightarrow> addr \<Rightarrow> (addr \<times> cstring) option" where
  "realm_of h s = map_option (\<lambda>a. let A = the (authentication_at h a) in (the (ca_auth A), ca_name A)) (cs_authentication (the (server_at h s)))"

definition fresh_evws :: "addr \<Rightarrow> evws" where
  "fresh_evws http = \<lparr>ws_http = http, ws_connections = [], datacb = None, datacbarg = None, opencb = None, opencbarg = None,
     errorcb = None, errorcbarg = None, closecb = None, closecbarg = None, upgradecb = None, upgradecbarg = None\<rparr>"

lemma evws_new_space: "space (Suc n) h \<Longrightarrow> evws_new http h = (Some (next_addr h),
    h\<lparr>alloc_count := Suc (alloc_count h), next_addr := Suc (next_addr h), evws_at := (evws_at h)(next_addr h \<mapsto> fresh_evws http)\<rparr>)"
  by (simp add: evws_new_def calloc_space set_evws_def fresh_evws_def)

text \<open>The memory when the websocket server exists and the TLS context is ready.\<close>

definition opened :: "addr \<Rightarrow> ('j, 'w, 'v, 't, 'z) ssl \<Rightarrow> ('j, 'w, 'v, 't, 'z) ssl \<Rightarrow> bool" where
  "opened http h h4 \<longleftrightarrow> grown h h4 \<and> next_addr h4 = Suc (next_addr h) \<and> evws_at h4 (next_addr h) = Some (fresh_evws http) \<and>
     ctx_servers h4 = ctx_servers h \<and> current_iter h4 = current_iter h \<and> ev_calls h4 = ev_calls h"

lemma create_opened:
  assumes W: "willing H live" and t: "tls_fine live h" and sp: "space 8 h" and s: "server_ok h s"
  shows "\<exists>http h4. opened http h h4 \<and> tls_fine live h4 \<and> create_server H N base s h = create_managed H N http (next_addr h) s h4"
proof -
  obtain S where S: "server_at h s = Some S" using s by (auto simp: server_ok_def)
  obtain http m1 where 1: "evhttp_new H base (machine h) = (Some http, m1)" "\<forall>c. live c (machine h) \<longrightarrow> live c m1"
    using willingD(1) [OF W] by blast
  obtain m2 where 2: "evhttp_bind_socket H http (cs_hostname S) (cs_port S) m1 = (0, m2)" "\<forall>c. live c m1 \<longrightarrow> live c m2"
    using willingD(2) [OF W] by blast
  let ?h2 = "h\<lparr>machine := m2\<rparr>"
  let ?h3 = "h\<lparr>machine := m2, alloc_count := Suc (alloc_count h), next_addr := Suc (next_addr h),
    evws_at := (evws_at h)(next_addr h \<mapsto> fresh_evws http)\<rparr>"
  have n: "evws_new http ?h2 = (Some (next_addr h), ?h3)"
    using evws_new_space [of 7 ?h2 http] sp by (simp add: space_def granted_def)
  have t3: "tls_fine live ?h3" using t 1(2) 2(2) by (auto simp: tls_fine_def)
  have o3: "opened http h (?h3\<lparr>ssl_initialised := i, keypair_loaded := j, ssl_ctx := c, machine := m, bevcb_set := b\<rparr>)" for i j c m b
    using sp by (simp add: opened_def grown_def server_frame_def space_def)
  have step: "create_server H N base s h = create_managed H N http (next_addr h) s h4"
    if "(if cs_certificate S \<noteq> None \<and> cs_privatekey S \<noteq> None
      then secure_server H http (cs_certificate S) (cs_privatekey S) ?h3 else Some (1, ?h3)) = Some (1, h4)" for h4
    using that 1(1) 2(1) n S
    by (auto simp: create_server_def on_machine_def config_server_get_hostname_def config_server_get_port_def
        config_server_has_security_def config_server_get_certificate_def config_server_get_privatekey_def Let_def)
  show ?thesis
  proof (cases "cs_certificate S \<noteq> None \<and> cs_privatekey S \<noteq> None")
    case True
    from secure_ok [OF W t3, of http "cs_certificate S" "cs_privatekey S"] obtain i j c m b where
      q: "secure_server H http (cs_certificate S) (cs_privatekey S) ?h3 = Some (1, ?h3\<lparr>ssl_initialised := i, keypair_loaded := j,
       ssl_ctx := c, machine := m, bevcb_set := b\<rparr>)"
      "tls_fine live (?h3\<lparr>ssl_initialised := i, keypair_loaded := j, ssl_ctx := c, machine := m, bevcb_set := b\<rparr>)" by blast
    from step [of "?h3\<lparr>ssl_initialised := i, keypair_loaded := j, ssl_ctx := c, machine := m, bevcb_set := b\<rparr>"] q True o3 show ?thesis
      by (intro exI [of _ http] exI [of _ "?h3\<lparr>ssl_initialised := i, keypair_loaded := j, ssl_ctx := c, machine := m, bevcb_set := b\<rparr>"]) simp
  next
    case False
    moreover have "opened http h ?h3" using sp by (simp add: opened_def grown_def server_frame_def space_def)
    ultimately show ?thesis using step [of ?h3] t3 by (intro exI [of _ http] exI [of _ ?h3]) auto
  qed
qed

lemma after_grown:
  assumes "opened http h h4" and "space 8 h"
  shows "grown h (server_mem_after http (next_addr h) a realm (fresh_evws http) h4)"
  using assms by (auto simp: opened_def grown_def server_mem_after_def map_add_def server_params_old server_frame_def space_def)

lemma create_server_ok:
  assumes W: "willing H live" and t: "tls_fine live h" and sp: "space 8 h" and ok: "config_ok h" and s: "s \<in> set (cfg_servers h)"
  shows "case realm_of h s of
      None \<Rightarrow> create_server H N base s h = None
    | Some r \<Rightarrow> \<exists>h' M. create_server H N base s h = Some (1, h') \<and> grown h h' \<and> tls_fine live h' \<and>
        next_addr h' = next_addr h + 8 \<and> current_iter h' = current_iter h \<and> ctx_servers h' = M # ctx_servers h \<and> serves h' r M \<and>
        (routed h \<longrightarrow> routed h')"
proof -
  have so: "server_ok h s" by (rule config_okD(2) [OF ok s])
  then obtain S where S: "server_at h s = Some S" "set_option (cs_authentication S) \<subseteq> set (cfg_authentications h)"
    by (auto simp: server_ok_def)
  from create_opened [OF W t sp so] obtain http h4 where
    o: "opened http h h4" "tls_fine live h4" "create_server H N base s h = create_managed H N http (next_addr h) s h4" by blast
  have f: "server_at h4 = server_at h" "authentication_at h4 = authentication_at h" "next_addr h4 = Suc (next_addr h)"
    "alloc_ok h4 = alloc_ok h" "evws_at h4 (next_addr h) = Some (fresh_evws http)" "ctx_servers h4 = ctx_servers h" "current_iter h4 = current_iter h"
    using o(1) by (simp_all add: opened_def grown_def)
  show ?thesis
  proof (cases "cs_authentication S")
    case None
    then show ?thesis
      using S(1) f by (simp add: realm_of_def o(3) create_managed_def config_server_get_authentication_def)
  next
    case (Some a)
    with S(2) config_okD(1) [OF ok, of a] obtain A m where A: "authentication_at h a = Some A" "ca_auth A = Some m"
      and M: "\<exists>M. auth_at h m = Some M" by (auto simp: authentication_ok_def)
    let ?h' = "server_mem_after http (next_addr h) m (ca_name A) (fresh_evws http) h4"
    have "space 7 h4" using sp f by (simp add: space_def granted_def)
    from add_server_space [OF this f(5), of http m "ca_name A"]
    have "create_server H N base s h = Some (1, ?h')"
      using S(1) f Some A by (simp add: o(3) create_managed_def config_server_get_authentication_def config_server_get_realm_def)
    moreover have "serves ?h' (m, ca_name A) \<lparr>s_http = http, s_ws = next_addr h\<rparr>"
      by (rule serves_after) (simp_all add: f(3) fresh_evws_def)
    moreover have "tls_fine live ?h'" using o(2) by (simp add: tls_fine_def server_mem_after_def)
    moreover have "next_addr ?h' = next_addr h + 8" "current_iter ?h' = current_iter h" "ctx_servers ?h' = \<lparr>s_http = http, s_ws = next_addr h\<rparr> # ctx_servers h"
      using f by (simp_all add: server_mem_after_def)
    moreover have "routed ?h'" if "routed h"
    proof -
      have "routed h4" by (rule routed_cong [OF that]) (use o(1) in \<open>auto simp: opened_def grown_def\<close>)
      moreover have "\<exists>M. auth_at h4 m = Some M" using M o(1) by (simp add: opened_def grown_def)
      ultimately show ?thesis using routed_after by blast
    qed
    moreover have "realm_of h s = Some (m, ca_name A)" using S(1) Some A by (simp add: realm_of_def)
    ultimately show ?thesis using after_grown [OF o(1) sp, of m "ca_name A"]
      unfolding \<open>realm_of h s = _\<close> option.case by blast
  qed
qed

section \<open>Creating all of them\<close>

lemma config_ok_grown: "config_ok h \<Longrightarrow> grown h h' \<Longrightarrow> config_ok h'"
  by (fastforce simp: config_ok_def grown_def server_ok_def authentication_ok_def)

lemma realm_of_grown: "grown h h' \<Longrightarrow> realm_of h' s = realm_of h s"
  by (simp add: realm_of_def grown_def)

lemma LIST_NEXT_append: "s \<notin> set xs \<Longrightarrow> LIST_NEXT s (xs @ s # ys) = LIST_FIRST ys"
  by (induction xs) auto

lemma create_servers_ok:
  assumes W: "willing H live"
  shows "tls_fine live h \<Longrightarrow> space (8 * length rest) h \<Longrightarrow> config_ok h \<Longrightarrow> cfg_servers h = past @ rest \<Longrightarrow> current_iter h = LIST_FIRST rest \<Longrightarrow>
   if \<forall>s \<in> set rest. realm_of h s \<noteq> None
   then \<exists>h' Ms. create_servers H N base h = Some (1, h') \<and> grown h h' \<and> tls_fine live h' \<and> ctx_servers h' = Ms @ ctx_servers h \<and>
     list_all2 (\<lambda>s M. serves h' (the (realm_of h s)) M) (rev rest) Ms \<and> (routed h \<longrightarrow> routed h')
   else create_servers H N base h = None"
proof (induction rest arbitrary: past h)
  case Nil
  then have "create_servers H N base h = Some (1, h)"
    by (subst create_servers.simps) (simp add: config_iter_server_next_def LIST_FIRST_def)
  with Nil show ?case by (auto intro!: exI [of _ h] exI [of _ "[]"])
next
  case (Cons s rest)
  let ?h = "h\<lparr>current_iter := LIST_FIRST rest\<rparr>"
  have d: "s \<notin> set past" "s \<in> set (cfg_servers h)" using Cons.prems(3,4) by (auto simp: config_ok_def)
  have next1: "config_iter_server_next h = (Some s, ?h)"
    using Cons.prems(4,5) LIST_NEXT_append [OF d(1), of rest] by (simp add: config_iter_server_next_def LIST_FIRST_def)
  have g: "grown h ?h" by (simp add: grown_def server_frame_def)
  have eq: "create_servers H N base h = do {
      (r, h) \<leftarrow> create_server H N base s ?h; if r = 0 then Some (0, h) else create_servers H N base h }"
    by (subst create_servers.simps) (simp add: next1)
  have sp: "space 8 ?h" and t: "tls_fine live ?h" using Cons.prems(1,2) by (simp_all add: space_def granted_def tls_fine_def)
  note c = create_server_ok [OF W t sp config_ok_grown [OF Cons.prems(3) g], of s N base]
  show ?case
  proof (cases "realm_of h s")
    case None
    with c d(2) eq show ?thesis by (simp add: realm_of_grown [OF g])
  next
    case (Some r)
    with c d(2) obtain h1 M where h1: "create_server H N base s ?h = Some (1, h1)" "grown ?h h1" "tls_fine live h1"
      "next_addr h1 = next_addr h + 8" "current_iter h1 = LIST_FIRST rest" "ctx_servers h1 = M # ctx_servers h" "serves h1 r M" "routed ?h \<longrightarrow> routed h1"
      by (auto simp: realm_of_grown [OF g])
    have r1: "routed h1" if "routed h"
    proof -
      have "routed ?h" by (rule routed_cong [OF that]) simp_all
      with h1(8) show ?thesis ..
    qed
    have g1: "grown h h1" by (rule grown_trans [OF g h1(2)])
    have sp1: "space (8 * length rest) h1"
      using Cons.prems(2) g1 h1(4) by (simp add: space_def granted_def grown_def)
    have cf: "cfg_servers h1 = (past @ [s]) @ rest" using g1 Cons.prems(4) by (simp add: grown_def)
    note IH = Cons.IH [OF h1(3) sp1 config_ok_grown [OF Cons.prems(3) g1] cf h1(5)]
    show ?thesis
    proof (cases "\<forall>s \<in> set rest. realm_of h s \<noteq> None")
      case True
      with IH obtain h' Ms where h': "create_servers H N base h1 = Some (1, h')" "grown h1 h'" "tls_fine live h'"
        "ctx_servers h' = Ms @ ctx_servers h1" "list_all2 (\<lambda>s M. serves h' (the (realm_of h s)) M) (rev rest) Ms" "routed h1 \<longrightarrow> routed h'"
        by (auto simp: realm_of_grown [OF g1])
      have "serves h' r M" by (rule serves_grown [OF h1(7) h'(2)])
      with h'(5) Some have "list_all2 (\<lambda>s M. serves h' (the (realm_of h s)) M) (rev (s # rest)) (Ms @ [M])"
        by (simp add: list_all2_appendI)
      moreover have "create_servers H N base h = Some (1, h')" by (simp add: eq h1(1) h'(1))
      moreover have "ctx_servers h' = (Ms @ [M]) @ ctx_servers h" using h'(4) h1(6) by simp
      moreover have "\<forall>s \<in> set (s # rest). realm_of h s \<noteq> None" using True Some by simp
      ultimately show ?thesis using grown_trans [OF g1 h'(2)] h'(3,6) r1 by auto
    next
      case False
      with IH have "create_servers H N base h1 = None" by (auto simp: realm_of_grown [OF g1])
      with False show ?thesis by (auto simp: eq h1(1))
    qed
  qed
qed

end
