(* ===== verification/Frames.thy ===== *)
theory Frames
  imports Connection_Ws_Spec
begin

text \<open>
  What the handlers of the program leave as it is.  An observation of the memory that the primitive updates
  do not change is not changed by any handler that returns, whatever the libraries answer and even
  when its callbacks misbehave.  The locale \<open>request_frame\<close> has the observations that may look at the
  waiting callbacks, for the requests that do not free one; \<open>handler_frame\<close> has those that do not, for all
  handlers.  The interpretations are the list of servers with their routes, parameters and
  authentications, and the store of callbacks.
\<close>

named_theorems kept

lemma bind_some: "Option.bind m f = Some y \<longleftrightarrow> (\<exists>x. m = Some x \<and> f x = Some y)"
  by (cases m) simp_all

lemma bindE: "Option.bind m f = Some y \<Longrightarrow> (\<And>x. m = Some x \<Longrightarrow> f x = Some y \<Longrightarrow> P) \<Longrightarrow> P"
  by (cases m) simp_all

text \<open>A runner of function pointers that keeps an observation.\<close>

definition keeps :: "('m \<Rightarrow> 'o) \<Rightarrow> ('a \<Rightarrow> 'b \<Rightarrow> 'c \<Rightarrow> 'm \<Rightarrow> 'm option) \<Rightarrow> bool" where
  "keeps obs run \<longleftrightarrow> (\<forall>f a arg h h'. run f a arg h = Some h' \<longrightarrow> obs h' = obs h)"

lemma keepsD: "run f a arg h = Some h' \<Longrightarrow> keeps obs run \<Longrightarrow> obs h' = obs h"
  by (simp add: keeps_def)

section \<open>Requests that free no callback\<close>

locale request_frame =
  fixes obs :: "('j, 'w, 'z) ws \<Rightarrow> 'o"
  assumes obs_request [simp]:
    "\<And>h x. obs (h\<lparr>next_addr := x\<rparr>) = obs h"
    "\<And>h x. obs (h\<lparr>alloc_count := x\<rparr>) = obs h"
    "\<And>h x. obs (h\<lparr>item_at := x\<rparr>) = obs h"
    "\<And>h x. obs (h\<lparr>queue_at := x\<rparr>) = obs h"
    "\<And>h x. obs (h\<lparr>rand_count := x\<rparr>) = obs h"
    "\<And>h x. obs (h\<lparr>mqueue_at := x\<rparr>) = obs h"
    "\<And>h x. obs (h\<lparr>want_at := x\<rparr>) = obs h"
    "\<And>h x. obs (h\<lparr>ctx_queues := x\<rparr>) = obs h"
    "\<And>h x. obs (h\<lparr>ctx_wants := x\<rparr>) = obs h"
    "\<And>h x. obs (h\<lparr>json_st := x\<rparr>) = obs h"
    and obs_auth: "\<And>h a A B. auth_at h a = Some A \<Longrightarrow> obs (h\<lparr>auth_at := (auth_at h)(a \<mapsto> B)\<rparr>) = obs h"
begin

lemma calloc_obs [kept]: "calloc h = (r, h') \<Longrightarrow> obs h' = obs h"
  by (auto simp: calloc_def Let_def split: if_splits)

lemma calloc_item_obs [kept]: "calloc_item h = (r, h') \<Longrightarrow> obs h' = obs h"
  by (auto simp: calloc_item_def set_item_def split: prod.splits option.splits dest!: kept)

lemma strdup_obs [kept]: "strdup s h = (r, h') \<Longrightarrow> obs h' = obs h"
  by (auto simp: strdup_def)

lemma strdup_key_obs [kept]: "strdup_key k h = (r, h') \<Longrightarrow> obs h' = obs h"
  by (auto simp: strdup_key_def split: prod.splits option.splits dest!: kept)

lemma free_item_obs [kept]: "free_item a h = Some h' \<Longrightarrow> obs h' = obs h"
  by (auto simp: free_item_def bind_some)

lemma queue_item_free_int_obs [kept]: "queue_item_free_int a h = Some h' \<Longrightarrow> obs h' = obs h"
  by (auto simp: queue_item_free_int_def bind_some set_queue_def split: if_splits dest!: kept)

lemma queue_item_free_obs [kept]: "queue_item_free a h = Some h' \<Longrightarrow> obs h' = obs h"
  by (auto simp: queue_item_free_def bind_some split: if_splits dest!: kept)

lemma put_build_obs [kept]: "put_build q key v h = Some (r, h') \<Longrightarrow> obs h' = obs h"
  by (auto simp: put_build_def bind_some set_item_def split: prod.splits option.splits bool.splits dest!: kept)

lemma put_store_obs [kept]: "put_store q a key h = Some h' \<Longrightarrow> obs h' = obs h"
  by (auto simp: put_store_def bind_some set_item_def set_queue_def Let_def)

lemma queue_take_obs [kept]: "queue_take q key h = Some (r, h') \<Longrightarrow> obs h' = obs h"
  by (auto simp: queue_take_def set_item_def set_queue_def Let_def elim!: bindE split: option.splits if_splits)

lemma queue_new_obs [kept]: "queue_new i h = Some (r, h') \<Longrightarrow> obs h' = obs h"
  by (auto simp: queue_new_def calloc_queue_def set_queue_def free_queue_def bind_some Let_def split: prod.splits option.splits if_splits dest!: kept)

lemma queue_lock_obs [kept]: "queue_item_lock a h = Some (r, h') \<Longrightarrow> obs h' = obs h"
  by (auto simp: queue_item_lock_def set_item_def bind_some Let_def split: prod.splits option.splits if_splits dest!: kept)

lemma queue_unlock_obs [kept]: "queue_item_unlock a h = Some h' \<Longrightarrow> obs h' = obs h"
  by (auto simp: queue_item_unlock_def set_item_def bind_some Let_def split: prod.splits option.splits if_splits dest!: kept)

lemma free_items_obs [kept]:
  assumes ends: "free_items q h = Some h'"
  shows "obs h' = obs h"
proof (induction q h h' rule: free_items.raw_induct)
  case (1 f q h h')
  from 1(2) obtain Q where Q: "queue_at h q = Some Q"
    "(case items Q of [] \<Rightarrow> Some h | a # _ \<Rightarrow> do { h \<leftarrow> queue_item_free_int a h; f q h }) = Some h'" by (auto simp: bind_some)
  from Q(2) show ?case by (cases "items Q") (auto simp: bind_some dest!: kept 1(1))
qed (rule ends)

lemma queue_create_obs [kept]: "manager_queue_create L u h = Some (r, h') \<Longrightarrow> obs h' = obs h"
  by (auto simp: manager_queue_create_def free_mqueue_def set_mqueue_def bind_some Let_def split: prod.splits option.splits if_splits dest!: kept)

lemma queue_get_obs [kept]: "manager_queue_get L junk name c h = Some (r, h') \<Longrightarrow> obs h' = obs h"
  by (auto simp: manager_queue_get_def bind_some Let_def split: prod.splits option.splits if_splits dest!: kept)

lemma cancel_obs [kept]: "cancel_wants P ws h = Some h' \<Longrightarrow> obs h' = obs h"
  by (induction P ws h rule: cancel_wants.induct) (auto simp: bind_some set_want_def split: if_splits)

lemma want_remove_obs [kept]: "manager_queue_want_remove m h = Some h' \<Longrightarrow> obs h' = obs h"
  by (auto simp: manager_queue_want_remove_def bind_some Let_def split: prod.splits option.splits if_splits dest!: kept)

lemma with_json_obs [kept]: "with_json f h = Some (r, h') \<Longrightarrow> obs h' = obs h"
  by (auto simp: with_json_def bind_some Let_def split: prod.splits option.splits if_splits dest!: kept)

lemma put_json_obs [kept]: "put_json W a h = Some h' \<Longrightarrow> obs h' = obs h"
  by (auto simp: put_json_def bind_some Let_def split: prod.splits option.splits if_splits dest!: kept)

lemma alloc_block_obs [kept]: "alloc_block h = (r, h') \<Longrightarrow> obs h' = obs h"
  by (auto simp: alloc_block_def bind_some Let_def split: prod.splits option.splits if_splits dest!: kept)

lemma http_json_obs [kept]: "connection_http_json W rq ps code object h = Some (rq', ps', h') \<Longrightarrow> obs h' = obs h"
  by (auto simp: connection_http_json_def bind_some Let_def split: prod.splits option.splits if_splits dest!: kept)

lemma http_error_obs [kept]: "connection_http_error W rq ps code m h = Some (rq', ps', h') \<Longrightarrow> obs h' = obs h"
  by (auto simp: connection_http_error_def bind_some Let_def split: prod.splits option.splits if_splits dest!: kept)

lemma http_payload_obs [kept]: "connection_http_payload W rq ps p h = Some (rq', ps', h') \<Longrightarrow> obs h' = obs h"
  by (auto simp: connection_http_payload_def bind_some Let_def split: prod.splits option.splits if_splits dest!: kept)

lemma auth_required_obs [kept]: "connection_http_auth_required W rq realm h = (rq', h') \<Longrightarrow> obs h' = obs h"
  by (auto simp: connection_http_auth_required_def bind_some Let_def split: prod.splits bool.splits dest!: kept)

lemma read_error_obs [kept]: "read_error W rq ps h = Some (r, rq', ps', h') \<Longrightarrow> obs h' = obs h"
  by (auto simp: read_error_def bind_some Let_def split: prod.splits option.splits if_splits dest!: kept)

lemma http_read_obs [kept]:
  assumes "connection_http_read W rq ps h = Some (r, rq', ps', h')"
  shows "obs h' = obs h"
proof -
  obtain ok h1 where a: "alloc_block h = (ok, h1)" by force
  obtain n body where b: "evbuffer_copyout (lib_ev W) (input_buffer rq) (length (input_buffer rq)) = (n, body)" by force
  obtain c qs where c: "evhttp_parse_query_str (lib_ev W) (c_string body) (the ps) = (c, qs)" by force
  show ?thesis
    using assms a b c by (cases ok) (auto simp: connection_http_read_def bind_some Let_def split: if_splits dest!: kept)
qed

lemma http_validate_obs [kept]: "connection_http_validate W rq c ps h = Some (r, rq', ps', h') \<Longrightarrow> obs h' = obs h"
  by (auto simp: connection_http_validate_def bind_some Let_def split: prod.splits option.splits if_splits dest!: kept)

lemma read_validate_obs [kept]: "read_and_validate W rq c ps h = Some (r, rq', ps', h') \<Longrightarrow> obs h' = obs h"
  by (auto simp: read_and_validate_def bind_some Let_def split: prod.splits option.splits if_splits dest!: kept)

lemma http_take_obs [kept]: "connection_http_callback_take W rq h = Some (rq', ps', h') \<Longrightarrow> obs h' = obs h"
  by (auto simp: connection_http_callback_take_def bind_some Let_def split: prod.splits option.splits if_splits dest!: kept)

lemma http_peek_obs [kept]: "connection_http_callback_peek W rq h = Some (rq', ps', h') \<Longrightarrow> obs h' = obs h"
  by (auto simp: connection_http_callback_peek_def bind_some Let_def split: prod.splits option.splits if_splits dest!: kept)

lemma http_list_obs [kept]: "connection_http_callback_list W rq h = Some (rq', ps', h') \<Longrightarrow> obs h' = obs h"
  by (auto simp: connection_http_callback_list_def bind_some Let_def split: prod.splits option.splits if_splits dest!: kept)

lemma http_info_obs [kept]: "connection_http_callback_info W rq h = Some (rq', ps', h') \<Longrightarrow> obs h' = obs h"
  by (auto simp: connection_http_callback_info_def info_cleanup_def bind_some Let_def split: prod.splits option.splits if_splits dest!: kept)

lemma verify_at_obs [kept]:
  assumes "verify_at W a s h = Some (r, h')"
  shows "obs h' = obs h"
proof -
  from assms obtain A A' h1 where A: "auth_at h a = Some A" "auth_verify (lib_files W) (lib_ssl W) A s h = Some (r, A', h1)"
    "h' = h1\<lparr>auth_at := (auth_at h1)(a \<mapsto> A')\<rparr>" by (auto simp: verify_at_def elim!: bindE)
  from auth_verify_only [OF A(2)] obtain n where h1: "h1 = h\<lparr>alloc_count := n\<rparr>" by (auto simp: only_alloc_def)
  with A(1) have "auth_at h1 a = Some A" by simp
  then have "obs h' = obs h1" unfolding A(3) by (rule obs_auth)
  with h1 show ?thesis by simp
qed

end

section \<open>All handlers\<close>

locale handler_frame = request_frame obs for obs :: "('j, 'w, 'z) ws \<Rightarrow> 'o" +
  assumes obs_handler [simp]:
    "\<And>h x. obs (h\<lparr>callback_at := x\<rparr>) = obs h"
    "\<And>h x. obs (h\<lparr>net_st := x\<rparr>) = obs h"
    "\<And>h x. obs (h\<lparr>conn_at := x\<rparr>) = obs h"
    "\<And>h x. obs (h\<lparr>message_at := x\<rparr>) = obs h"
    "\<And>h x. obs (h\<lparr>evws_at := x\<rparr>) = obs h"
    "\<And>h x. obs (h\<lparr>net_calls := x\<rparr>) = obs h"
begin

lemma free_callback_obs [kept]: "free_callback a h = Some h' \<Longrightarrow> obs h' = obs h"
  by (auto simp: free_callback_def bind_some)

lemma queue_callback_free_obs [kept]: "queue_callback_free_int a h = Some h' \<Longrightarrow> obs h' = obs h"
  by (auto simp: queue_callback_free_int_def bind_some set_queue_def Let_def split: if_splits dest!: kept)

lemma put_deliver_obs [kept]:
  assumes "put_deliver run c a h = Some h'" and k: "keeps obs run"
  shows "obs h' = obs h"
  using assms by (auto simp: put_deliver_def bind_some Let_def split: prod.splits option.splits if_splits dest!: kept keepsD [OF _ k])

lemma queue_put_obs [kept]:
  assumes "queue_put run q key v h = Some (r, h')" and k: "keeps obs run"
  shows "obs h' = obs h"
  using assms by (auto simp: queue_put_def bind_some Let_def split: prod.splits option.splits if_splits dest!: kept keepsD [OF _ k])

lemma queue_callback_new_obs [kept]: "queue_callback_new_int key h = Some (r, h') \<Longrightarrow> obs h' = obs h"
  by (auto simp: queue_callback_new_int_def calloc_callback_def set_callback_def bind_some Let_def split: prod.splits option.splits bool.splits dest!: kept)

lemma queue_wait_obs [kept]:
  assumes "queue_wait run q key cb arg h = Some (r, h')" and k: "keeps obs run"
  shows "obs h' = obs h"
  using assms by (auto simp: queue_wait_def set_callback_def set_queue_def bind_some Let_def split: prod.splits option.splits if_splits dest!: kept keepsD [OF _ k])

lemma free_callbacks_obs [kept]:
  assumes ends: "free_callbacks q h = Some h'"
  shows "obs h' = obs h"
proof (induction q h h' rule: free_callbacks.raw_induct)
  case (1 f q h h')
  from 1(2) obtain Q where Q: "queue_at h q = Some Q"
    "(case callbacks Q of [] \<Rightarrow> Some h | a # _ \<Rightarrow> do { h \<leftarrow> queue_callback_free_int a h; f q h }) = Some h'" by (auto simp: bind_some)
  from Q(2) show ?case by (cases "callbacks Q") (auto simp: bind_some dest!: kept 1(1))
qed (rule ends)

lemma queue_free_obs [kept]: "queue_free q h = Some h' \<Longrightarrow> obs h' = obs h"
  by (auto simp: queue_free_def free_queue_def bind_some Let_def split: prod.splits option.splits if_splits dest!: kept)

lemma mqueue_free_obs [kept]: "manager_queue_free m h = Some h' \<Longrightarrow> obs h' = obs h"
  by (auto simp: manager_queue_free_def free_mqueue_def bind_some Let_def split: prod.splits option.splits if_splits dest!: kept)

lemma want_new_obs [kept]: "manager_queue_want_new i con m h = Some (r, h') \<Longrightarrow> obs h' = obs h"
  by (auto simp: manager_queue_want_new_def set_want_def free_want_def bind_some Let_def split: prod.splits option.splits if_splits dest!: kept)

lemma want_free_obs [kept]: "manager_queue_want_free w h = Some h' \<Longrightarrow> obs h' = obs h"
  by (auto simp: manager_queue_want_free_def free_want_def bind_some Let_def split: prod.splits option.splits if_splits dest!: kept)

lemma want_close_obs [kept]: "manager_queue_want_close m h = Some h' \<Longrightarrow> obs h' = obs h"
  by (auto simp: manager_queue_want_close_def bind_some Let_def split: prod.splits option.splits if_splits dest!: kept)

lemma http_put_obs [kept]:
  assumes "connection_http_callback_put W run rq h = Some (rq', ps', h')" and k: "keeps obs run"
  shows "obs h' = obs h"
  using assms by (auto simp: connection_http_callback_put_def bind_some Let_def split: prod.splits option.splits if_splits dest!: kept queue_put_obs [OF _ k])

lemma http_new_obs [kept]: "connection_http_callback_new W rq h = Some (rq', ps', h') \<Longrightarrow> obs h' = obs h"
  by (auto simp: connection_http_callback_new_def bind_some Let_def split: prod.splits option.splits if_splits dest!: kept)

lemma http_delete_obs [kept]: "connection_http_callback_delete W rq h = Some (rq', ps', h') \<Longrightarrow> obs h' = obs h"
  by (auto simp: connection_http_callback_delete_def bind_some Let_def split: prod.splits option.splits if_splits dest!: kept)

lemma http_cb_queues_obs [kept]: "connection_http_callback_queues W rq h = Some (rq', ps', h') \<Longrightarrow> obs h' = obs h"
  by (auto simp: connection_http_callback_queues_def split: http_command.splits dest!: kept)

lemma http_cb_queue_obs [kept]: "connection_http_callback_queue W rq h = Some (rq', ps', h') \<Longrightarrow> obs h' = obs h"
  by (auto simp: connection_http_callback_queue_def split: http_command.splits dest!: kept)

lemma endpoint_obs [kept]:
  assumes "call_endpoint W run e rq h = Some (rq', ps', h')" and k: "keeps obs run"
  shows "obs h' = obs h"
  using assms by (cases e; auto dest!: kept http_put_obs [OF _ k])

lemma authenticated_obs [kept]:
  assumes "connection_http_authenticated W run rq u h = Some (rq', ps', h')" and k: "keeps obs run"
  shows "obs h' = obs h"
  using assms by (auto simp: connection_http_authenticated_def bind_some Let_def split: prod.splits option.splits if_splits dest!: kept endpoint_obs [OF _ k])

lemma route_obs [kept]:
  assumes "call_route W run e rq h = Some (rq', ps', h')" and k: "keeps obs run"
  shows "obs h' = obs h"
  using assms by (cases e; auto dest!: kept endpoint_obs [OF _ k])

lemma with_net_obs [kept]: "with_net f h = (r, h') \<Longrightarrow> obs h' = obs h"
  by (auto simp: with_net_def bind_some Let_def with_net_def case_prod_beta split: option.splits if_splits dest!: kept)

lemma last_error_obs [kept]: "set_last_error a e h = Some h' \<Longrightarrow> obs h' = obs h"
  by (auto simp: set_last_error_def set_conn_def bind_some Let_def with_net_def case_prod_beta split: option.splits if_splits dest!: kept)

lemma close_obs [kept]:
  assumes "evws_close runc a h = Some h'" and k: "keeps obs runc"
  shows "obs h' = obs h"
  using assms by (auto simp: evws_close_def set_conn_def bind_some Let_def with_net_def case_prod_beta split: option.splits if_splits dest!: kept keepsD [OF _ k])

lemma send_callback_obs [kept]: "evws_wslay_send_callback N a d h = Some y \<Longrightarrow> obs (snd y) = obs h"
  by (cases "set_last_error a 0 h")
     (auto simp: evws_wslay_send_callback_def with_net_def case_prod_beta Let_def split: if_splits dest!: last_error_obs)

lemma event_send_obs [kept]:
  assumes ends: "wslay_event_send N a h = Some y"
  shows "obs (snd y) = obs h"
proof (induction N a h y rule: wslay_event_send.raw_induct)
  case (1 f N a h y)
  obtain act x where w: "wslay_send_step N a (net_st h) = (act, x)" by force
  from 1(2) w show ?case by (cases act) (auto simp: bind_some dest!: kept 1(1))
qed (rule ends)

lemma write_obs [kept]:
  assumes "evws_connection_write N runc a h = Some h'" and k: "keeps obs runc"
  shows "obs h' = obs h"
proof -
  from assms(1) obtain failed h1 where h1: "(if wslay_event_want_write N a (net_st h) then do {
         (e, h) \<leftarrow> wslay_event_send N a h;
         h \<leftarrow> set_last_error a e h;
         if e < 0 then do { h \<leftarrow> evws_close runc a h; Some (True, h) } else Some (False, h) }
       else Some (False, h)) = Some (failed, h1)"
    "(if failed then Some h1 else if wslay_event_get_close_sent N a (net_st h1) then Some (net_log [Bufferevent_setcb_close a] h1)
      else Some h1) = Some h'"
    unfolding evws_connection_write_def by (auto simp only: bind_some split: prod.splits)
  have "obs h1 = obs h"
    using h1(1) by (auto simp: bind_some split: if_splits dest!: event_send_obs last_error_obs close_obs [OF _ k])
  with h1(2) show ?thesis by (auto simp: net_log_def split: if_splits)
qed

lemma send_int_obs [kept]:
  assumes "evws_connection_send_int N runc a opc m h = Some h'" and k: "keeps obs runc"
  shows "obs h' = obs h"
  using assms by (auto simp: evws_connection_send_int_def bind_some Let_def with_net_def case_prod_beta split: option.splits if_splits dest!: kept keepsD [OF _ k])

lemma send_obs [kept]:
  assumes "evws_connection_send N runc a m h = Some h'" and k: "keeps obs runc"
  shows "obs h' = obs h"
  using assms by (auto simp: evws_connection_send_def bind_some Let_def with_net_def case_prod_beta split: option.splits if_splits dest!: kept keepsD [OF _ k])

lemma send_close_obs [kept]:
  assumes "evws_connection_send_close N runc a h = Some h'" and k: "keeps obs runc"
  shows "obs h' = obs h"
  using assms by (auto simp: evws_connection_send_close_def bind_some Let_def with_net_def case_prod_beta split: option.splits if_splits dest!: kept keepsD [OF _ k])

lemma calloc_snd [simp]: "obs (snd (calloc h)) = obs h"
  by (simp add: calloc_def Let_def)

lemma strdup_snd [simp]: "obs (snd (strdup s h)) = obs h"
  by (simp add: strdup_def)

lemma message_new_obs [kept]: "evws_message_new N a arg h = Some (r, h') \<Longrightarrow> obs h' = obs h"
  by (auto simp: evws_message_new_def set_message_def set_conn_def free_message_def bind_some Let_def with_net_def case_prod_beta split: option.splits if_splits dest!: kept)

lemma message_free_obs [kept]: "evws_message_free m h = Some h' \<Longrightarrow> obs h' = obs h"
  by (auto simp: evws_message_free_def set_conn_def free_message_def bind_some Let_def with_net_def case_prod_beta split: option.splits if_splits dest!: kept)

lemma recv_callback_obs [kept]: "evws_wslay_recv_callback N a len h = Some (r, d, h') \<Longrightarrow> obs h' = obs h"
  by (auto simp: evws_wslay_recv_callback_def bind_some Let_def with_net_def case_prod_beta split: option.splits if_splits dest!: kept)

lemma on_msg_obs [kept]:
  assumes "evws_wslay_on_msg_callback N rund a arg h = Some h'" and k: "keeps obs rund"
  shows "obs h' = obs h"
  using assms(1) unfolding evws_wslay_on_msg_callback_def
  by (auto elim!: bindE split: option.splits if_splits dest!: message_new_obs message_free_obs keepsD [OF _ k])

lemma event_recv_obs [kept]:
  assumes ends: "wslay_event_recv N rund a h = Some y" and k: "keeps obs rund"
  shows "obs (snd y) = obs h"
  using k
proof (induction N rund a h y rule: wslay_event_recv.raw_induct)
  case (1 f N rund a h y)
  obtain act x where w: "wslay_recv_step N a (net_st h) = (act, x)" by force
  from 1(2,3) w show ?case by (cases act) (auto simp: bind_some dest!: kept on_msg_obs [OF _ 1(3)] 1(1))
qed (rule ends)

lemma read_cb_obs [kept]:
  assumes "evws_connection_read_cb N runc rund a h = Some h'" and k: "keeps obs runc" and "keeps obs rund"
  shows "obs h' = obs h"
  using assms by (auto simp: evws_connection_read_cb_def bind_some Let_def with_net_def case_prod_beta split: option.splits if_splits dest!: kept keepsD [OF _ k(1)])

lemma free_messages_obs [kept]:
  assumes ends: "free_messages a h = Some h'"
  shows "obs h' = obs h"
proof (induction a h h' rule: free_messages.raw_induct)
  case (1 f a h h')
  from 1(2) obtain c where "conn_at h a = Some c" by (auto elim!: bindE)
  with 1(2) show ?case by (cases "c_messages c") (auto elim!: bindE dest!: message_free_obs 1(1))
qed (rule ends)

lemma connection_free_obs [kept]:
  assumes "evws_connection_free N runc a h = Some h'" and k: "keeps obs runc"
  shows "obs h' = obs h"
  using assms by (auto simp: evws_connection_free_def set_conn_def set_evws_def net_log_def free_conn_def bind_some Let_def with_net_def case_prod_beta split: option.splits if_splits dest!: kept keepsD [OF _ k])

lemma evws_free_obs [kept]:
  assumes ends: "evws_free N runc w h = Some h'" and k: "keeps obs runc"
  shows "obs h' = obs h"
  using k
proof (induction N runc w h h' rule: evws_free.raw_induct)
  case (1 f N runc w h h')
  from 1(2) obtain V where "evws_at h w = Some V" by (auto elim!: bindE)
  with 1(2,3) show ?case
    by (cases "ws_connections V") (auto simp: free_evws_def elim!: bindE dest!: connection_free_obs [OF _ 1(3)] 1(1))
qed (rule ends)

lemma event_cb_obs [kept]:
  assumes "evws_connection_event_cb N runc ev a h = Some h'" and k: "keeps obs runc"
  shows "obs h' = obs h"
  using assms by (auto simp: evws_connection_event_cb_def bind_some Let_def with_net_def case_prod_beta split: option.splits if_splits dest!: kept keepsD [OF _ k])

lemma connection_new_obs [kept]: "evws_connection_new N adr prt h = Some (r, h') \<Longrightarrow> obs h' = obs h"
  by (auto simp: evws_connection_new_def set_conn_def free_conn_def net_log_def bind_some Let_def with_net_def case_prod_beta split: option.splits if_splits dest!: kept)

lemma security_key_snd [simp]: "obs (snd (create_security_key N key h)) = obs h"
  by (auto simp: create_security_key_def Let_def split: prod.splits)

lemma upgrade_switch_obs [kept]:
  assumes "upgrade_switch N E runc w key rq h = Some (rq', h')" and k: "keeps obs runc"
  shows "obs h' = obs h"
  using assms by (auto simp: upgrade_switch_def set_conn_def set_evws_def bind_some Let_def with_net_def case_prod_beta split: option.splits if_splits dest!: kept keepsD [OF _ k])

lemma runner_close_obs [kept]: "conn_callback f a arg h = Some h' \<Longrightarrow> obs h' = obs h"
  by (auto simp: conn_callback_def connection_ws_callback_close_def connection_ws_callback_error_def split: if_splits dest!: want_close_obs)

lemma keeps_close: "keeps obs (conn_callback :: ('j, 'w, 'z) ws_runner)"
  by (simp add: keeps_def runner_close_obs)

lemma ws_json_obs [kept]: "connection_ws_json N W con ob h = Some h' \<Longrightarrow> obs h' = obs h"
  by (auto simp: connection_ws_json_def Let_def elim!: bindE split: option.splits if_splits prod.splits dest!: with_json_obs put_json_obs send_obs [OF _ keeps_close])

lemma ws_error_obs [kept]: "connection_ws_error N W con m h = Some h' \<Longrightarrow> obs h' = obs h"
  by (auto simp: connection_ws_error_def Let_def elim!: bindE split: option.splits if_splits prod.splits dest!: with_json_obs ws_json_obs)

lemma ws_payload_obs [kept]: "connection_ws_payload N W con m h = Some h' \<Longrightarrow> obs h' = obs h"
  by (auto simp: connection_ws_payload_def Let_def elim!: bindE split: option.splits if_splits prod.splits dest!: with_json_obs ws_json_obs ws_error_obs put_json_obs)

lemma wait_cleanup_obs [kept]: "wait_cleanup W i w r d h = Some h' \<Longrightarrow> obs h' = obs h"
  by (auto simp: wait_cleanup_def Let_def elim!: bindE split: option.splits if_splits prod.splits dest!: want_free_obs queue_item_free_obs put_json_obs)

lemma wait_error_obs [kept]: "wait_error N W i w m r d h = Some h' \<Longrightarrow> obs h' = obs h"
  by (auto simp: wait_error_def Let_def elim!: bindE split: option.splits if_splits prod.splits dest!: ws_error_obs wait_cleanup_obs)

lemma delivery_obs [kept]: "connection_queue_callback_wait N W i w h = Some h' \<Longrightarrow> obs h' = obs h"
  by (auto simp: connection_queue_callback_wait_def Let_def elim!: bindE split: option.splits if_splits prod.splits dest!: with_json_obs wait_cleanup_obs wait_error_obs ws_payload_obs)

lemma keeps_queue_callback: "keeps obs (queue_callback_runner N W :: ('j, 'w, 'z) ws_runner)"
  by (auto simp: keeps_def queue_callback_runner_def split: if_splits elim!: bindE dest!: delivery_obs)

lemma ws_read_obs [kept]: "connection_ws_read W m h = Some (r, h') \<Longrightarrow> obs h' = obs h"
  by (auto simp: connection_ws_read_def Let_def elim!: bindE split: option.splits if_splits prod.splits bool.splits dest!: with_json_obs alloc_block_obs)

lemma message_error_obs [kept]: "message_error N W m t h = Some h' \<Longrightarrow> obs h' = obs h"
  by (auto simp: message_error_def Let_def elim!: bindE split: option.splits if_splits prod.splits dest!: ws_error_obs)

lemma ws_wait_obs [kept]: "connection_ws_callback_wait N W m h = Some h' \<Longrightarrow> obs h' = obs h"
  by (auto simp: connection_ws_callback_wait_def Let_def elim!: bindE split: option.splits if_splits prod.splits dest!: ws_read_obs message_error_obs put_json_obs queue_get_obs want_new_obs want_free_obs queue_wait_obs [OF _ keeps_queue_callback])

lemma keeps_data: "keeps obs (data_callback N W :: ('j, 'w, 'z) ws_runner)"
  by (auto simp: keeps_def data_callback_def split: if_splits dest!: ws_wait_obs)

lemma ws_authenticated_obs [kept]: "connection_ws_authenticated W rq u h = Some (r, rq', h') \<Longrightarrow> obs h' = obs h"
  by (auto simp: connection_ws_authenticated_def Let_def elim!: bindE split: option.splits if_splits prod.splits dest!: auth_required_obs http_error_obs verify_at_obs)

lemma upgrade_callback_obs [kept]: "upgrade_callback W f rq arg h = Some (r, rq', h') \<Longrightarrow> obs h' = obs h"
  by (auto simp: upgrade_callback_def Let_def elim!: bindE split: option.splits if_splits prod.splits dest!: ws_authenticated_obs)

lemma upgrade_obs:
  assumes "evws_upgrade_http_cb N E conn_callback (upgrade_callback W) w rq h = Some (rq', h')"
  shows "obs h' = obs h"
  using assms unfolding evws_upgrade_http_cb_def
  by (auto simp: Let_def case_prod_beta elim!: bindE split: option.splits if_splits
      dest!: upgrade_callback_obs upgrade_switch_obs [OF _ keeps_close])

lemma handler_obs:
  shows "call_route W (queue_callback_runner N W) r rq h = Some (rq', ps, h') \<Longrightarrow> obs h' = obs h"
    and "evws_connection_read_cb N conn_callback (data_callback N W) a h = Some h' \<Longrightarrow> obs h' = obs h"
    and "evws_connection_event_cb N conn_callback ev a h = Some h' \<Longrightarrow> obs h' = obs h"
  using route_obs [OF _ keeps_queue_callback] read_cb_obs [OF _ keeps_close keeps_data] event_cb_obs [OF _ keeps_close]
  by blast+

end

section \<open>What is kept\<close>

definition registry ::
  "('j, 'z) server \<Rightarrow> manager_server list \<times> ev_call list \<times> (addr \<Rightarrow> connection_params option) \<times> addr set" where
  "registry h = (ctx_servers h, ev_calls h, params_at h, dom (auth_at h))"

interpretation registry_kept: handler_frame registry
  by unfold_locales (auto simp: registry_def)

interpretation callbacks_kept: request_frame callback_at
  by unfold_locales simp_all

end
