(* ===== verification/Disqueue_Spec.thy ===== *)
theory Disqueue_Spec
  imports Start_Correct Frames
begin

text \<open>
  What the program as a whole does: the key pair all servers share, the servers that are started, and
  the outcomes of \<open>main\<close>.
\<close>

section \<open>The event loop\<close>

lemma ssl_servers:
  fixes h :: "('j, 'w, 'v, 't, 'z) ssl"
  assumes "ssl_create_bufferevent T base h = Some (b, h')"
  shows "ctx_servers h' = ctx_servers h"
  using assms by (auto simp: ssl_create_bufferevent_def ssl_create_connection_def elim!: bindE split: if_splits option.splits)

lemma run_event_servers:
  assumes "run_event H N W base e h = Some h'"
  shows "ctx_servers h' = ctx_servers h"
proof (cases e)
  case (Http_accept http)
  with assms show ?thesis by (auto elim!: bindE split: if_splits dest!: ssl_servers)
next
  case (Http_request http path rq)
  with assms have "h' = h \<or> registry h' = registry h"
    by (auto elim!: bindE split: option.splits dest!: registry_kept.handler_obs(1))
  then show ?thesis by (auto simp: registry_def)
next
  case (Ws_upgrade w rq)
  with assms have "registry h' = registry h" by (auto elim!: bindE dest!: registry_kept.upgrade_obs)
  then show ?thesis by (simp add: registry_def)
next
  case (Ws_read a)
  with assms have "registry h' = registry h" by (auto dest!: registry_kept.handler_obs(2))
  then show ?thesis by (simp add: registry_def)
next
  case (Ws_event ev a)
  with assms have "registry h' = registry h" by (auto dest!: registry_kept.handler_obs(3))
  then show ?thesis by (simp add: registry_def)
qed

lemma run_events_servers: "run_events H N W base es h = Some h' \<Longrightarrow> ctx_servers h' = ctx_servers h"
  by (induction es arbitrary: h) (auto elim!: bindE dest!: run_event_servers)

lemma dispatch_servers: "event_base_dispatch H N W base h = Some (r, h') \<Longrightarrow> ctx_servers h' = ctx_servers h"
  by (auto simp: event_base_dispatch_def Let_def elim!: bindE split: prod.splits dest!: run_events_servers)

lemma shutdown_diverges:
  assumes "ctx_servers h \<noteq> []"
  shows "manager_shutdown h = None"
  using assms shutdown_servers_ends [of h] by (cases "shutdown_servers h") (auto simp: manager_shutdown_def)

section \<open>Serving\<close>

text \<open>A process before the servers are created, and one that can serve requests.\<close>

definition idle :: "('j, 'z) server \<Rightarrow> bool" where
  "idle h \<longleftrightarrow> fresh_memory h \<and> ctx_queues h = [] \<and> ctx_wants h = [] \<and> ctx_servers h = [] \<and> ev_calls h = []"

text \<open>Every registered route leads to an endpoint, behind an authentication that exists.\<close>

definition gated :: "('j, 'z) server \<Rightarrow> bool" where
  "gated h \<longleftrightarrow> (\<forall>s path r. Evhttp_set_cb s path r \<in> set (ev_calls h) \<longrightarrow>
     (\<exists>x P e A. r = Authenticated (Some x) \<and> params_at h x = Some P \<and> cp_cb P = Some e \<and> auth_at h (cp_auth P) = Some A))"

lemma routed_gated: "routed h \<Longrightarrow> gated h"
  unfolding routed_def gated_def by blast

definition ready :: "nat \<Rightarrow> ('j, 'z) server \<Rightarrow> bool" where
  "ready L h \<longleftrightarrow> manager_good L h \<and> callback_at h = Map.empty \<and> gated h"

lemma idle_startup: "idle h \<Longrightarrow> manager_startup h = h"
  by (simp add: idle_def manager_startup_def)

lemma idle_routed: "idle h \<Longrightarrow> routed h"
  by (simp add: idle_def routed_def)

lemma idle_frame:
  "idle h \<Longrightarrow> server_frame h h' \<Longrightarrow> ctx_servers h' = ctx_servers h \<Longrightarrow> ev_calls h' = ev_calls h \<Longrightarrow> idle h'"
  by (auto simp: idle_def fresh_memory_def server_frame_def rand_ok_def)

lemma ready_grown:
  assumes "idle h" and g: "grown h h'" and "routed h'"
  shows "ready L h'"
proof -
  have "fresh_memory h" using assms(1) by (simp add: idle_def)
  then have "manager_good L (manager_startup h)" by (intro manager_init_good) (auto simp: manager_init_def)
  then have "manager_good L h" by (simp add: idle_startup [OF assms(1)])
  moreover have f: "server_frame h h'" using g by (simp add: grown_def)
  ultimately have "manager_good L h'" by (rule server_frame_good)
  moreover have "callback_at h' = Map.empty" using f \<open>fresh_memory h\<close> by (simp add: server_frame_def fresh_memory_def)
  ultimately show ?thesis using routed_gated [OF assms(3)] by (simp add: ready_def)
qed

lemma main_serve_ok:
  assumes W: "willing H live" and ini: "ssl_initialised h = 0" and ok: "config_ok h" and sp: "space (8 * length (cfg_servers h)) h"
    and it: "current_iter h = LIST_FIRST (cfg_servers h)" and ne: "cfg_servers h \<noteq> []"
    and i: "idle h"
  shows "if \<forall>s \<in> set (cfg_servers h). realm_of h s \<noteq> None
    then \<exists>h1. grown h h1 \<and> ready L h1 \<and> tls_fine live h1 \<and> list_all2 (\<lambda>s M. serves h1 (the (realm_of h s)) M) (rev (cfg_servers h)) (ctx_servers h1) \<and>
      main_serve H N W base h = do { (r, h2) \<leftarrow> event_base_dispatch H N W base h1; if r = -1 then Some (1, h2) else None }
    else main_serve H N W base h = None"
proof -
  note st = idle_startup [OF i]
  have f: "tls_fine live h" "cfg_servers h = [] @ cfg_servers h" "ctx_servers h = []"
    using ini i by (simp_all add: tls_fine_def idle_def)
  note c = create_servers_ok [OF W f(1) sp ok f(2) it, of N base]
  show ?thesis
  proof (cases "\<forall>s \<in> set (cfg_servers h). realm_of h s \<noteq> None")
    case False
    with c have "create_servers H N base h = None" by auto
    with False show ?thesis by (auto simp: main_serve_def st)
  next
    case True
    with c f(3) obtain h1 Ms where h1: "create_servers H N base h = Some (1, h1)" "grown h h1" "ctx_servers h1 = Ms"
      "list_all2 (\<lambda>s M. serves h1 (the (realm_of h s)) M) (rev (cfg_servers h)) Ms" "routed h \<longrightarrow> routed h1"
      "tls_fine live h1"
      by auto
    have rd: "ready L h1" by (rule ready_grown [OF i h1(2)]) (use h1(5) idle_routed [OF i] in blast)
    have "Ms \<noteq> []" using h1(4) ne by auto
    have d: "manager_shutdown h2 = None" if "event_base_dispatch H N W base h1 = Some (r, h2)" for r h2
      by (rule shutdown_diverges) (use dispatch_servers [OF that] h1(3) \<open>Ms \<noteq> []\<close> in simp)
    have "main_serve H N W base h = do { (r, h2) \<leftarrow> event_base_dispatch H N W base h1; if r = -1 then Some (1, h2) else None }"
      using d by (cases "event_base_dispatch H N W base h1") (auto simp: main_serve_def st h1(1))
    with True h1 rd show ?thesis by auto
  qed
qed

section \<open>From the command line on\<close>

lemma realm_view:
  "config_ok h \<Longrightarrow> s \<in> set (cfg_servers h) \<Longrightarrow> v_realm (server_view_of h s) = map_option snd (realm_of h s)"
  by (simp add: server_view_of_def realm_of_def Let_def option.map_comp comp_def)

lemma realm_instance:
  assumes ok: "config_ok h" and s: "s \<in> set (cfg_servers h)" and r: "realm_of h s = Some (m, n)"
  shows "\<exists>A. auth_at h m = Some A"
proof -
  from config_okD(2) [OF ok s] r obtain S a where S: "server_at h s = Some S" "cs_authentication S = Some a" "a \<in> set (cfg_authentications h)"
    by (auto simp: server_ok_def realm_of_def)
  from config_okD(1) [OF ok S(3)] S r show ?thesis by (auto simp: authentication_ok_def realm_of_def Let_def)
qed

text \<open>A server that is up: a valid authentication, and the routes and callbacks of \<open>serves\<close>.\<close>

definition up :: "('j, 'w, 'z) ws \<Rightarrow> server_view \<Rightarrow> manager_server \<Rightarrow> bool" where
  "up h v M \<longleftrightarrow> (\<exists>m A n. auth_at h m = Some A \<and> v_realm v = Some n \<and> serves h (m, n) M)"

lemma all_up:
  assumes ok: "config_ok h" and g: "grown h h1" and r: "\<forall>s \<in> set (cfg_servers h). realm_of h s \<noteq> None"
    and l: "list_all2 (\<lambda>s M. serves h1 (the (realm_of h s)) M) (rev (cfg_servers h)) Ms"
  shows "list_all2 (up h1) (rev (map (server_view_of h) (cfg_servers h))) Ms"
proof -
  have "up h1 (server_view_of h s) M" if "s \<in> set (cfg_servers h)" "serves h1 (the (realm_of h s)) M" for s M
  proof -
    from r that(1) obtain m n where mn: "realm_of h s = Some (m, n)" by fastforce
    from realm_instance [OF ok that(1) mn] g obtain A where "auth_at h1 m = Some A" by (auto simp: grown_def)
    with that mn realm_view [OF ok that(1)] show ?thesis by (auto simp: up_def)
  qed
  with l show ?thesis
    unfolding rev_map list_all2_map1 by (auto elim!: list.rel_mono_strong)
qed

lemma views_realms:
  assumes "config_ok h"
  shows "(\<exists>v \<in> set (map (server_view_of h) (cfg_servers h)). v_realm v = None) \<longleftrightarrow> \<not> (\<forall>s \<in> set (cfg_servers h). realm_of h s \<noteq> None)"
  by (auto simp: realm_view [OF assms] simp del: not_None_eq)

text \<open>A process that has just started.\<close>

definition started :: "('j, 'w, 'v, 't, 'z) ssl \<Rightarrow> bool" where
  "started h \<longleftrightarrow> unconfigured h \<and> current_iter h = None \<and> ssl_initialised h = 0 \<and> idle h"

lemma main_command:
  assumes "argv \<noteq> []"
  shows "main C H N W argv h = (case parse None False [] (tl argv) of
      (_, True) \<Rightarrow> Some (0, h)
    | (fl, False) \<Rightarrow> do {
        (r, h) \<leftarrow> (case fl of None \<Rightarrow> Some (1, h) | Some fl \<Rightarrow> config_load_file C fl h);
        if r = 0 then Some (EINVAL, h)
        else main_start H N W h })"
proof -
  obtain fl shown where p: "parse None False [] (tl argv) = (fl, shown)" by force
  from parse_command [OF assms, of C h] p obtain s where
    c: "command_line C argv getopt_init h = (if shown then Some (0, s, h) else case fl of None \<Rightarrow> Some (-1, s, h)
       | Some fl \<Rightarrow> do { (r, h) \<leftarrow> config_load_file C fl h; Some (if r = 0 then EINVAL else -1, s, h) })"
    by (cases shown; cases fl) auto
  show ?thesis
  proof (cases "shown \<or> fl = None")
    case True
    then show ?thesis using p c by (auto simp: main_def EINVAL_def)
  next
    case False
    then obtain x where "fl = Some x" "\<not> shown" by auto
    then show ?thesis
      using p c by (cases "config_load_file C x h") (auto simp: main_def EINVAL_def)
  qed
qed

lemma main_loaded:
  fixes h :: "('j, 'w, 'v, 't, 'z) ssl"
  assumes W: "willing H live" and b: "\<forall>m. fst (event_base_new H m) \<noteq> None"
    and h: "config_ok h" "current_iter h = None" "ssl_initialised h = 0" "space (8 * length (cfg_servers h)) h" "idle h"
    and v: "map (server_view_of h) (cfg_servers h) = rev views"
  shows "if views = [] then \<exists>h'. main_start H N W h = Some (1, h')
    else if \<exists>v \<in> set views. v_realm v = None then main_start H N W h = None
    else \<exists>base h1. ready L h1 \<and> tls_fine live h1 \<and> list_all2 (up h1) views (ctx_servers h1) \<and>
      main_start H N W h = do { (r, h2) \<leftarrow> event_base_dispatch H N W base h1; if r = -1 then Some (1, h2) else None }"
proof (cases "cfg_servers h")
  case Nil
  with v h(2) show ?thesis by (auto simp: main_start_def config_iter_server_begin_def LIST_FIRST_def)
next
  case (Cons s ss)
  then have ne: "views \<noteq> []" using v by auto
  obtain base m where m: "event_base_new H (machine h) = (Some base, m)" using b by (metis option.exhaust_sel prod.collapse)
  let ?h = "h\<lparr>current_iter := Some s, machine := m\<rparr>"
  have g: "grown h ?h" by (simp add: grown_def server_frame_def)
  have ok: "config_ok ?h" by (rule config_ok_grown [OF h(1) g])
  have sv: "server_view_of ?h = server_view_of h" by (simp add: server_view_of_def fun_eq_iff)
  have res: "main_start H N W h = main_serve H N W base ?h"
    using h(2) Cons m by (simp add: main_start_def config_iter_server_begin_def LIST_FIRST_def on_machine_def)
  have sp: "space (8 * length (cfg_servers ?h)) ?h" using h(4) by (simp add: space_def granted_def)
  have it: "current_iter ?h = LIST_FIRST (cfg_servers ?h)" "cfg_servers ?h \<noteq> []" "ssl_initialised ?h = 0"
    using Cons h(3) by (simp_all add: LIST_FIRST_def)
  have i: "idle ?h" using h(5) by (simp add: idle_def fresh_memory_def rand_ok_def)
  note ms = main_serve_ok [OF W it(3) ok sp it(1,2) i, of L N W base]
  have vr: "(\<exists>v \<in> set views. v_realm v = None) \<longleftrightarrow> \<not> (\<forall>s \<in> set (cfg_servers ?h). realm_of ?h s \<noteq> None)"
    using views_realms [OF ok] v by (simp add: sv)
  show ?thesis
  proof (cases "\<forall>s \<in> set (cfg_servers ?h). realm_of ?h s \<noteq> None")
    case False
    with ms vr ne show ?thesis unfolding res by simp
  next
    case True
    with ms obtain h1 where h1: "grown ?h h1" "ready L h1" "tls_fine live h1"
      "list_all2 (\<lambda>s M. serves h1 (the (realm_of ?h s)) M) (rev (cfg_servers ?h)) (ctx_servers h1)"
      "main_serve H N W base ?h = do { (r, h2) \<leftarrow> event_base_dispatch H N W base h1; if r = -1 then Some (1, h2) else None }"
      by auto
    have "list_all2 (up h1) views (ctx_servers h1)"
      using all_up [OF ok h1(1) True h1(4)] v by (simp add: sv)
    with True vr ne h1(2,3,5) show ?thesis unfolding res by auto
  qed
qed

lemma those_length: "those xs = Some ys \<Longrightarrow> length ys = length xs"
  by (induction xs arbitrary: ys) (auto split: option.splits)

lemma described_length: "described C fl = Some views \<Longrightarrow> length views \<le> document_size C fl"
  by (auto simp: described_def document_def document_size_def elim!: bindE split: if_splits option.splits dest!: those_length)

lemma main_described:
  fixes h :: "('j, 'w, 'v, 't, 'z) ssl"
  assumes W: "willing H live" and b: "\<forall>m. fst (event_base_new H m) \<noteq> None" and argv: "argv \<noteq> []" and s: "started h"
    and f: "parse None False [] (tl argv) = (Some fl, False)" and ty: "well_typed C fl" and sp: "space (9 * document_size C fl) h"
  shows "case described C fl of
      None \<Rightarrow> \<exists>h'. main C H N W argv h = Some (EINVAL, h')
    | Some views \<Rightarrow>
        if views = [] then \<exists>h'. main C H N W argv h = Some (1, h')
        else if \<exists>v \<in> set views. v_realm v = None then main C H N W argv h = None
        else \<exists>base h1. ready L h1 \<and> tls_fine live h1 \<and> list_all2 (up h1) views (ctx_servers h1) \<and>
          main C H N W argv h = do { (r, h2) \<leftarrow> event_base_dispatch H N W base h1; if r = -1 then Some (1, h2) else None }"
proof -
  have u: "unconfigured h" and sp1: "space (document_size C fl) h" using s sp by (simp_all add: started_def space_def)
  note l = load_file [OF u sp1 ty]
  have m: "main C H N W argv h = do { (r, h) \<leftarrow> config_load_file C fl h; if r = 0 then Some (EINVAL, h) else main_start H N W h }"
    using main_command [OF argv, of C H N W h] f by simp
  show ?thesis
  proof (cases "described C fl")
    case None
    with l m show ?thesis by auto
  next
    case (Some views)
    with l obtain h' where h': "config_load_file C fl h = Some (1, h')" "config_ok h'"
      "map (server_view_of h') (cfg_servers h') = rev views" "next_addr h' = next_addr h + document_size C fl" "granted h'"
      "rest_of h' = rest_of h" "server_frame h h'" by auto
    have len: "length (cfg_servers h') \<le> document_size C fl"
      using described_length [OF Some] arg_cong [OF h'(3), of length] by simp
    have sp2: "space (8 * length (cfg_servers h')) h'" using sp h'(4,5) len by (simp add: space_def)
    have rest: "current_iter h' = None" "config_mem.more h' = config_mem.more h" using h'(6) s by (simp_all add: rest_of_def started_def)
    have ini: "ssl_initialised h' = 0"
      using rest(2) s by (cases h, cases h') (simp add: started_def)
    have idle: "idle h'"
      by (rule idle_frame [OF _ h'(7)]) (use s h'(6) in \<open>simp_all add: started_def rest_of_def\<close>)
    have "main C H N W argv h = main_start H N W h'" by (simp add: m h'(1))
    with main_loaded [OF W b h'(2) rest(1) ini sp2 idle h'(3), where L = L and N = N and W = W] Some show ?thesis by simp
  qed
qed

section \<open>Servers with a certificate\<close>

fun secure_servers ::
  "'t host \<Rightarrow> (addr \<times> cstring \<times> cstring) list \<Rightarrow> ('j, 'w, 'v, 't, 'z) ssl \<Rightarrow> (int \<times> ('j, 'w, 'v, 't, 'z) ssl) option" where
  "secure_servers H [] h = Some (1, h)"
| "secure_servers H ((http, certificate, privatekey) # ss) h = do {
     (r, h) \<leftarrow> secure_server H http (Some certificate) (Some privatekey) h;
     if r = 0 then Some (0, h) else secure_servers H ss h }"

lemma secure_servers_later:
  "ssl_initialised h \<noteq> 0 \<Longrightarrow> keypair_loaded h = 2 \<Longrightarrow>
   secure_servers H ss h = Some (1, h\<lparr>bevcb_set := bevcb_set h @ map fst ss\<rparr>)"
proof (induction ss arbitrary: h)
  case (Cons s ss)
  obtain http c k where s: "s = (http, c, k)" by (cases s) auto
  show ?case
    using Cons.IH [of "h\<lparr>bevcb_set := bevcb_set h @ [http]\<rparr>"] Cons.prems by (simp add: s secure_later)
qed simp

section \<open>A host to run on\<close>

text \<open>A machine is the list of the files OpenSSL has read.\<close>

definition sample_tls :: "cstring list tls" where
  "sample_tls = \<lparr>SSL_CTX_new = (\<lambda>m. (Some 70, m)), SSL_CTX_free = (\<lambda>c m. Some m),
     SSL_CTX_use_certificate_file = (\<lambda>c f m. Some (1, m @ [the f])), SSL_CTX_use_PrivateKey_file = (\<lambda>c f m. Some (1, m @ [the f])),
     SSL_new = (\<lambda>c m. Some (Some 71, m)), bufferevent_openssl_socket_new = (\<lambda>b s m. Some (Some 72, m))\<rparr>"

definition sample_host :: "cstring list host" where
  "sample_host = \<lparr>tls_lib = sample_tls, event_base_new = (\<lambda>m. (Some 60, m)), event_base_run = (\<lambda>b m. ([Http_accept 61], -1, m)),
     evhttp_new = (\<lambda>b m. (Some 61, m)), evhttp_bind_socket = (\<lambda>a n p m. (0, m)), evhttp_free = (\<lambda>a m. Some m)\<rparr>"

definition fresh_process :: "(addr list, nat, cfg_value, cstring list) ssl_mem" where
  "fresh_process = (config_mem.extend blank (ssl_mem.fields 0 0 None [] []))\<lparr>item_at := Map.empty, queue_at := Map.empty,
     mqueue_at := Map.empty, want_at := Map.empty, ctx_queues := [], ctx_wants := [], params_at := Map.empty, auth_at := Map.empty\<rparr>"

lemma fresh_process_simps [simp]:
  "cfg_servers fresh_process = []" "cfg_authentications fresh_process = []" "current_iter fresh_process = None" "next_addr fresh_process = 50"
  "alloc_ok fresh_process = (\<lambda>n. True)" "ssl_initialised fresh_process = 0" "machine fresh_process = []" "bevcb_set fresh_process = []"
  by (simp_all add: fresh_process_def blank_def ws_mem.defs config_mem.defs ssl_mem.defs hall_def server_mem.defs desk_def)

lemma fresh_idle: "idle fresh_process"
  by (simp add: idle_def fresh_memory_def fresh_process_def blank_def ws_mem.defs config_mem.defs ssl_mem.defs hall_def
      server_mem.defs desk_def alloc_limit_def rand_ok_def)

lemma sample_willing: "willing sample_host (\<lambda>c m. True)"
  by (simp add: willing_def sample_host_def sample_tls_def)

section \<open>Properties\<close>

text \<open>
  C26: one key pair for all servers.  Before the TLS context is set up no TLS connection is made.  The first
  server with a certificate sets it up with its certificate and key; every later one is accepted, and
  its own files are not even opened: the memory and the machine are as the first left them, but for the
  servers that use the context.  From then on every connection, of whatever server, is made from this
  one context.
\<close>

theorem ssl_one_keypair:
  assumes "ssl_initialised h = 0" and "SSL_CTX_new (tls_lib H) (machine h) = (Some ctx, m1)"
    and "SSL_CTX_use_certificate_file (tls_lib H) (Some ctx) (Some certificate) m1 = Some (r1, m2)" "0 < r1"
    and "SSL_CTX_use_PrivateKey_file (tls_lib H) (Some ctx) (Some privatekey) m2 = Some (r2, m3)" "0 < r2"
    and h': "h' = h\<lparr>ssl_initialised := 1, keypair_loaded := 2, ssl_ctx := Some ctx, machine := m3,
       bevcb_set := bevcb_set h @ http # map fst ss\<rparr>"
  shows "ssl_create_connection (tls_lib H) h = Some (None, h) \<and>
    secure_servers H ((http, certificate, privatekey) # ss) h = Some (1, h') \<and>
    ssl_create_connection (tls_lib H) h' = do { (ssl, m) \<leftarrow> SSL_new (tls_lib H) (Some ctx) m3; Some (ssl, h'\<lparr>machine := m\<rparr>) }"
  using secure_first [OF assms(1-6), of http] assms(1)
  by (simp add: secure_servers_later h' ssl_create_connection_def)

theorem ssl_one_keypair_witness:
  "\<exists>h'. secure_servers sample_host [(61, ''crt1'', ''key1''), (62, ''crt2'', ''key2'')] fresh_process = Some (1, h') \<and>
     machine h' = [''crt1'', ''key1''] \<and> bevcb_set h' = [61, 62]"
  using ssl_one_keypair [of fresh_process sample_host 70 "[]" "''crt1''" 1 "[''crt1'']" "''key1''" 1 "[''crt1'', ''key1'']" _ 61
      "[(62, ''crt2'', ''key2'')]", OF _ _ _ _ _ _ refl]
  by (simp add: sample_host_def sample_tls_def)

text \<open>
  C11: starting the servers.  On a host that grants what it is asked for, if every configured server names an
  authentication, the loop of \<open>main\<close> ends with every server registered, in order: its five HTTP routes
  ask for exactly the credentials of its authentication, and its websocket server has the callbacks
  of \<open>src/connection-ws.c\<close>.  If one server has no authentication, the loop is undefined: it reads through
  a NULL pointer.
\<close>

theorem servers_started:
  assumes W: "willing H live" and t: "tls_fine live h" and ok: "config_ok h" and sp: "space (8 * length (cfg_servers h)) h"
    and it: "current_iter h = None"
  shows "if \<forall>s \<in> set (cfg_servers h). realm_of h s \<noteq> None
    then \<exists>h' Ms. create_servers H N base (snd (config_iter_server_begin h)) = Some (1, h') \<and> ctx_servers h' = Ms @ ctx_servers h \<and>
      list_all2 (\<lambda>s M. serves h' (the (realm_of h s)) M) (rev (cfg_servers h)) Ms
    else create_servers H N base (snd (config_iter_server_begin h)) = None"
proof -
  let ?h = "h\<lparr>current_iter := LIST_FIRST (cfg_servers h)\<rparr>"
  have g: "grown h ?h" by (simp add: grown_def server_frame_def)
  have b: "snd (config_iter_server_begin h) = ?h" using it by (simp add: config_iter_server_begin_def Let_def)
  have f: "tls_fine live ?h" "space (8 * length (cfg_servers h)) ?h" "cfg_servers ?h = [] @ cfg_servers h"
    "current_iter ?h = LIST_FIRST (cfg_servers h)" "ctx_servers ?h = ctx_servers h"
    using t sp by (simp_all add: tls_fine_def space_def granted_def)
  from create_servers_ok [OF W f(1,2) config_ok_grown [OF ok g] f(3,4), of N base] show ?thesis
    unfolding b f(5) by (simp add: realm_of_grown [OF g] split: if_splits) blast
qed

text \<open>A configured server, with the authentication at 81 or with none.\<close>

definition configured :: "addr option \<Rightarrow> (addr list, nat, cfg_value, cstring list) ssl_mem" where
  "configured a = fresh_process\<lparr>next_addr := 90, auth_at := [82 \<mapsto> \<lparr>au_method = Auth_plaintext, au_methoddata = sample_auth\<rparr>],
     cfg_servers := [80], cfg_authentications := [81],
     server_at := [80 \<mapsto> \<lparr>cs_hostname = Some ''h'', cs_port = 443, cs_certificate = Some ''crt'', cs_privatekey = Some ''key'', cs_authentication = a\<rparr>],
     authentication_at := [81 \<mapsto> \<lparr>ca_name = ''users'', ca_type = Some ''plaintext'', ca_file = Some ''f'', ca_auth = Some 82\<rparr>]\<rparr>"

theorem servers_started_witness:
  "(\<exists>h' M. create_servers sample_host sample_net 60 (snd (config_iter_server_begin (configured (Some 81)))) = Some (1, h') \<and>
      ctx_servers h' = M # ctx_servers (configured (Some 81)) \<and> serves h' (82, ''users'') M) \<and>
   create_servers sample_host sample_net 60 (snd (config_iter_server_begin (configured None))) = None"
proof -
  have ok: "config_ok (configured a)" if "a = None \<or> a = Some 81" for a
    using that by (auto simp: config_ok_def configured_def authentication_ok_def server_ok_def)
  have f: "tls_fine (\<lambda>c m. True) (configured a)" "space (8 * length (cfg_servers (configured a))) (configured a)" "current_iter (configured a) = None" for a
    by (simp_all add: configured_def tls_fine_def space_def granted_def alloc_limit_def)
  have r: "realm_of (configured (Some 81)) 80 = Some (82, ''users'')" "realm_of (configured None) 80 = None" "cfg_servers (configured a) = [80]" for a
    by (simp_all add: configured_def realm_of_def)
  show ?thesis
    using servers_started [OF sample_willing f(1) ok f(2) f(3), of "Some 81" sample_net 60]
      servers_started [OF sample_willing f(1) ok f(2) f(3), of None sample_net 60]
    by (auto simp: r list_all2_Cons1)
qed


text \<open>The configuration the repository ships, and one that asks for credentials.\<close>

definition shipped :: cfg_value where
  "shipped = CObj [(''servers'', CArr [CObj [(''hostname'', CStr ''127.0.0.1''), (''port'', CNum 3682)]])]"

definition guarded :: cfg_value where
  "guarded = CObj
    [(''authentication'', CObj [(''users'', CObj [(''type'', CStr ''plaintext''), (''file'', CStr ''passwd'')])]),
     (''servers'', CArr [CObj [(''hostname'', CStr ''127.0.0.1''), (''port'', CNum 3682), (''authentication'', CStr ''users'')]])]"

lemma sample_dispatch:
  "\<exists>h'. event_base_dispatch sample_host sample_net sample_libs base h = Some (-1, h') \<and> ctx_servers h' = ctx_servers h"
  by (simp add: event_base_dispatch_def sample_host_def ssl_create_bufferevent_def ssl_create_connection_def sample_tls_def)


end
