(* ===== verification/Service.thy ===== *)
theory Service
  imports Disqueue_Spec
begin

text \<open>
  What the started program promises to its HTTP clients: as long as no websocket client waits, requests
  and accepted connections do not bring it down, and each request is answered once.  The interpretation
  \<open>tls_kept\<close> of \<open>handler_frame\<close> says that no handler touches the TLS context.
\<close>

section \<open>Callbacks\<close>

text \<open>Without waiting callbacks, what they would do does not matter.\<close>

lemma put_runner:
  assumes "callback_at h = Map.empty"
  shows "queue_put run q key v h = queue_put run' q key v h"
proof (cases "put_build q key v h")
  case None
  then show ?thesis by (simp add: queue_put_def)
next
  case (Some ah)
  obtain item h1 where ah: "ah = (item, h1)" by force
  with Some have "callback_at h1 = callback_at h" by (auto simp: put_build_def calloc_item_def calloc_def strdup_key_def strdup_def
        free_item_def set_item_def Let_def elim!: bindE split: prod.splits option.splits if_splits)
  with assms have "put_deliver r c a h1 = None" for r c a by (simp add: put_deliver_def)
  with Some ah show ?thesis by (simp add: queue_put_def cong: option.case_cong)
qed

lemma endpoint_runner:
  fixes h :: "('j, 'w, 'z) ws"
  assumes "callback_at h = Map.empty"
  shows "call_endpoint W run e rq h = call_endpoint W run' e rq h"
proof (cases e)
  case Callback_put
  show ?thesis
  proof (cases "read_and_validate W rq False (Some []) h")
    case None
    with Callback_put show ?thesis by (simp add: connection_http_callback_put_def)
  next
    case (Some x)
    obtain m rq' ps h1 where x: "x = (m, rq', ps, h1)" by (cases x)
    have "callback_at h1 = Map.empty" using callbacks_kept.read_validate_obs [OF Some [unfolded x]] assms by simp
    note put_runner [OF this, of run _ _ _ run']
    with Some x Callback_put show ?thesis by (simp add: connection_http_callback_put_def cong: option.case_cong)
  qed
qed simp_all

text \<open>No handler makes a callback wait.\<close>

lemmas calm = callbacks_kept.read_validate_obs callbacks_kept.http_error_obs callbacks_kept.http_payload_obs callbacks_kept.with_json_obs
  callbacks_kept.want_remove_obs callbacks_kept.free_items_obs callbacks_kept.put_build_obs callbacks_kept.put_store_obs

lemma free_callbacks_calm:
  assumes "free_callbacks q h = Some h'" and "callback_at h = Map.empty"
  shows "h' = h"
  using assms by (subst (asm) free_callbacks.simps) (auto simp: queue_callback_free_int_def elim!: bindE split: list.splits)

lemma queue_free_calm:
  fixes h :: "('j, 'w, 'z) ws"
  assumes "manager_queue_free m h = Some h'" and "callback_at h = Map.empty"
  shows "callback_at h' = Map.empty"
  using assms by (auto simp: manager_queue_free_def queue_free_def free_queue_def free_mqueue_def
      elim!: bindE dest!: free_callbacks_calm calm split: if_splits)

lemma queue_put_calm:
  fixes h :: "('j, 'w, 'z) ws"
  assumes "queue_put run q key v h = Some (r, h')" and "callback_at h = Map.empty"
  shows "callback_at h' = Map.empty"
  using assms by (auto simp: queue_put_def put_deliver_def elim!: bindE dest!: calm split: option.splits if_splits)

lemma endpoint_calm:
  fixes h :: "('j, 'w, 'z) ws"
  assumes r: "call_endpoint W run e rq h = Some (rq', ps, h')" and c: "callback_at h = Map.empty"
  shows "callback_at h' = Map.empty"
proof (cases e)
  case Callback_queues
  have "callback_at h' = Map.empty" if "connection_http_callback_new W rq h = Some (rq', ps, h')"
    using that c by (auto simp: connection_http_callback_new_def elim!: bindE dest!: calm queue_free_calm split: option.splits if_splits)
  with r c Callback_queues show ?thesis
    by (auto simp: connection_http_callback_queues_def dest!: callbacks_kept.http_list_obs calm split: http_command.splits)
next
  case Callback_queue
  have "callback_at h' = Map.empty" if "connection_http_callback_delete W rq h = Some (rq', ps, h')"
    using that c by (auto simp: connection_http_callback_delete_def elim!: bindE dest!: calm queue_free_calm split: option.splits if_splits)
  with r c Callback_queue show ?thesis
    by (auto simp: connection_http_callback_queue_def dest!: callbacks_kept.http_info_obs calm split: http_command.splits)
next
  case Callback_put
  with r c show ?thesis
    by (auto simp: connection_http_callback_put_def elim!: bindE dest!: calm queue_put_calm split: option.splits if_splits)
qed (use r c in \<open>auto dest!: callbacks_kept.http_take_obs callbacks_kept.http_peek_obs\<close>)

section \<open>Requests\<close>

lemma registered_in: "registered cs m (s, path) = Some r \<Longrightarrow> m (s, path) = Some r \<or> Evhttp_set_cb s path r \<in> set cs"
  by (induction cs m rule: registered.induct) (auto split: if_splits)

lemma gated_cong:
  assumes g: "gated h" and r: "registry h' = registry h"
  shows "gated h'"
  unfolding gated_def
proof (intro allI impI)
  fix s path rt
  assume "Evhttp_set_cb s path rt \<in> set (ev_calls h')"
  with g r obtain x P e A where x: "rt = Authenticated (Some x)" "params_at h x = Some P" "cp_cb P = Some e" "auth_at h (cp_auth P) = Some A"
    unfolding gated_def registry_def by (metis Pair_inject)
  with r have "cp_auth P \<in> dom (auth_at h')" "params_at h' x = Some P" by (auto simp: registry_def)
  with x(1,3) show "\<exists>x P e A. rt = Authenticated (Some x) \<and> params_at h' x = Some P \<and> cp_cb P = Some e \<and> auth_at h' (cp_auth P) = Some A"
    by auto
qed

text \<open>A request whose credentials, if it has any, can be decoded.\<close>

definition readable :: "'j libs \<Rightarrow> http_request \<Rightarrow> bool" where
  "readable W rq \<longleftrightarrow> (case evhttp_find_header (lib_ev W) (input_headers rq) ''Authorization'' of
     None \<Rightarrow> True | Some header \<Rightarrow> legible header)"

lemma verify_at_total:
  assumes "textual (lib_files W)" and "legible header" and "auth_at h a = Some A"
  shows "\<exists>r h'. verify_at W a header h = Some (r, h')"
  using auth_verify_total [OF assms(1,2), of "lib_ssl W" A h] assms(3) by (auto simp: verify_at_def)

lemma authenticated_returns:
  fixes h :: "('j, 'w, 'z) ws"
  assumes ok: "libs_ok W owned" and g: "manager_good (long_size W) h" and c: "callback_at h = Map.empty"
    and t: "textual (lib_files W)" and rd: "readable W rq"
    and p: "params_at h x = Some P" "cp_cb P = Some e" "auth_at h (cp_auth P) = Some A"
  shows "\<exists>C h'. served (long_size W) owned C rq h h' (connection_http_authenticated W run rq (Some x) h) \<and> callback_at h' = Map.empty"
proof (cases "evhttp_find_header (lib_ev W) (input_headers rq) ''Authorization''")
  case None
  with authenticated_served [OF ok g p(1), of rq run] c show ?thesis by (auto simp: server_frame_def)
next
  case (Some header)
  with rd have "legible header" by (simp add: readable_def)
  from verify_at_total [OF t this p(3)] obtain r h1 where v: "verify_at W (cp_auth P) header h = Some (r, h1)" by blast
  show ?thesis
  proof (cases "r = 0")
    case True
    with Some v authenticated_served [OF ok g p(1), of rq run] c show ?thesis by (auto simp: server_frame_def)
  next
    case False
    note f = verify_at_frame [OF v]
    let ?run = "\<lambda>f a arg h. Some h"
    have g1: "manager_good (long_size W) h1" by (rule server_frame_good [OF g f(1)])
    have c1: "callback_at h1 = Map.empty" using f(1) c by (simp add: server_frame_def)
    obtain C h' where s: "served (long_size W) owned C rq h1 h' (call_endpoint W ?run e rq h1)"
      using endpoint_served [OF ok returning_server_contract g1] by blast
    have "connection_http_authenticated W run rq (Some x) h = call_endpoint W ?run e rq h1"
      using Some v False authenticated_served [OF ok g p(1), of rq run] p(2) endpoint_runner [OF c1, of W run e rq ?run] by simp
    moreover have "callback_at h' = Map.empty" using s endpoint_calm [OF _ c1] by (auto simp: served_def)
    ultimately show ?thesis using s unfolding served_cong [OF refl f(2), of _ owned C rq h'] by auto
  qed
qed

lemma route_returns:
  fixes h :: "('j, 'w, 'z) ws"
  assumes ok: "libs_ok W owned" and R: "ready (long_size W) h" and t: "textual (lib_files W)" and rd: "readable W rq"
    and r: "registered (ev_calls h) Map.empty (http, path) = Some r"
  obtains rq' ps h' a where "call_route W (queue_callback_runner N W) r rq h = Some (rq', ps, h')" "replies rq' = replies rq @ [a]"
    "ready (long_size W) h'" "registry h' = registry h" "owned (json_st h') = owned (json_st h)"
proof -
  have g: "manager_good (long_size W) h" "callback_at h = Map.empty" "gated h" using R by (simp_all add: ready_def)
  from registered_in [OF r] g(3) obtain x P e A where
    x: "r = Authenticated (Some x)" "params_at h x = Some P" "cp_cb P = Some e" "auth_at h (cp_auth P) = Some A"
    unfolding gated_def by fastforce
  from authenticated_returns [OF ok g(1,2) t rd x(2-4), of "queue_callback_runner N W"] obtain C h' rq' ps where
    s: "call_route W (queue_callback_runner N W) r rq h = Some (rq', ps, h')" "one_reply C rq rq'"
      "owned (json_st h') = owned (json_st h)" "manager_good (long_size W) h'" "callback_at h' = Map.empty"
    by (auto simp: served_def x(1))
  note rg = registry_kept.handler_obs(1) [OF s(1)]
  have "ready (long_size W) h'" using s(4,5) gated_cong [OF g(3) rg] by (simp add: ready_def)
  with s rg that show thesis by (auto simp: one_reply_def)
qed

section \<open>Accepted connections\<close>

text \<open>On a live context OpenSSL makes connections, and libevent buffers for them.\<close>

definition accepting :: "'t tls \<Rightarrow> (addr \<Rightarrow> 't \<Rightarrow> bool) \<Rightarrow> bool" where
  "accepting T live \<longleftrightarrow> (\<forall>c m. live c m \<longrightarrow> (\<exists>ssl m'. SSL_new T (Some c) m = Some (ssl, m') \<and> live c m' \<and>
     (\<forall>s base. ssl = Some s \<longrightarrow> (\<exists>bev m2. bufferevent_openssl_socket_new T base s m' = Some (bev, m2) \<and> live c m2))))"

lemma accept_returns:
  assumes T: "accepting T live" and t: "tls_fine live h"
  shows "\<exists>bev m. ssl_create_bufferevent T base h = Some (bev, h\<lparr>machine := m\<rparr>) \<and> tls_fine live (h\<lparr>machine := m\<rparr>)"
proof (cases "ssl_initialised h = 0")
  case True
  then have "ssl_create_bufferevent T base h = Some (None, h\<lparr>machine := machine h\<rparr>)"
    by (simp add: ssl_create_bufferevent_def ssl_create_connection_def)
  with t show ?thesis by (intro exI [of _ None] exI [of _ "machine h"]) simp
next
  case False
  with t obtain c where c: "keypair_loaded h = 2" "ssl_ctx h = Some c" "live c (machine h)" by (auto simp: tls_fine_def)
  from T c(3) obtain ssl m where n: "SSL_new T (Some c) (machine h) = Some (ssl, m)" "live c m"
    "\<forall>s base. ssl = Some s \<longrightarrow> (\<exists>bev m2. bufferevent_openssl_socket_new T base s m = Some (bev, m2) \<and> live c m2)"
    unfolding accepting_def by blast
  have k: "ssl_create_connection T h = Some (ssl, h\<lparr>machine := m\<rparr>)"
    using False c n(1) by (simp add: ssl_create_connection_def)
  have fine: "live c m' \<Longrightarrow> tls_fine live (h\<lparr>machine := m'\<rparr>)" for m' using c by (simp add: tls_fine_def)
  show ?thesis
  proof (cases ssl)
    case None
    with k fine n(2) show ?thesis by (simp add: ssl_create_bufferevent_def) blast
  next
    case (Some s)
    with n(3) obtain bev m2 where "bufferevent_openssl_socket_new T base s m = Some (bev, m2)" "live c m2" by blast
    with Some k fine show ?thesis by (simp add: ssl_create_bufferevent_def) blast
  qed
qed

text \<open>No handler touches the TLS context.\<close>

definition tls_view :: "('j, 'w, 'v, 't, 'z) ssl \<Rightarrow> int \<times> int \<times> addr option \<times> 't" where
  "tls_view h = (ssl_initialised h, keypair_loaded h, ssl_ctx h, machine h)"

interpretation tls_kept: handler_frame tls_view
  by unfold_locales (simp_all add: tls_view_def)

lemma tls_fine_view: "tls_view h' = tls_view h \<Longrightarrow> tls_fine live h' \<longleftrightarrow> tls_fine live h"
  by (simp add: tls_view_def tls_fine_def)

lemma ready_machine: "ready L h \<Longrightarrow> ready L (h\<lparr>machine := m\<rparr>)" for h :: "('j, 'w, 'v, 't, 'z) ssl"
  using server_frame_good [of L h "h\<lparr>machine := m\<rparr>"] gated_cong [of h "h\<lparr>machine := m\<rparr>"]
  by (simp add: ready_def server_frame_def registry_def)

section \<open>Properties\<close>

text \<open>An event without websockets: an accepted connection, or a readable HTTP request.\<close>

fun plain_event :: "'j libs \<Rightarrow> event \<Rightarrow> bool" where
  "plain_event W (Http_request http path rq) = readable W rq"
| "plain_event W (Http_accept http) = True"
| "plain_event W _ = False"

lemma event_served:
  fixes h :: "('j, 'w, 'v, 't, 'z) ssl"
  assumes ok: "libs_ok W owned" and t: "textual (lib_files W)" and T: "accepting (tls_lib H) live"
    and R: "ready (long_size W) h" "tls_fine live h" and e: "plain_event W e"
  shows "\<exists>h'. run_event H N W base e h = Some h' \<and> ready (long_size W) h' \<and> tls_fine live h' \<and> registry h' = registry h \<and>
    owned (json_st h') = owned (json_st h)"
proof (cases e)
  case (Http_request http path rq)
  with e have rd: "readable W rq" by simp
  show ?thesis
  proof (cases "registered (ev_calls h) Map.empty (http, path)")
    case None
    with Http_request R show ?thesis by simp
  next
    case (Some r)
    obtain rq' ps h' a where c: "call_route W (queue_callback_runner N W) r rq h = Some (rq', ps, h')" "replies rq' = replies rq @ [a]"
      "ready (long_size W) h'" "registry h' = registry h" "owned (json_st h') = owned (json_st h)"
      by (rule route_returns [OF ok R(1) t rd Some])
    have "tls_fine live h'" using tls_fine_view [OF tls_kept.handler_obs(1) [OF c(1)], of live] R(2) by blast
    with c Http_request Some show ?thesis by simp
  qed
next
  case (Http_accept http)
  obtain bev m where "ssl_create_bufferevent (tls_lib H) base h = Some (bev, h\<lparr>machine := m\<rparr>)" "tls_fine live (h\<lparr>machine := m\<rparr>)"
    using accept_returns [OF T R(2)] by blast
  with Http_accept R ready_machine [OF R(1), of m] show ?thesis by (simp add: registry_def)
qed (use e in simp_all)

lemma events_served:
  fixes h :: "('j, 'w, 'v, 't, 'z) ssl"
  assumes ok: "libs_ok W owned" and t: "textual (lib_files W)" and T: "accepting (tls_lib H) live"
  shows "ready (long_size W) h \<Longrightarrow> tls_fine live h \<Longrightarrow> list_all (plain_event W) es \<Longrightarrow>
    \<exists>h'. run_events H N W base es h = Some h' \<and> ready (long_size W) h' \<and> tls_fine live h' \<and> registry h' = registry h \<and>
      owned (json_st h') = owned (json_st h)"
proof (induction es arbitrary: h)
  case (Cons e es)
  from Cons.prems(3) have e: "plain_event W e" "list_all (plain_event W) es" by simp_all
  from event_served [OF ok t T Cons.prems(1,2) e(1), of N base] obtain h1 where
    h1: "run_event H N W base e h = Some h1" "ready (long_size W) h1" "tls_fine live h1" "registry h1 = registry h"
    "owned (json_st h1) = owned (json_st h)" by blast
  from Cons.IH [OF h1(2,3) e(2)] h1 show ?case by (simp del: run_event.simps)
qed simp


text \<open>A process that has one protected route, for \<open>/put\<close>.\<close>

definition open_desk :: "(addr list, nat, cfg_value, cstring list) ssl_mem" where
  "open_desk = fresh_process\<lparr>params_at := params_at desk, auth_at := auth_at desk,
     ev_calls := [Evhttp_set_cb 61 ''/put'' (Authenticated (Some 7))]\<rparr>"

lemma open_desk_ready: "ready 8 open_desk"
proof -
  have "fresh_memory open_desk" "manager_startup open_desk = open_desk"
    using fresh_idle by (simp_all add: open_desk_def idle_def fresh_memory_def rand_ok_def manager_startup_def)
  then have "manager_good 8 open_desk" by (metis manager_init_good manager_init_def)
  moreover have "gated open_desk" by (simp add: gated_def open_desk_def desk_def)
  ultimately show ?thesis using \<open>fresh_memory open_desk\<close> by (simp add: ready_def fresh_memory_def)
qed

lemma sample_textual: "textual (lib_files sample_libs)"
  by (simp add: textual_def sample_libs_def sample_files_def password_file_def entry_line_def newline_def)

definition with_login :: "http_request \<Rightarrow> http_request" where
  "with_login rq = rq\<lparr>input_headers := [(''Authorization'', ''Basic YTpi'')]\<rparr>"

definition busy_host :: "cstring list host" where
  "busy_host = sample_host\<lparr>event_base_run := (\<lambda>b m. ([Http_request 61 ''/put'' (request_for EVHTTP_REQ_POST nil_id), Http_accept 61,
     Http_request 61 ''/put'' (with_login (request_for EVHTTP_REQ_POST nil_id)), Http_request 61 ''/none'' (request_for EVHTTP_REQ_GET [])], 0, m))\<rparr>"


end
