(* ===== verification/Ws_Auth.thy ===== *)
theory Ws_Auth
  imports Frames
begin

text \<open>
  The upgrade of a websocket server that asks for credentials: \<open>evws_upgrade_http_cb_\<close> with
  \<open>connection_ws_authenticated\<close> as its upgrade callback.
\<close>

section \<open>Asking the upgrade callback\<close>

lemma upgrade_asks:
  assumes g: "granted h" and r: "ws_request E rq" and hs: "handshake_ok E rq"
    and key: "evhttp_find_header E (input_headers rq) ''Sec-WebSocket-Key'' = Some key"
    and V: "evws_at h w = Some V" "upgradecb V = Some f"
  shows "evws_upgrade_http_cb N E runc runu w rq h = do {
    (ok, rq, h) \<leftarrow> runu f rq (upgradecbarg V) (twice_charged h);
    if ok = 0 then Some (rq, h) else upgrade_switch N E runc w key rq h }"
proof -
  obtain u c where h1: "evhttp_find_header E (input_headers rq) ''Upgrade'' = Some u"
    "evhttp_find_header E (input_headers rq) ''Connection'' = Some c"
    "header_contains u ''websocket'' \<noteq> 0" "header_contains c ''Upgrade'' \<noteq> 0"
    using r by (auto simp: ws_request_def split: option.splits)
  have d: "strdup u h = (Some u, h\<lparr>alloc_count := Suc (alloc_count h)\<rparr>)"
    "strdup c (h\<lparr>alloc_count := Suc (alloc_count h)\<rparr>) = (Some c, twice_charged h)"
    using g by (simp_all add: strdup_def granted_def twice_charged_def)
  have v: "evws_at (twice_charged h) w = Some V" using V by (simp add: twice_charged_def)
  show ?thesis
    using h1 d v hs V key by (auto simp: evws_upgrade_http_cb_def handshake_ok_def)
qed

section \<open>The answer of the callback\<close>

lemma verify_at_only:
  assumes "verify_at W a s h = Some (r, h')"
  obtains n A where "h' = h\<lparr>alloc_count := n, auth_at := (auth_at h)(a \<mapsto> A)\<rparr>"
proof -
  from assms obtain A B h1 where v: "auth_verify (lib_files W) (lib_ssl W) A s h = Some (r, B, h1)"
    and h': "h' = h1\<lparr>auth_at := (auth_at h1)(a \<mapsto> B)\<rparr>"
    by (auto simp: verify_at_def elim!: bindE)
  from auth_verify_only [OF v] obtain n where "h1 = h\<lparr>alloc_count := n\<rparr>" by (auto simp: only_alloc_def)
  with h' that show thesis by simp
qed

text \<open>A refused upgrade: one reply with a code of \<open>C\<close>, and nothing else.\<close>

definition connections :: "('j, 'w, 'z) ws \<Rightarrow> (addr \<Rightarrow> evws_connection option) \<times> (addr \<Rightarrow> evws_message option) \<times> (addr \<Rightarrow> evws option)" where
  "connections h = (conn_at h, message_at h, evws_at h)"

interpretation connections_kept: request_frame connections
  by unfold_locales (simp_all add: connections_def)

definition refused :: "int set \<Rightarrow> upgrade_request \<Rightarrow> ('j, 'w, 'z) ws \<Rightarrow> (upgrade_request \<times> ('j, 'w, 'z) ws) option \<Rightarrow> bool" where
  "refused C rq h res \<longleftrightarrow> (\<exists>rq' h' c. res = Some (rq', h') \<and> c \<in> C \<and>
     map reply_code (replies rq') = map reply_code (replies rq) @ [c] \<and> server_frame h h' \<and> connections h' = connections h)"

lemma extend_replies [simp]: "replies (http_request.extend rq m) = replies rq"
  by (simp add: http_request.defs)

lemma truncate_request [simp]:
  "replies (http_request.truncate rq) = replies rq" "input_headers (http_request.truncate rq) = input_headers rq"
  by (simp_all add: http_request.defs)

lemma extend_truncate [simp]: "http_request.extend (http_request.truncate rq) (http_request.more rq) = rq"
  by (cases rq) (simp add: http_request.defs)

lemma callback_refused:
  fixes h :: "('j, 'w, 'z) ws"
  assumes ok: "libs_ok W owned" and g: "manager_good (long_size W) h1" and f: "server_frame h h1" "connections h1 = connections h"
    and rq1: "replies rq1 = replies rq" and c: "code \<noteq> 0"
    and res: "upgrade_callback W FN_ws_authenticated rq arg h = do {
      (rq, params, h) \<leftarrow> connection_http_error W rq1 None code text h1;
      Some (0, http_request.extend rq m, h) }"
  shows "\<exists>rq' h'. upgrade_callback W FN_ws_authenticated rq arg h = Some (0, rq', h') \<and>
    refused (codes (lib_json W) code) rq h (Some (rq', h'))"
proof -
  obtain j' where s: "served (long_size W) owned (codes (lib_json W) code) rq1 h1 (h1\<lparr>json_st := j'\<rparr>)
      (connection_http_error W rq1 None code text h1)"
    by (rule error_served [OF ok g refl c])
  then obtain rq' ps r where e: "connection_http_error W rq1 None code text h1 = Some (rq', ps, h1\<lparr>json_st := j'\<rparr>)"
    "replies rq' = replies rq1 @ [r]" "reply_code r \<in> codes (lib_json W) code"
    by (auto simp: served_def one_reply_def)
  have "server_frame h (h1\<lparr>json_st := j'\<rparr>)" by (rule server_frame_trans [OF f(1) server_frame_json])
  then show ?thesis
    using e rq1 f(2) unfolding res by (auto simp: refused_def connections_def)
qed

lemma callback_without_credentials:
  fixes h :: "('j, 'w, 'z) ws" and rq :: upgrade_request
  assumes ok: "libs_ok W owned" and g: "manager_good (long_size W) h" and p: "params_at h p = Some P"
    and n: "evhttp_find_header (lib_ev W) (input_headers rq) ''Authorization'' = None"
  shows "\<exists>rq' h'. upgrade_callback W FN_ws_authenticated rq (Some p) h = Some (0, rq', h') \<and>
    refused (codes (lib_json W) 401) rq h (Some (rq', h'))"
proof -
  let ?rq = "http_request.truncate rq"
  obtain rq1 h1 where a: "connection_http_auth_required W ?rq (cp_realm P) h = (rq1, h1)" by force
  with auth_required_frame [of h W ?rq "cp_realm P"] have f: "server_frame h h1" "replies rq1 = replies rq" by simp_all
  show ?thesis
    by (rule callback_refused [OF ok server_frame_good [OF g f(1)] f(1) connections_kept.auth_required_obs [OF a] f(2)])
       (use p n a in \<open>simp_all add: upgrade_callback_def connection_ws_authenticated_def case_prod_unfold\<close>)
qed

lemma callback_with_credentials:
  fixes h :: "('j, 'w, 'z) ws" and rq :: upgrade_request
  assumes ok: "libs_ok W owned" and g: "manager_good (long_size W) h" and p: "params_at h p = Some P"
    and n: "evhttp_find_header (lib_ev W) (input_headers rq) ''Authorization'' = Some s"
    and v: "verify_at W (cp_auth P) s h = Some (r, h1)"
  shows "if r = 0
    then \<exists>rq' h'. upgrade_callback W FN_ws_authenticated rq (Some p) h = Some (0, rq', h') \<and>
      refused (codes (lib_json W) 403) rq h (Some (rq', h'))
    else upgrade_callback W FN_ws_authenticated rq (Some p) h = Some (1, rq, h1)"
proof (cases "r = 0")
  case True
  have f: "server_frame h h1" by (rule verify_at_frame [OF v])
  have "\<exists>rq' h'. upgrade_callback W FN_ws_authenticated rq (Some p) h = Some (0, rq', h') \<and>
      refused (codes (lib_json W) 403) rq h (Some (rq', h'))"
    by (rule callback_refused [OF ok server_frame_good [OF g f(1)] f(1) connections_kept.verify_at_obs [OF v]])
       (use p n v True in \<open>simp_all add: upgrade_callback_def connection_ws_authenticated_def case_prod_unfold\<close>)
  with True show ?thesis by simp
next
  case False
  with p n v show ?thesis
    by (simp add: upgrade_callback_def connection_ws_authenticated_def)
qed

section \<open>Properties\<close>

text \<open>What an upgrade that is let in does.\<close>

definition let_in ::
  "'w net \<Rightarrow> libevent \<Rightarrow> addr \<Rightarrow> evws \<Rightarrow> upgrade_request \<Rightarrow> ('j, 'w, 'z) ws \<Rightarrow> (upgrade_request \<times> ('j, 'w, 'z) ws) option \<Rightarrow> bool" where
  "let_in N E w V rq h res \<longleftrightarrow> (\<exists>rq' h'. res = Some (rq', h') \<and>
     (if handover N (next_addr h) (net_st h)
      then rq' = switching E (accept_text N (request_key E rq)) rq \<and>
        conn_at h' = (conn_at h)(next_addr h \<mapsto> fresh_connection w rq) \<and>
        evws_at h' = (evws_at h)(w \<mapsto> V\<lparr>ws_connections := ws_connections V @ [next_addr h]\<rparr>)
      else map reply_code (replies rq') = map reply_code (replies rq) @ [101, 500] \<and>
        conn_at h' = conn_at h \<and> evws_at h' = evws_at h))"


text \<open>A websocket server on the protected route of \<open>desk\<close>.\<close>

definition gate :: evws where
  "gate = sample_evws\<lparr>upgradecb := Some FN_ws_authenticated, upgradecbarg := Some 7\<rparr>"

definition guarded_hall :: "(addr list, nat) ws_mem" where
  "guarded_hall = hall\<lparr>evws_at := [30 \<mapsto> gate]\<rparr>"

definition login_upgrade :: "cstring \<Rightarrow> upgrade_request" where
  "login_upgrade token = (sample_upgrade ''13'')\<lparr>input_headers := (''Authorization'', ''Basic '' @ token) # input_headers (sample_upgrade ''13'')\<rparr>"


end
