(* ===== verification/Spec2Isabelle.thy ===== *)
theory Spec2Isabelle
  imports Queue_Spec Uuid Manager_Spec Auth_Plaintext Protocol Connection_Http_Spec Service Ws_Auth
begin

text \<open>
  A verification development for disqueue, a queue service in C that is spoken to over HTTP and websockets.

  \<^bold>\<open>The program.\<close>  \<open>src/queue.c\<close> is a queue of items with optional keys, on which callbacks can wait.
  \<open>src/manager.c\<close> keeps the queues a server offers under printed ids, the wants (a websocket client that waits
  for an item), and the servers.  \<open>src/connection-http.c\<close> and \<open>src/connection-ws.c\<close> are the handlers of
  requests and of websocket messages; they answer with the JSON messages of \<open>src/protocol.c\<close>.  \<open>src/ws.c\<close>
  is the websocket server: it upgrades HTTP requests and owns the connections.  \<open>src/auth.c\<close> and
  \<open>src/auth-plaintext.c\<close> check credentials against a password file.  \<open>src/config.c\<close> reads the
  configuration, \<open>src/ssl.c\<close> keeps the TLS context, \<open>src/getopt.c\<close> is the fallback option scanner, and
  \<open>src/main.c\<close> starts the configured servers and runs the event loop.

  \<^bold>\<open>How C is modelled.\<close>  An operation takes the memory \<open>h\<close> and returns \<open>Some (r, h')\<close>, or \<open>None\<close> when its behaviour
  is undefined: a use or a free of a structure that is not allocated, a NULL dereference, a read past
  the end of a string.  A loop that may run forever is a \<open>partial_function (option)\<close>, whose \<open>None\<close> also
  stands for not ending; that such a loop returns is proved wherever it does.  No fuel is used.  The memory
  is one record that every component extends by its own stores:
  \<open>mem\<close> (the allocator, theory \<open>Prelude\<close>), \<open>queue_mem\<close>, \<open>manager_mem\<close>, \<open>server_mem\<close> (json-c and
  the authentications), \<open>ws_mem\<close>, \<open>config_mem\<close>, \<open>ssl_mem\<close>.  A structure lives at an address, a pointer that may be
  NULL is an \<open>addr option\<close>, a \<open>TAILQ\<close> or \<open>LIST\<close> is the list of the addresses it links.  Every allocation asks
  \<open>alloc_ok\<close>, so each of them may fail, and there are \<open>2 ^ 64\<close> addresses.  Counters are 64-bit words and
  ports 16-bit words; \<open>sizeof(unsigned long)\<close> is a parameter, 4 or 8.  Strings are char lists without NUL.

  \<^bold>\<open>What is a parameter.\<close>  Libraries that are not part of the repository are records of functions:
  \<open>json_c\<close> and \<open>config_json\<close> (json-c), \<open>libevent\<close> (headers and buffers), \<open>net\<close> (wslay, bufferevents, digests),
  \<open>openssl\<close> and \<open>tls\<close>, \<open>files\<close> (what \<open>stat\<close> and \<open>fopen\<close> find), \<open>host\<close> (event base, servers, sockets).  What a
  property needs of them is a named hypothesis over their documentation: \<open>json_contract\<close> (who owns a
  reference), \<open>libs_ok\<close>, \<open>openssl_ok\<close>, \<open>accept_ok\<close>, \<open>willing\<close>, \<open>accepting\<close>.  Function pointers are numbers and what they stand
  for is a runner; the runners of the program itself are \<open>conn_callback\<close>, \<open>data_callback\<close>,
  \<open>queue_callback_runner\<close> and \<open>upgrade_callback\<close>.

  \<^bold>\<open>The theories.\<close>
  \<^item> \<open>Prelude\<close>: types, string functions, the allocator, list surgery, and the locale \<open>invariant_system\<close>
    (a step relation with an invariant).
  \<^item> \<open>Queue\<close> (all of \<open>queue.c\<close>, its structures from \<open>queue-internal.h\<close>); \<open>Queue_Correct\<close>: the invariant \<open>heap_inv\<close>, what
    each operation does on it, allocation failures included; \<open>Queue_Spec\<close>: the contract of a queue as the locale
    \<open>queue_service\<close>, interpreted for \<open>queue_put\<close> and \<open>queue_take\<close>, refinement to a list of entries and a list
    of waiters, callbacks in and out of contract, locks, and sequences of calls.
  \<^item> \<open>Uuid\<close>: \<open>queue_get_uuid\<close> and the parsing part of \<open>manager_queue_get\<close>, byte by byte; round trips and bounds.
  \<^item> \<open>Manager\<close> (all of \<open>manager.c\<close>); \<open>Manager_Correct\<close>: its invariant; \<open>Manager_Spec\<close>: the step relation of the calls
    into the manager, as an interpretation of \<open>invariant_system\<close>, lookup, creation, shutdown.
  \<^item> \<open>Auth_Plaintext\<close>: \<open>auth.c\<close> and \<open>auth-plaintext.c\<close>; reading lines in pieces, and the reference of what a
    \<open>Basic\<close> header is accepted for.
  \<^item> \<open>Protocol\<close>: \<open>protocol.c\<close>, with the ownership of JSON references on every path.
  \<^item> \<open>Connection_Http\<close> (all of \<open>connection-http.c\<close>); \<open>Connection_Http_Correct\<close>: each handler serves its requests
    (\<open>served\<close>: one reply, nothing leaked, the manager in order); \<open>Connection_Http_Spec\<close>: codes and effects.
  \<^item> \<open>Ws\<close> (all of \<open>ws.c\<close>); \<open>Ws_Correct\<close>: header values, upgrades, the invariant \<open>ws_ok\<close>, and the locale \<open>ws_client\<close>,
    the interface to whoever is told that a connection ended; \<open>Ws_Spec\<close>: its interpretation for the
    callbacks of \<open>connection-ws.c\<close>, and the properties of upgrades and of the end of connections.
  \<^item> \<open>Connection_Ws\<close> (all of \<open>connection-ws.c\<close>); \<open>Connection_Ws_Correct\<close> and \<open>Connection_Ws_Spec\<close>: waiting, delivery,
    cancelled and dangling wants.
  \<^item> \<open>Config\<close> (all of \<open>config.c\<close>); \<open>Config_Spec\<close>: the reference \<open>described\<close> of what a document says, the invariant
    \<open>config_ok\<close>, and loading.
  \<^item> \<open>Getopt\<close> (\<open>getopt.c\<close>) and \<open>Command_Line\<close> (\<open>command_line\<close> of \<open>main.c\<close>): the reference \<open>parse\<close>, and that the loop
    over \<open>getopt\<close> ends.
  \<^item> \<open>Ssl\<close> (\<open>ssl.c\<close>), \<open>Disqueue\<close> (\<open>create_server\<close>, the event loop and \<open>main\<close>), \<open>Start_Correct\<close> (starting the configured
    servers), \<open>Frames\<close> (the locales \<open>request_frame\<close> and \<open>handler_frame\<close>: an observation the primitive updates keep is
    kept by every handler that returns, whatever the libraries answer; interpreted for the routes with their
    parameters, the waiting callbacks, and in later theories for the TLS context and the connections), \<open>Disqueue_Spec\<close> (the key pair, the started servers, the
    outcomes of \<open>main\<close>), \<open>Service\<close> (the event loop of the started program on HTTP requests and accepted
    connections), \<open>Ws_Auth\<close> (upgrades on a server that asks for credentials).
  \<^item> this theory: the property of a protected route, from the header to the queues.

  \<^bold>\<open>How the parts meet.\<close>  \<open>manager_add_server\<close> logs the routes and callbacks it registers in \<open>ev_calls\<close>; \<open>add_server\<close> of
  \<open>Disqueue\<close> runs the logged calls of \<open>ws.c\<close>, and \<open>run_event\<close> looks the routes up when a request arrives.
  An event of the loop is a request, an accepted connection, an upgrade, data or the end of a
  connection; the loop is any list of them.  A delivery runs through four theories: \<open>queue_put\<close> calls
  \<open>queue_callback_runner\<close>, which answers on the connection of the want through \<open>evws_connection_send\<close>.

  \<^bold>\<open>What the properties show.\<close>  The queue is a first-in first-out list per wish of the taker, refined down to the
  words and links; the manager never leaks or dangles in any reachable state; every HTTP request gets
  exactly one reply with the documented effect, and the started program serves any sequence of requests
  as long as no websocket client waits; credentials are accepted exactly when they are right, on HTTP routes
  and for websockets;
  freeing and closing websocket connections is clean; the configuration in memory is the one that was
  written.  Some properties state what goes wrong, and are proved of the code as it is: a delivery
  to a websocket frees the item twice (\<open>ws_delivery_double_free\<close>), a created queue is not found again with
  8-byte longs (\<open>manager_name_lost_64\<close>), a want can outlive its connection (\<open>ws_dangling_want\<close>), all servers share
  the first key pair (\<open>ssl_one_keypair\<close>), a server without authentication, as in the configuration that
  is shipped, crashes the program, and after serving it never ends with 0 (\<open>main_outcome\<close>).

  \<^bold>\<open>Not modelled.\<close>  Messages on stdout and stderr, and the \<open>isprint\<close> test that chooses one of them.  Leaks
  of the strings of an authentication: it is a value, which \<open>auth_free\<close> empties and its owner drops.  The start of old versions of OpenSSL, Windows sockets, and the headers that are
  generated at configuration time (\<open>*.h.in\<close>).  The conversion specifications of \<open>sscanf\<close> and \<open>sprintf\<close> are
  those of ISO C, on a machine that stores the least significant byte first.  \<open>getopt\<close> is the fallback; a C library with
  its own may reorder arguments.  The clients in Python and TypeScript are other programs.
\<close>

section \<open>Properties that span components\<close>


definition login :: "cstring \<Rightarrow> http_request" where
  "login token = (request_for EVHTTP_REQ_POST nil_id)\<lparr>input_headers := [(''Authorization'', ''Basic '' @ token)]\<rparr>"


end
